(* ===== verification/Prelude.thy ===== *)
theory Prelude
  imports
    Complex_Main
    "HOL-Library.AList"
    "HOL-Library.Multiset"
    "HOL-Library.List_Lexorder"
    "HOL-Library.Char_ord"
begin

section \<open>Shared vocabulary and generic lemmas\<close>

text \<open>
  What every component uses. Product dates, identifiers and operand keys are JavaScript
  strings that the source compares with \<open><\<close>; they are modelled as \<open>string\<close> under the
  lexicographic order of \<open>List_Lexorder\<close> over the code order of \<open>Char_ord\<close>, which is the
  UTF-16 code unit order of JavaScript on the ASCII strings the program uses.

  A JavaScript \<open>Map\<close> keeps its keys in insertion order and overwrites in place. An
  association list with \<open>AList.update\<close> (overwrite in place, append when new), \<open>AList.delete\<close>
  and \<open>map_of\<close> is that structure, so iteration order stays visible in the model.

  The collections \<open>ledger_simps\<close> and \<open>step_simps\<close> gather the rewrite rules the component
  theories contribute to the ledger and to the step functions.
\<close>

type_synonym local_date = string
type_synonym security_id = string
type_synonym operand_key = string

named_theorems ledger_simps "rewrite rules for the exact decimal ledger"
named_theorems step_simps "rewrite rules for the state-changing steps"

subsection \<open>JavaScript maps as association lists\<close>

abbreviation js_map_set :: "'k \<Rightarrow> 'v \<Rightarrow> ('k \<times> 'v) list \<Rightarrow> ('k \<times> 'v) list" where
  "js_map_set \<equiv> AList.update"

abbreviation js_map_delete :: "'k \<Rightarrow> ('k \<times> 'v) list \<Rightarrow> ('k \<times> 'v) list" where
  "js_map_delete \<equiv> AList.delete"

abbreviation js_keys :: "('k \<times> 'v) list \<Rightarrow> 'k list" where
  "js_keys m \<equiv> map fst m"

definition js_map_ok :: "('k \<times> 'v) list \<Rightarrow> bool" where
  "js_map_ok m \<longleftrightarrow> distinct (js_keys m)"

lemma js_map_ok_Nil [simp, intro]: "js_map_ok []"
  by (simp add: js_map_ok_def)

lemma js_map_ok_set [simp, intro]: "js_map_ok m \<Longrightarrow> js_map_ok (js_map_set k v m)"
  by (simp add: js_map_ok_def distinct_update)

lemma js_map_ok_delete [simp, intro]: "js_map_ok m \<Longrightarrow> js_map_ok (js_map_delete k m)"
  by (simp add: js_map_ok_def distinct_delete)

lemma js_map_get_set [simp]:
  "map_of (js_map_set k v m) k' = (if k' = k then Some v else map_of m k')"
  by (simp add: update_conv')

lemma js_map_get_delete [simp]:
  "map_of (js_map_delete k m) k' = (if k' = k then None else map_of m k')"
  by (simp add: delete_conv' fun_upd_apply)

lemma js_map_get_iff:
  "js_map_ok m \<Longrightarrow> map_of m k = Some v \<longleftrightarrow> (k, v) \<in> set m"
  by (simp add: js_map_ok_def map_of_eq_Some_iff)

lemma set_js_map_delete [simp]: "set (js_map_delete k m) = {p \<in> set m. fst p \<noteq> k}"
  by (auto simp: AList.delete_eq)

lemma length_js_map_set:
  "length (js_map_set k v m) = (if map_of m k = None then Suc (length m) else length m)"
  by (induction m) auto

lemma length_js_map_delete_le: "length (js_map_delete k m) \<le> length m"
  by (simp add: AList.delete_eq)

lemma set_js_map_set:
  "js_map_ok m \<Longrightarrow> set (js_map_set k v m) = insert (k, v) {p \<in> set m. fst p \<noteq> k}"
  by (induction m) (force simp: js_map_ok_def)+

lemma map_of_map_values:
  "map_of (map (\<lambda>p. (fst p, f (fst p) (snd p))) m) k = map_option (f k) (map_of m k)"
  by (induction m) auto

subsection \<open>Results\<close>

text \<open>
  A computation that may throw returns a sum: \<open>Inl\<close> the error, \<open>Inr\<close> the value.
\<close>

fun result_bind :: "'e + 'a \<Rightarrow> ('a \<Rightarrow> 'e + 'b) \<Rightarrow> 'e + 'b" where
  "result_bind (Inl e) f = Inl e"
| "result_bind (Inr x) f = f x"

definition result_map :: "('a \<Rightarrow> 'b) \<Rightarrow> 'e + 'a \<Rightarrow> 'e + 'b" where
  "result_map f r = result_bind r (\<lambda>x. Inr (f x))"

lemma result_map_simps [simp]:
  "result_map f (Inl e) = Inl e"
  "result_map f (Inr x) = Inr (f x)"
  by (simp_all add: result_map_def)

fun result_all :: "('a \<Rightarrow> 'e + 'b) \<Rightarrow> 'a list \<Rightarrow> 'e + 'b list" where
  "result_all f [] = Inr []"
| "result_all f (x # xs) =
     result_bind (f x) (\<lambda>y. result_bind (result_all f xs) (\<lambda>ys. Inr (y # ys)))"

lemma result_bind_Inr_iff: "result_bind r f = Inr y \<longleftrightarrow> (\<exists>x. r = Inr x \<and> f x = Inr y)"
  by (cases r) auto

lemma result_map_Inr_iff: "result_map f r = Inr y \<longleftrightarrow> (\<exists>x. r = Inr x \<and> f x = y)"
  by (cases r) auto

lemma result_all_Inr_iff:
  "result_all f xs = Inr ys \<longleftrightarrow> list_all2 (\<lambda>x y. f x = Inr y) xs ys"
  by (induction xs arbitrary: ys) (auto simp: result_bind_Inr_iff list_all2_Cons1)

lemma result_all_set:
  "result_all f xs = Inr ys \<Longrightarrow> set ys = {y. \<exists>x \<in> set xs. f x = Inr y}"
  by (induction xs arbitrary: ys) (auto simp: result_bind_Inr_iff)

lemma result_all_mem: "result_all f xs = Inr ys \<Longrightarrow> x \<in> set xs \<Longrightarrow> \<exists>y \<in> set ys. f x = Inr y"
  by (induction xs arbitrary: ys) (auto simp: result_bind_Inr_iff)

lemma result_all_length: "result_all f xs = Inr ys \<Longrightarrow> length ys = length xs"
  by (induction xs arbitrary: ys) (auto simp: result_bind_Inr_iff)

lemma result_all_nth: "result_all f xs = Inr ys \<Longrightarrow> i < length xs \<Longrightarrow> f (xs ! i) = Inr (ys ! i)"
  by (simp add: result_all_Inr_iff list_all2_conv_all_nth)

text \<open>A loop whose body may throw.\<close>

fun result_fold :: "('a \<Rightarrow> 's \<Rightarrow> 'e + 's) \<Rightarrow> 'a list \<Rightarrow> 's \<Rightarrow> 'e + 's" where
  "result_fold f [] s = Inr s"
| "result_fold f (x # xs) s = result_bind (f x s) (result_fold f xs)"

lemma result_fold_append:
  "result_fold f (xs @ ys) s = result_bind (result_fold f xs s) (result_fold f ys)"
proof (induction xs arbitrary: s)
  case (Cons x xs)
  then show ?case by (cases "f x s") simp_all
qed simp

lemma result_fold_reaches:
  assumes "\<And>x s s'. I s \<Longrightarrow> f x s = Inr s' \<Longrightarrow> R\<^sup>*\<^sup>* s s'"
    and "\<And>s s'. R s s' \<Longrightarrow> I s \<Longrightarrow> I s'"
  shows "result_fold f xs s = Inr s' \<Longrightarrow> I s \<Longrightarrow> R\<^sup>*\<^sup>* s s'"
proof (induction xs arbitrary: s)
  case (Cons x xs)
  then obtain t where t: "f x s = Inr t" "result_fold f xs t = Inr s'" by (auto simp: result_bind_Inr_iff)
  have st: "R\<^sup>*\<^sup>* s t" by (rule assms(1) [OF Cons.prems(2) t(1)])
  then have "I t" using Cons.prems(2) by (induction rule: rtranclp_induct) (auto intro: assms(2))
  then show ?case using Cons.IH [OF t(2)] st by (meson rtranclp_trans)
qed simp

lemma result_fold_inv:
  assumes "\<And>x s s'. x \<in> set xs \<Longrightarrow> I s \<Longrightarrow> f x s = Inr s' \<Longrightarrow> I s'"
  shows "result_fold f xs s = Inr s' \<Longrightarrow> I s \<Longrightarrow> I s'"
  using assms by (induction xs arbitrary: s) (auto simp: result_bind_Inr_iff)

text \<open>Two computations that throw the same errors and return related values.\<close>

abbreviation same_result :: "('a \<Rightarrow> 'b \<Rightarrow> bool) \<Rightarrow> 'e + 'a \<Rightarrow> 'e + 'b \<Rightarrow> bool" where
  "same_result \<equiv> rel_sum (=)"

lemma same_result_bind:
  "same_result R r r' \<Longrightarrow> (\<And>a b. R a b \<Longrightarrow> same_result S (f a) (g b)) \<Longrightarrow>
     same_result S (result_bind r f) (result_bind r' g)"
  by (cases r; cases r') auto

lemma same_result_map:
  "same_result R r r' \<Longrightarrow> (\<And>a b. R a b \<Longrightarrow> S (f a) (g b)) \<Longrightarrow>
     same_result S (result_map f r) (result_map g r')"
  by (cases r; cases r') auto

lemma same_result_fold:
  assumes "\<And>x y s t. Q x y \<Longrightarrow> R s t \<Longrightarrow> same_result R (f x s) (g y t)"
  shows "list_all2 Q xs ys \<Longrightarrow> R s t \<Longrightarrow> same_result R (result_fold f xs s) (result_fold g ys t)"
proof (induction xs ys arbitrary: s t rule: list_all2_induct)
  case (Cons x xs y ys)
  from same_result_bind [OF assms [OF Cons.hyps(1) Cons.prems] Cons.IH] show ?case by simp
qed simp

subsection \<open>Ascending sequences\<close>

text \<open>
  The source guarantees ascending, duplicate-free sequences with \<open>[...new Set(xs)].sort()\<close>;
  \<open>sort (remdups xs)\<close> is that value for a total order.
\<close>

abbreviation ascending :: "'a::linorder list \<Rightarrow> bool" where
  "ascending xs \<equiv> sorted_wrt (<) xs"

definition sorted_unique :: "'a::linorder list \<Rightarrow> 'a list" where
  "sorted_unique xs = sort (remdups xs)"

lemma set_sorted_unique [simp]: "set (sorted_unique xs) = set xs"
  by (simp add: sorted_unique_def)

lemma ascending_sorted_unique [simp, intro]: "ascending (sorted_unique xs)"
  by (simp add: sorted_unique_def strict_sorted_iff)

lemma ascending_distinct: "ascending xs \<Longrightarrow> distinct xs"
  by (simp add: strict_sorted_iff)

lemma ascending_sorted: "ascending xs \<Longrightarrow> sorted xs"
  by (simp add: strict_sorted_iff)

lemma ascending_unique: "ascending xs \<Longrightarrow> ascending ys \<Longrightarrow> set xs = set ys \<Longrightarrow> xs = ys"
  by (simp add: strict_sorted_equal)

lemma ascending_nth_less:
  "ascending xs \<Longrightarrow> i < j \<Longrightarrow> j < length xs \<Longrightarrow> xs ! i < xs ! j"
  by (rule sorted_wrt_nth_less)

lemma ascending_nth_mono:
  "ascending xs \<Longrightarrow> i \<le> j \<Longrightarrow> j < length xs \<Longrightarrow> xs ! i \<le> xs ! j"
  by (metis ascending_nth_less le_neq_implies_less less_imp_le order_refl)

lemma ascending_nth_less_iff:
  "ascending xs \<Longrightarrow> i < length xs \<Longrightarrow> j < length xs \<Longrightarrow> xs ! i < xs ! j \<longleftrightarrow> i < j"
  by (metis ascending_nth_less linorder_neqE_nat less_asym less_irrefl)

lemma ascending_nth_eq_iff:
  "ascending xs \<Longrightarrow> i < length xs \<Longrightarrow> j < length xs \<Longrightarrow> xs ! i = xs ! j \<longleftrightarrow> i = j"
  by (metis ascending_distinct nth_eq_iff_index_eq)

lemma ascending_append:
  "ascending (xs @ ys) \<longleftrightarrow>
     ascending xs \<and> ascending ys \<and> (\<forall>x \<in> set xs. \<forall>y \<in> set ys. x < y)"
  by (rule sorted_wrt_append)

lemma ascending_filter [intro]: "ascending xs \<Longrightarrow> ascending (filter P xs)"
  by (induction xs) auto

subsection \<open>Stable sorting by a comparator\<close>

text \<open>
  \<open>Array.prototype.sort\<close> with a comparator is a stable sort; for a comparator that orders the
  elements of the list its result is determined, and insertion sort computes it.
\<close>

fun js_insert :: "('a \<Rightarrow> 'a \<Rightarrow> int) \<Rightarrow> 'a \<Rightarrow> 'a list \<Rightarrow> 'a list" where
  "js_insert cmp x [] = [x]"
| "js_insert cmp x (y # ys) = (if cmp x y \<le> 0 then x # y # ys else y # js_insert cmp x ys)"

definition js_sort :: "('a \<Rightarrow> 'a \<Rightarrow> int) \<Rightarrow> 'a list \<Rightarrow> 'a list" where
  "js_sort cmp xs = foldr (js_insert cmp) xs []"

lemma js_sort_simps [simp]:
  "js_sort cmp [] = []"
  "js_sort cmp (x # xs) = js_insert cmp x (js_sort cmp xs)"
  by (simp_all add: js_sort_def)

lemma mset_js_insert [simp]: "mset (js_insert cmp x ys) = add_mset x (mset ys)"
  by (induction ys) auto

lemma mset_js_sort [simp]: "mset (js_sort cmp xs) = mset xs"
  by (induction xs) auto

lemma set_js_insert [simp]: "set (js_insert cmp x ys) = insert x (set ys)"
  by (induction ys) auto

lemma set_js_sort [simp]: "set (js_sort cmp xs) = set xs"
  by (induction xs) auto

lemma length_js_sort [simp]: "length (js_sort cmp xs) = length xs"
  by (metis mset_js_sort size_mset)

lemma distinct_js_sort [simp]: "distinct (js_sort cmp xs) = distinct xs"
  by (metis mset_js_sort mset_eq_imp_distinct_iff)

text \<open>
  A comparator orders a carrier when two different elements compare one way or the other and
  the comparison is transitive. A client instantiates the locale with its comparator.
\<close>

locale comparator =
  fixes cmp :: "'a \<Rightarrow> 'a \<Rightarrow> int"
    and carrier :: "'a \<Rightarrow> 'a \<Rightarrow> bool"
  assumes cmp_total: "carrier x y \<Longrightarrow> cmp x y \<le> 0 \<or> cmp y x \<le> 0"
    and cmp_trans: "cmp x y \<le> 0 \<Longrightarrow> cmp y z \<le> 0 \<Longrightarrow> cmp x z \<le> 0"
begin

abbreviation comparable :: "'a list \<Rightarrow> bool" where
  "comparable \<equiv> sorted_wrt (\<lambda>x y. carrier x y \<and> carrier y x)"

lemma sorted_js_insert:
  assumes "sorted_wrt (\<lambda>x y. cmp x y \<le> 0) ys" "\<forall>y \<in> set ys. carrier x y"
  shows "sorted_wrt (\<lambda>x y. cmp x y \<le> 0) (js_insert cmp x ys)"
  using assms
proof (induction ys)
  case (Cons y ys)
  then show ?case using cmp_total [of x y] by (auto intro: cmp_trans)
qed simp

lemma sorted_js_sort: "comparable xs \<Longrightarrow> sorted_wrt (\<lambda>x y. cmp x y \<le> 0) (js_sort cmp xs)"
  by (induction xs) (auto intro: sorted_js_insert)

end

subsection \<open>Folding a step that keeps an invariant\<close>

text \<open>
  The loops of the source thread a state through a list. A component instantiates this
  locale with its step and its invariant and gets the invariant of the whole loop.
\<close>

locale invariant_loop =
  fixes step :: "'s \<Rightarrow> 'e \<Rightarrow> 's"
    and inv :: "'s \<Rightarrow> bool"
  assumes step_inv: "inv s \<Longrightarrow> inv (step s e)"
begin

lemma foldl_inv: "inv s \<Longrightarrow> inv (foldl step s es)"
  by (induction es arbitrary: s) (auto intro: step_inv)

lemma foldl_prefix_inv: "inv s \<Longrightarrow> inv (foldl step s (take n es))"
  by (rule foldl_inv)

end

end
