(* ===== verification/LocalDates.thy ===== *)
theory LocalDates
  imports Prelude
begin

section \<open>Product dates\<close>

text \<open>
  A product date is a \<open>YYYY-MM-DD\<close> string, compared as text. The helpers of
  \<open>packages/contracts/src/dates.ts\<close>, \<open>packages/stock-data/src/dates.ts\<close> and
  \<open>packages/domain/src/stock-lists.ts\<close> parse it with \<open>new Date(`${value}T00:00:00.000Z`)\<close>,
  step it with the UTC setters and print it back with \<open>toISOString().slice(0, 10)\<close>.

  The UTC calendar of \<open>Date\<close> is modelled by year, month and day triples: \<open>parse_utc\<close> is the
  constructor (days up to 31 roll over into the next month, as the pinned Node engine does),
  \<open>shift_days\<close> is \<open>setUTCDate\<close>, \<open>iso_prefix\<close> is \<open>toISOString().slice(0, 10)\<close> with its
  six-digit signed years outside 0..9999. Instants outside the ECMAScript time range are not
  modelled.
\<close>

subsection \<open>The proleptic Gregorian calendar\<close>

type_synonym civil = "int \<times> int \<times> int"

definition leap_year :: "int \<Rightarrow> bool" where
  "leap_year y \<longleftrightarrow> y mod 4 = 0 \<and> (y mod 100 \<noteq> 0 \<or> y mod 400 = 0)"

definition days_in_month :: "int \<Rightarrow> int \<Rightarrow> int" where
  "days_in_month y m =
     (if m = 2 then if leap_year y then 29 else 28
      else if m = 4 \<or> m = 6 \<or> m = 9 \<or> m = 11 then 30 else 31)"

lemma days_in_month_bounds: "28 \<le> days_in_month y m" "days_in_month y m \<le> 31"
  by (simp_all add: days_in_month_def)

fun valid_civil :: "civil \<Rightarrow> bool" where
  "valid_civil (y, m, d) \<longleftrightarrow> 1 \<le> m \<and> m \<le> 12 \<and> 1 \<le> d \<and> d \<le> days_in_month y m"

fun next_civil :: "civil \<Rightarrow> civil" where
  "next_civil (y, m, d) =
     (if d < days_in_month y m then (y, m, d + 1)
      else if m < 12 then (y, m + 1, 1) else (y + 1, 1, 1))"

fun prev_civil :: "civil \<Rightarrow> civil" where
  "prev_civil (y, m, d) =
     (if 1 < d then (y, m, d - 1)
      else if 1 < m then (y, m - 1, days_in_month y (m - 1)) else (y - 1, 12, 31))"

definition shift_days :: "int \<Rightarrow> civil \<Rightarrow> civil" where
  "shift_days n c = (if 0 \<le> n then (next_civil ^^ nat n) c else (prev_civil ^^ nat (- n)) c)"

fun civil_less :: "civil \<Rightarrow> civil \<Rightarrow> bool" where
  "civil_less (y, m, d) (y', m', d') \<longleftrightarrow>
     y < y' \<or> y = y' \<and> (m < m' \<or> m = m' \<and> d < d')"

lemma valid_next: "valid_civil c \<Longrightarrow> valid_civil (next_civil c)"
  by (cases c) (auto simp: days_in_month_def)

lemma valid_prev: "valid_civil c \<Longrightarrow> valid_civil (prev_civil c)"
  by (cases c) (auto simp: days_in_month_def)

lemma next_prev: "valid_civil c \<Longrightarrow> next_civil (prev_civil c) = c"
  by (cases c) (auto simp: days_in_month_def)

lemma prev_next: "valid_civil c \<Longrightarrow> prev_civil (next_civil c) = c"
  by (cases c) (auto simp: days_in_month_def)

lemma civil_less_next: "valid_civil c \<Longrightarrow> civil_less c (next_civil c)"
  by (cases c) auto

lemma civil_next_least:
  "valid_civil c \<Longrightarrow> valid_civil c' \<Longrightarrow> civil_less c c' \<longleftrightarrow> \<not> civil_less c' (next_civil c)"
proof -
  assume c: "valid_civil c" and c': "valid_civil c'"
  obtain y m d where [simp]: "c = (y, m, d)" by (cases c)
  obtain y' m' d' where [simp]: "c' = (y', m', d')" by (cases c')
  have b: "1 \<le> m" "m \<le> 12" "1 \<le> d" "d \<le> days_in_month y m" using c by simp_all
  have b': "1 \<le> m'" "m' \<le> 12" "1 \<le> d'" "d' \<le> days_in_month y' m'" using c' by simp_all
  have eq: "y' = y \<Longrightarrow> m' = m \<Longrightarrow> d' \<le> days_in_month y m" using b' by simp
  show ?thesis
  proof (cases "d < days_in_month y m")
    case True
    then show ?thesis by auto
  next
    case False
    with b eq have last: "y' = y \<Longrightarrow> m' = m \<Longrightarrow> d' \<le> d" by simp
    show ?thesis
    proof (cases "m < 12")
      case True
      with False b b' last show ?thesis by auto
    next
      case m: False
      with False b b' last show ?thesis by auto
    qed
  qed
qed

lemma shift_days_0 [simp]: "shift_days 0 c = c"
  by (simp add: shift_days_def)

lemma shift_days_1 [simp]: "shift_days 1 c = next_civil c"
  by (simp add: shift_days_def)

lemma shift_days_m1 [simp]: "shift_days (- 1) c = prev_civil c"
  by (simp add: shift_days_def)

lemma valid_funpow:
  "valid_civil c \<Longrightarrow> valid_civil ((next_civil ^^ n) c)"
  "valid_civil c \<Longrightarrow> valid_civil ((prev_civil ^^ n) c)"
  by (induction n) (auto intro: valid_next valid_prev)

lemma valid_shift: "valid_civil c \<Longrightarrow> valid_civil (shift_days n c)"
  by (simp add: shift_days_def valid_funpow)

subsection \<open>Printing and parsing\<close>

definition digit :: "int \<Rightarrow> char" where
  "digit n = char_of (48 + nat n)"

definition pad2 :: "int \<Rightarrow> string" where
  "pad2 n = [digit (n div 10 mod 10), digit (n mod 10)]"

definition pad4 :: "int \<Rightarrow> string" where
  "pad4 n = pad2 (n div 100) @ pad2 n"

definition iso_year :: "int \<Rightarrow> string" where
  "iso_year y =
     (if 0 \<le> y \<and> y \<le> 9999 then pad4 y
      else (if 0 \<le> y then ''+'' else ''-'') @ pad2 (\<bar>y\<bar> div 10000) @ pad4 \<bar>y\<bar>)"

text \<open>\<open>date.toISOString().slice(0, 10)\<close>.\<close>

fun iso_prefix :: "civil \<Rightarrow> local_date" where
  "iso_prefix (y, m, d) = take 10 (iso_year y @ ''-'' @ pad2 m @ ''-'' @ pad2 d @ ''T00:00:00.000Z'')"

definition is_digit :: "char \<Rightarrow> bool" where
  "is_digit c \<longleftrightarrow> CHR ''0'' \<le> c \<and> c \<le> CHR ''9''"

definition digit_value :: "char \<Rightarrow> int" where
  "digit_value c = int (of_char c) - 48"

fun number_of :: "string \<Rightarrow> int" where
  "number_of [] = 0"
| "number_of (c # cs) = digit_value c * 10 ^ length cs + number_of cs"

text \<open>The test \<open>/^\d{4}-\d{2}-\d{2}$/\<close>.\<close>

fun local_date_pattern :: "string \<Rightarrow> bool" where
  "local_date_pattern [a, b, c, d, e, f, g, h, i, j] \<longleftrightarrow>
     is_digit a \<and> is_digit b \<and> is_digit c \<and> is_digit d \<and> e = CHR ''-'' \<and>
     is_digit f \<and> is_digit g \<and> h = CHR ''-'' \<and> is_digit i \<and> is_digit j"
| "local_date_pattern _ \<longleftrightarrow> False"

text \<open>\<open>new Date(`${value}T00:00:00.000Z`)\<close>, \<open>None\<close> for an invalid date.\<close>

fun parse_utc :: "string \<Rightarrow> civil option" where
  "parse_utc s =
     (if \<not> local_date_pattern s then None
      else let y = number_of (take 4 s); m = number_of (take 2 (drop 5 s));
               d = number_of (drop 8 s)
           in if m < 1 \<or> 12 < m \<or> d < 1 \<or> 31 < d then None
              else if d \<le> days_in_month y m then Some (y, m, d)
              else Some (y, m + 1, d - days_in_month y m))"

definition isLocalDate :: "string \<Rightarrow> bool" where
  "isLocalDate value \<longleftrightarrow>
     (if \<not> local_date_pattern value then False
      else case parse_utc value of None \<Rightarrow> False | Some date \<Rightarrow> iso_prefix date = value)"

subsection \<open>The printed form orders and identifies calendar days\<close>

fun date_civil :: "civil \<Rightarrow> bool" where
  "date_civil (y, m, d) \<longleftrightarrow> valid_civil (y, m, d) \<and> 0 \<le> y \<and> y \<le> 9999"

lemma of_char_digit: "0 \<le> n \<Longrightarrow> n < 10 \<Longrightarrow> of_char (digit n) = 48 + nat n"
  by (simp add: digit_def)

lemma digit_less [simp]:
  "0 \<le> n \<Longrightarrow> n < 10 \<Longrightarrow> 0 \<le> k \<Longrightarrow> k < 10 \<Longrightarrow> digit n < digit k \<longleftrightarrow> n < k"
  by (auto simp: less_char_def of_char_digit)

lemma digit_eq [simp]:
  "0 \<le> n \<Longrightarrow> n < 10 \<Longrightarrow> 0 \<le> k \<Longrightarrow> k < 10 \<Longrightarrow> digit n = digit k \<longleftrightarrow> n = k"
  by (metis digit_less less_irrefl linorder_neqE)

lemma digit_value_digit [simp]: "0 \<le> n \<Longrightarrow> n < 10 \<Longrightarrow> digit_value (digit n) = n"
  by (simp add: digit_value_def of_char_digit)

lemma is_digit_digit [simp]: "0 \<le> n \<Longrightarrow> n < 10 \<Longrightarrow> is_digit (digit n)"
  by (simp add: is_digit_def less_eq_char_def of_char_digit)

lemma digit_value_bounds: "is_digit c \<Longrightarrow> 0 \<le> digit_value c" "is_digit c \<Longrightarrow> digit_value c \<le> 9"
  by (simp_all add: is_digit_def digit_value_def less_eq_char_def)

lemma length_pad [simp]: "length (pad2 n) = 2" "length (pad4 n) = 4"
  by (simp_all add: pad2_def pad4_def)

lemma list_less_append:
  "length xs = length ys \<Longrightarrow>
     xs @ us < ys @ vs \<longleftrightarrow> xs < ys \<or> xs = ys \<and> us < (vs :: 'a::linorder list)"
  by (induction xs ys rule: list_induct2) auto

lemma number_of_append:
  "number_of (xs @ ys) = number_of xs * 10 ^ length ys + number_of ys"
  by (induction xs) (auto simp: algebra_simps power_add)

lemma split_less:
  fixes n k b :: int
  assumes "0 < b"
  shows "n div b < k div b \<or> n div b = k div b \<and> n mod b < k mod b \<longleftrightarrow> n < k"
proof -
  have n: "n = b * (n div b) + n mod b" and k: "k = b * (k div b) + k mod b" by simp_all
  have m: "0 \<le> n mod b" "n mod b < b" "0 \<le> k mod b" "k mod b < b" using assms by simp_all
  show ?thesis
  proof (cases "n div b = k div b")
    case True
    then have "n < k \<longleftrightarrow> n mod b < k mod b" using n k by (metis add_less_cancel_left)
    with True show ?thesis by simp
  next
    case False
    have "n div b < k div b \<longleftrightarrow> n < k"
      using False assms zdiv_mono1 [of n k b] zdiv_mono1 [of k n b] by linarith
    with False show ?thesis by simp
  qed
qed

lemma pad2_small: "0 \<le> n \<Longrightarrow> n < 100 \<Longrightarrow> pad2 n = [digit (n div 10), digit (n mod 10)]"
  by (simp add: pad2_def)

lemma pad2_less [simp]:
  "0 \<le> n \<Longrightarrow> n < 100 \<Longrightarrow> 0 \<le> k \<Longrightarrow> k < 100 \<Longrightarrow> pad2 n < pad2 k \<longleftrightarrow> n < k"
  using split_less [of 10 n k] by (auto simp: pad2_small)

lemma number_of_pad2 [simp]: "0 \<le> n \<Longrightarrow> n < 100 \<Longrightarrow> number_of (pad2 n) = n"
  by (simp add: pad2_small)

lemma pad2_mod: "pad2 n = pad2 (n mod 100)"
proof -
  have "n mod (10 * 10) = 10 * (n div 10 mod 10) + n mod 10"
    by (rule zmod_zmult2_eq) simp
  then have "n mod 100 = 10 * (n div 10 mod 10) + n mod 10" by simp
  then show ?thesis by (simp add: pad2_def)
qed

lemma pad4_small: "pad4 n = pad2 (n div 100) @ pad2 (n mod 100)"
  using pad2_mod [of n] by (simp add: pad4_def)

lemma number_of_pad4 [simp]: "0 \<le> n \<Longrightarrow> n < 10000 \<Longrightarrow> number_of (pad4 n) = n"
  by (simp add: pad4_small number_of_append)

lemma pad2_eq [simp]:
  "0 \<le> n \<Longrightarrow> n < 100 \<Longrightarrow> 0 \<le> k \<Longrightarrow> k < 100 \<Longrightarrow> pad2 n = pad2 k \<longleftrightarrow> n = k"
  by (metis number_of_pad2)

lemma pad4_eq [simp]:
  "0 \<le> n \<Longrightarrow> n < 10000 \<Longrightarrow> 0 \<le> k \<Longrightarrow> k < 10000 \<Longrightarrow> pad4 n = pad4 k \<longleftrightarrow> n = k"
  by (metis number_of_pad4)

lemma pad4_less [simp]:
  "0 \<le> n \<Longrightarrow> n < 10000 \<Longrightarrow> 0 \<le> k \<Longrightarrow> k < 10000 \<Longrightarrow> pad4 n < pad4 k \<longleftrightarrow> n < k"
  using split_less [of 100 n k] by (auto simp: pad4_small list_less_append)

lemma iso_prefix_date:
  "date_civil (y, m, d) \<Longrightarrow> iso_prefix (y, m, d) = pad4 y @ ''-'' @ pad2 m @ ''-'' @ pad2 d"
  by (simp add: iso_year_def)

lemma iso_prefix_less:
  assumes "date_civil c" "date_civil c'"
  shows "iso_prefix c < iso_prefix c' \<longleftrightarrow> civil_less c c'"
proof -
  obtain y m d y' m' d' where [simp]: "c = (y, m, d)" "c' = (y', m', d')"
    by (cases c; cases c') auto
  have b: "0 \<le> m" "m < 100" "0 \<le> d" "d < 100" "0 \<le> y" "y < 10000"
      "0 \<le> m'" "m' < 100" "0 \<le> d'" "d' < 100" "0 \<le> y'" "y' < 10000"
    using assms days_in_month_bounds [of y m] days_in_month_bounds [of y' m'] by auto
  show ?thesis
    using assms b unfolding \<open>c = _\<close> \<open>c' = _\<close>
    by (simp add: iso_prefix_date list_less_append del: iso_prefix.simps date_civil.simps)
qed

lemma iso_prefix_inj:
  "date_civil c \<Longrightarrow> date_civil c' \<Longrightarrow> iso_prefix c = iso_prefix c' \<Longrightarrow> c = c'"
  by (cases c; cases c') (metis civil_less.simps iso_prefix_less less_irrefl linorder_neqE)

lemma pattern_iso: "date_civil c \<Longrightarrow> local_date_pattern (iso_prefix c)"
  by (cases c) (auto simp: iso_prefix_date pad4_def pad2_def simp del: iso_prefix.simps)

lemma parse_iso [simp]:
  assumes "date_civil c"
  shows "parse_utc (iso_prefix c) = Some c"
proof -
  obtain y m d where c: "c = (y, m, d)" by (cases c)
  have b: "0 \<le> m" "m < 100" "0 \<le> d" "d < 100" "0 \<le> y" "y < 10000" "d \<le> 31"
    using assms c days_in_month_bounds [of y m] by auto
  have "take 4 (iso_prefix c) = pad4 y" "take 2 (drop 5 (iso_prefix c)) = pad2 m"
      "drop 8 (iso_prefix c) = pad2 d"
    using assms unfolding c by (simp_all add: iso_prefix_date pad4_def pad2_def
        del: iso_prefix.simps date_civil.simps)
  then show ?thesis
    using assms b pattern_iso [OF assms] unfolding c
    by (simp add: Let_def del: iso_prefix.simps local_date_pattern.simps)
qed

lemma isLocalDate_iso [simp]: "date_civil c \<Longrightarrow> isLocalDate (iso_prefix c)"
  using pattern_iso [of c] by (simp add: isLocalDate_def del: parse_utc.simps iso_prefix.simps)

lemma number_of_bounds:
  "list_all is_digit cs \<Longrightarrow> 0 \<le> number_of cs \<and> number_of cs < 10 ^ length cs"
proof (induction cs)
  case (Cons c cs)
  then have IH: "0 \<le> number_of cs" "number_of cs < 10 ^ length cs" by auto
  have "0 \<le> digit_value c" "digit_value c \<le> 9"
    using Cons.prems digit_value_bounds by auto
  then have d: "0 \<le> digit_value c * 10 ^ length cs"
      "digit_value c * 10 ^ length cs \<le> 9 * 10 ^ length cs"
    by (simp, intro mult_right_mono) simp_all
  have "digit_value c * 10 ^ length cs + number_of cs < 10 * 10 ^ length cs"
    using IH d(2) by linarith
  with IH(1) d(1) show ?case by simp
qed simp

lemma pattern_digits:
  assumes "local_date_pattern s"
  shows "list_all is_digit (take 4 s)" "length s = 10"
  using assms by (cases s rule: local_date_pattern.cases; simp)+

lemma parse_date_civil:
  assumes "parse_utc s = Some c"
  shows "date_civil c"
proof -
  have pat: "local_date_pattern s" using assms by (auto split: if_splits)
  have y: "0 \<le> number_of (take 4 s)" "number_of (take 4 s) \<le> 9999"
    using number_of_bounds [of "take 4 s"] pattern_digits [OF pat] by auto
  show ?thesis
    using assms y
    by (cases c) (auto simp: Let_def days_in_month_def split: if_splits)
qed

lemma isLocalDate_iff: "isLocalDate s \<longleftrightarrow> (\<exists>c. date_civil c \<and> s = iso_prefix c)"
proof
  assume "isLocalDate s"
  then obtain c where "parse_utc s = Some c" "iso_prefix c = s"
    by (auto simp: isLocalDate_def split: if_splits option.splits)
  then show "\<exists>c. date_civil c \<and> s = iso_prefix c"
    using parse_date_civil by blast
qed (auto simp del: iso_prefix.simps)

lemma isLocalDateE:
  assumes "isLocalDate s"
  obtains c where "date_civil c" "s = iso_prefix c"
  using assms isLocalDate_iff by blast

subsection \<open>Date arithmetic of the source\<close>

datatype date_error =
    InvalidLocalDate string  \<comment> \<open>\<open>throw new Error(`Invalid local date`)\<close>\<close>
  | InvalidTimeValue  \<comment> \<open>the \<open>RangeError\<close> of \<open>toISOString\<close> on an invalid \<open>Date\<close>\<close>

definition addDays :: "string \<Rightarrow> int \<Rightarrow> date_error + local_date" where
  "addDays value days =
     (if \<not> isLocalDate value then Inl (InvalidLocalDate value)
      else case parse_utc value of
          None \<Rightarrow> Inl InvalidTimeValue
        | Some date \<Rightarrow> Inr (iso_prefix (shift_days days date)))"

definition nextCalendarDay :: "local_date \<Rightarrow> date_error + local_date" where
  "nextCalendarDay value =
     (case parse_utc value of
        None \<Rightarrow> Inl InvalidTimeValue
      | Some date \<Rightarrow> Inr (iso_prefix (shift_days 1 date)))"

definition maxDate :: "local_date \<Rightarrow> local_date \<Rightarrow> local_date" where
  "maxDate left right = (if left > right then left else right)"

definition minDate :: "local_date \<Rightarrow> local_date \<Rightarrow> local_date" where
  "minDate left right = (if left < right then left else right)"

text \<open>\<open>Date.UTC\<close> reads the years 0..99 as 1900..1999.\<close>

definition date_utc_year :: "int \<Rightarrow> int" where
  "date_utc_year y = (if 0 \<le> y \<and> y \<le> 99 then 1900 + y else y)"

fun shift_years :: "int \<Rightarrow> civil \<Rightarrow> civil" where
  "shift_years n (y, m, d) = (y + n, m, min d (days_in_month (date_utc_year (y + n)) m))"

definition addYears :: "string \<Rightarrow> int \<Rightarrow> date_error + local_date" where
  "addYears value years =
     (if \<not> isLocalDate value then Inl (InvalidLocalDate value)
      else case parse_utc value of
          None \<Rightarrow> Inl InvalidTimeValue
        | Some date \<Rightarrow> Inr (iso_prefix (shift_years years date)))"

definition subtractYears :: "string \<Rightarrow> int \<Rightarrow> date_error + local_date" where
  "subtractYears value years =
     (if \<not> isLocalDate value then Inl (InvalidLocalDate value)
      else case parse_utc value of
          None \<Rightarrow> Inl InvalidTimeValue
        | Some date \<Rightarrow> Inr (iso_prefix (shift_years (- years) date)))"

fun shift_months :: "int \<Rightarrow> civil \<Rightarrow> civil" where
  "shift_months n (y, m, d) =
     (let y' = y + (m - 1 + n) div 12; m' = (m - 1 + n) mod 12 + 1
      in (y', m', min d (days_in_month (date_utc_year y') m')))"

definition subtractMonths :: "string \<Rightarrow> int \<Rightarrow> date_error + local_date" where
  "subtractMonths value months =
     (if \<not> isLocalDate value then Inl (InvalidLocalDate value)
      else case parse_utc value of
          None \<Rightarrow> Inl InvalidTimeValue
        | Some date \<Rightarrow> Inr (iso_prefix (shift_months (- months) date)))"

subsection \<open>Calendar neighbours and inverse shifts\<close>

lemma funpow_inverse:
  assumes "\<And>c. P c \<Longrightarrow> g (f c) = c" "\<And>c. P c \<Longrightarrow> P (f c)" "P c"
  shows "(g ^^ n) ((f ^^ n) c) = c"
proof (induction n)
  case (Suc n)
  have "P ((f ^^ n) c)" using assms(2,3) by (induction n) auto
  then have "g (f ((f ^^ n) c)) = (f ^^ n) c" by (rule assms(1))
  then show ?case using Suc by (simp add: funpow_swap1)
qed simp

lemma shift_days_inverse:
  assumes "valid_civil c"
  shows "shift_days (- n) (shift_days n c) = c"
proof -
  have "(prev_civil ^^ k) ((next_civil ^^ k) c) = c" "(next_civil ^^ k) ((prev_civil ^^ k) c) = c" for k
    using funpow_inverse [of valid_civil prev_civil next_civil c k]
      funpow_inverse [of valid_civil next_civil prev_civil c k]
      prev_next next_prev valid_next valid_prev assms by blast+
  then show ?thesis by (auto simp: shift_days_def)
qed

lemma addDays_iso [simp]:
  "date_civil c \<Longrightarrow> addDays (iso_prefix c) n = Inr (iso_prefix (shift_days n c))"
  by (simp add: addDays_def del: iso_prefix.simps parse_utc.simps)

lemma nextCalendarDay_iso [simp]:
  "date_civil c \<Longrightarrow> nextCalendarDay (iso_prefix c) = Inr (iso_prefix (next_civil c))"
  by (simp add: nextCalendarDay_def del: iso_prefix.simps parse_utc.simps next_civil.simps)

lemma nextCalendarDay_addDays: "isLocalDate a \<Longrightarrow> nextCalendarDay a = addDays a 1"
  by (auto elim!: isLocalDateE simp del: iso_prefix.simps next_civil.simps)

lemma date_valid_civil: "date_civil c \<Longrightarrow> valid_civil c"
  by (cases c) simp

lemma last_date: "iso_prefix (9999, 12, 31) = ''9999-12-31''"
  by code_simp

lemma next_date_civil:
  assumes "date_civil c" "iso_prefix c \<noteq> ''9999-12-31''"
  shows "date_civil (next_civil c)"
proof -
  have "c \<noteq> (9999, 12, 31)" using assms(2) last_date by metis
  then show ?thesis
    using assms(1) valid_next [OF date_valid_civil [OF assms(1)]]
    by (cases c) (auto simp: days_in_month_def split: if_splits)
qed

lemma next_day_neighbour:
  assumes "isLocalDate a" "a \<noteq> ''9999-12-31''" "nextCalendarDay a = Inr b"
  shows "isLocalDate b" "a < b" "isLocalDate x \<Longrightarrow> a < x \<longleftrightarrow> b \<le> x"
proof -
  obtain c where c: "date_civil c" "a = iso_prefix c" using assms(1) by (rule isLocalDateE)
  have b: "b = iso_prefix (next_civil c)" using assms(3) c by (simp del: iso_prefix.simps next_civil.simps)
  have n: "date_civil (next_civil c)" using next_date_civil c assms(2) by blast
  show "isLocalDate b" using b n by (simp del: iso_prefix.simps next_civil.simps)
  show "a < b" using b c n by (simp add: iso_prefix_less civil_less_next date_valid_civil
      del: iso_prefix.simps next_civil.simps)
  assume "isLocalDate x"
  then obtain e where e: "date_civil e" "x = iso_prefix e" by (rule isLocalDateE)
  have "a < x \<longleftrightarrow> civil_less c e" using c e by (simp add: iso_prefix_less del: iso_prefix.simps)
  also have "\<dots> \<longleftrightarrow> \<not> civil_less e (next_civil c)"
    using civil_next_least date_valid_civil c(1) e(1) by blast
  also have "\<dots> \<longleftrightarrow> \<not> x < b"
    using b e n by (simp add: iso_prefix_less del: iso_prefix.simps next_civil.simps)
  finally show "a < x \<longleftrightarrow> b \<le> x" by auto
qed

lemma nextCalendarDay_valid:
  assumes "isLocalDate a"
  obtains b where "nextCalendarDay a = Inr b"
  using assms by (auto elim!: isLocalDateE simp del: iso_prefix.simps next_civil.simps)

lemma addDays_valid:
  assumes "isLocalDate a"
  obtains b where "addDays a n = Inr b"
  using assms by (auto elim!: isLocalDateE simp del: iso_prefix.simps)

lemma iso_prefix_in_range:
  assumes "valid_civil c" "isLocalDate (iso_prefix c)"
  shows "date_civil c"
proof (rule ccontr)
  assume out: "\<not> date_civil c"
  obtain y m d where c: "c = (y, m, d)" by (cases c)
  have "local_date_pattern (iso_prefix c)"
    using assms(2) unfolding isLocalDate_def by (meson)
  then have "is_digit (hd (iso_prefix c))"
    by (cases "iso_prefix c" rule: local_date_pattern.cases) simp_all
  moreover have "hd (iso_prefix c) = CHR ''+'' \<or> hd (iso_prefix c) = CHR ''-''"
    using out assms(1) c by (auto simp: iso_year_def)
  ultimately show False by (auto simp: is_digit_def less_eq_char_def)
qed

lemma addDays_back:
  assumes "addDays a n = Inr b" "isLocalDate b"
  shows "addDays b (- n) = Inr a"
proof -
  have "isLocalDate a" using assms(1) by (auto simp: addDays_def split: if_splits)
  then obtain c where c: "date_civil c" "a = iso_prefix c" by (rule isLocalDateE)
  have v: "valid_civil c" using c date_valid_civil by blast
  have b: "b = iso_prefix (shift_days n c)" using assms(1) c by (simp del: iso_prefix.simps)
  then have "date_civil (shift_days n c)"
    using iso_prefix_in_range valid_shift [OF v] assms(2) by blast
  then show ?thesis using b c shift_days_inverse [OF v] by (simp del: iso_prefix.simps)
qed

text \<open>The day after, for statements about neighbouring days.\<close>

definition day_after :: "local_date \<Rightarrow> local_date" where
  "day_after a = (case nextCalendarDay a of Inr b \<Rightarrow> b | Inl _ \<Rightarrow> a)"

lemma day_after_neighbour:
  assumes "isLocalDate a" "a \<noteq> ''9999-12-31''"
  shows "isLocalDate (day_after a)" "a < day_after a"
    "isLocalDate x \<Longrightarrow> a < x \<longleftrightarrow> day_after a \<le> x"
proof -
  obtain b where b: "nextCalendarDay a = Inr b" using assms(1) by (rule nextCalendarDay_valid)
  note n = next_day_neighbour [OF assms b]
  have d: "day_after a = b" using b by (simp add: day_after_def)
  show "isLocalDate (day_after a)" "a < day_after a" using n d by simp_all
  show "isLocalDate x \<Longrightarrow> a < x \<longleftrightarrow> day_after a \<le> x" using n(3) d by simp
qed

lemma nextCalendarDay_day_after: "isLocalDate a \<Longrightarrow> nextCalendarDay a = Inr (day_after a)"
  by (auto simp: day_after_def elim!: nextCalendarDay_valid)

lemma addDays_1_day_after: "isLocalDate a \<Longrightarrow> addDays a 1 = Inr (day_after a)"
  using nextCalendarDay_addDays nextCalendarDay_day_after by metis

subsection \<open>Whole years of a backtest period\<close>

text \<open>
  \<open>backtestPeriodYears\<close>: the two counting loops of the source. \<open>period_up\<close> stops only because
  dates order as text, so it is a partial function and its termination is a theorem.
\<close>

fun period_down :: "string \<Rightarrow> string \<Rightarrow> nat \<Rightarrow> date_error + nat" where
  "period_down startDate endDate 0 = Inr 0"
| "period_down startDate endDate (Suc k) =
     (case addYears startDate (int k) of
        Inl err \<Rightarrow> Inl err
      | Inr a \<Rightarrow> if endDate \<le> a then period_down startDate endDate k else Inr (Suc k))"

partial_function (option) period_up :: "string \<Rightarrow> string \<Rightarrow> nat \<Rightarrow> (date_error + nat) option" where
  "period_up startDate endDate years =
     (case addYears startDate (int years) of
        Inl err \<Rightarrow> Some (Inl err)
      | Inr a \<Rightarrow> if endDate > a then period_up startDate endDate (Suc years) else Some (Inr years))"

definition backtestPeriodYears :: "string \<Rightarrow> string \<Rightarrow> (date_error + nat) option" where
  "backtestPeriodYears startDate endDate =
     (case period_down startDate endDate
             (nat (max 0 (number_of (take 4 endDate) - number_of (take 4 startDate)))) of
        Inl err \<Rightarrow> Some (Inl err)
      | Inr years \<Rightarrow> period_up startDate endDate years)"

lemma date_utc_month: "days_in_month (date_utc_year y) m \<le> days_in_month y m"
proof -
  have "leap_year (date_utc_year y) \<Longrightarrow> leap_year y"
  proof (cases "0 \<le> y \<and> y \<le> 99")
    case True
    assume leap: "leap_year (date_utc_year y)"
    have four: "(1900 + y) mod 4 = y mod 4" using mod_add_left_eq [of 1900 4 y] by simp
    have "y \<noteq> 0" using leap by (auto simp: leap_year_def date_utc_year_def)
    then have "y mod 100 \<noteq> 0" using True by simp
    with leap four True show ?thesis by (simp add: leap_year_def date_utc_year_def)
  qed (auto simp: date_utc_year_def)
  then show ?thesis by (auto simp: days_in_month_def)
qed

lemma date_civil_shift_years:
  assumes "date_civil (y, m, d)" "0 \<le> y + n" "y + n \<le> 9999"
  shows "date_civil (shift_years n (y, m, d))"
proof -
  have "1 \<le> days_in_month (date_utc_year (y + n)) m"
    using days_in_month_bounds [of "date_utc_year (y + n)" m] by simp
  then show ?thesis using assms date_utc_month [of "y + n" m] by (auto simp: min_def)
qed

lemma addYears_iso:
  "date_civil c \<Longrightarrow> addYears (iso_prefix c) n = Inr (iso_prefix (shift_years n c))"
  by (simp add: addYears_def del: iso_prefix.simps parse_utc.simps shift_years.simps)

lemma number_of_year:
  assumes "date_civil (y, m, d)"
  shows "number_of (take 4 (iso_prefix (y, m, d))) = y"
  using assms unfolding iso_prefix_date [OF assms] by simp

lemma period_down_result:
  assumes A: "\<And>n. n < N \<Longrightarrow> addYears s (int n) = Inr (A n)"
  shows "\<exists>k \<le> N. period_down s e N = Inr k \<and> (0 < k \<longrightarrow> A (k - 1) < e)"
  using A
proof (induction N)
  case (Suc N)
  have "addYears s (int N) = Inr (A N)" using Suc.prems by simp
  moreover obtain k where "k \<le> N" "period_down s e N = Inr k" "0 < k \<longrightarrow> A (k - 1) < e"
    using Suc by auto
  ultimately show ?case by (cases "e \<le> A N") (auto intro: exI [of _ k])
qed simp

lemma period_up_result:
  assumes "\<And>n. n \<le> N \<Longrightarrow> addYears s (int n) = Inr (A n)" "e \<le> A N" "k \<le> N"
    "0 < k \<longrightarrow> A (k - 1) < e"
  shows "\<exists>n \<le> N. period_up s e k = Some (Inr n) \<and> e \<le> A n \<and> (0 < n \<longrightarrow> A (n - 1) < e)"
  using assms(3,4)
proof (induction "N - k" arbitrary: k)
  case 0
  then have "k = N" by simp
  then show ?case using assms(1) [of k] assms(2) 0 by (subst period_up.simps) auto
next
  case (Suc j)
  show ?case
  proof (cases "e \<le> A k")
    case True
    then show ?thesis using assms(1) [of k] Suc.prems by (subst period_up.simps) auto
  next
    case False
    then have "period_up s e k = period_up s e (Suc k)"
      using assms(1) [of k] Suc.prems by (subst period_up.simps) auto
    moreover have "j = N - Suc k" "Suc k \<le> N" using Suc.hyps by simp_all
    ultimately show ?thesis using Suc.hyps(1) [of "Suc k"] False by auto
  qed
qed

lemma backtestPeriodYears_aux:
  assumes s: "date_civil s" and e: "date_civil e" "fst e < 9999"
  shows "\<exists>n. backtestPeriodYears (iso_prefix s) (iso_prefix e) = Some (Inr n) \<and>
     iso_prefix e \<le> iso_prefix (shift_years (int n) s) \<and>
     (0 < n \<longrightarrow> iso_prefix (shift_years (int (n - 1)) s) < iso_prefix e)"
proof -
  obtain y m d y' m' d' where sp: "s = (y, m, d)" and ep: "e = (y', m', d')"
    by (cases s; cases e)
  define N where "N = nat (max 0 (y' - y))"
  define A where "A = (\<lambda>n::nat. iso_prefix (shift_years (int n) s))"
  have addY: "addYears (iso_prefix s) (int n) = Inr (A n)" for n
    using addYears_iso [OF s] by (simp add: A_def del: iso_prefix.simps)
  define M where "M = (if y' < y then 0 else Suc N)"
  have last: "iso_prefix e \<le> A M"
  proof (cases "y' < y")
    case True
    have "civil_less e (shift_years 0 s)" "date_civil (shift_years 0 s)"
      using True date_civil_shift_years [of y m d 0] s unfolding sp ep by simp_all
    then show ?thesis
      using True iso_prefix_less [OF e(1)] unfolding A_def M_def by (simp add: less_imp_le)
  next
    case False
    then have M: "int M = y' - y + 1" by (simp add: M_def N_def)
    have "civil_less e (shift_years (int M) s)" "date_civil (shift_years (int M) s)"
      using False date_civil_shift_years [of y m d "int M"] s e unfolding sp ep M by simp_all
    then show ?thesis
      using iso_prefix_less [OF e(1)] unfolding A_def by (simp add: less_imp_le)
  qed
  have init: "nat (max 0 (number_of (take 4 (iso_prefix e)) - number_of (take 4 (iso_prefix s)))) = N"
    using s e unfolding sp ep N_def by (simp only: number_of_year)
  obtain k where k: "k \<le> N" "period_down (iso_prefix s) (iso_prefix e) N = Inr k"
      "0 < k \<longrightarrow> A (k - 1) < iso_prefix e"
    using period_down_result [of N "iso_prefix s" A "iso_prefix e"] addY by blast
  have "k \<le> M" using k(1) by (auto simp: M_def N_def max_def split: if_splits)
  then obtain n where "period_up (iso_prefix s) (iso_prefix e) k = Some (Inr n)"
      "iso_prefix e \<le> A n" "0 < n \<longrightarrow> A (n - 1) < iso_prefix e"
    using period_up_result [of M "iso_prefix s" A "iso_prefix e" k] addY last k by blast
  then show ?thesis
    unfolding backtestPeriodYears_def init k(2) A_def by (simp del: iso_prefix.simps)
qed



end
