(* ===== verification/BuyWindows.thy ===== *)
theory BuyWindows
  imports LocalDates
begin

section \<open>Buy windows of a stock list member\<close>

text \<open>
  \<open>packages/domain/src/stock-lists.ts\<close>: the buy-window configuration of a list member, its
  validation and normalization, and the two eligibility readings, \<open>isBuyWindowEligible\<close> for a
  backtest BUY and \<open>isOngoingListMember\<close> for a Monitor. A thrown \<open>BuyWindowValidationError\<close> or
  \<open>RangeError\<close> is the left side of a sum.
\<close>

subsection \<open>Data\<close>

datatype buy_window_mode = FULL | CUSTOM

record buy_window_range =
  range_start :: local_date
  range_end :: "local_date option"

record buy_window_configuration =
  window_mode :: buy_window_mode
  window_ranges :: "buy_window_range list"

datatype buy_window_error =
    InvalidRangeStart
  | InvalidRangeEnd
  | RangeEndsBeforeStart
  | FullWithRanges
  | CustomWithoutRanges
  | WindowDateError date_error

subsection \<open>Validation and normalization\<close>

definition assertValidRange :: "buy_window_range \<Rightarrow> buy_window_error option" where
  "assertValidRange rng =
     (if \<not> isLocalDate (range_start rng) then Some InvalidRangeStart
      else case range_end rng of
          None \<Rightarrow> None
        | Some endDate \<Rightarrow>
            if \<not> isLocalDate endDate then Some InvalidRangeEnd
            else if range_start rng > endDate then Some RangeEndsBeforeStart
            else None)"

fun assertValidRanges :: "buy_window_range list \<Rightarrow> buy_window_error option" where
  "assertValidRanges [] = None"
| "assertValidRanges (rng # ranges) =
     (case assertValidRange rng of
        Some err \<Rightarrow> Some err
      | None \<Rightarrow> assertValidRanges ranges)"

text \<open>Earlier start first; for one start the open-ended range first, then the later end.\<close>

definition compareRanges :: "buy_window_range \<Rightarrow> buy_window_range \<Rightarrow> int" where
  "compareRanges left right =
     (if range_start left \<noteq> range_start right
      then (if range_start left < range_start right then - 1 else 1)
      else case (range_end left, range_end right) of
          (None, None) \<Rightarrow> 0
        | (None, Some _) \<Rightarrow> - 1
        | (Some _, None) \<Rightarrow> 1
        | (Some l, Some r) \<Rightarrow> if l > r then - 1 else if l < r then 1 else 0)"

text \<open>
  The merging loop. The list built so far is kept newest first, so \<open>merged[merged.length - 1]\<close>
  is its head.
\<close>

fun mergeRanges ::
    "buy_window_range list \<Rightarrow> buy_window_range list \<Rightarrow> buy_window_error + buy_window_range list" where
  "mergeRanges merged [] = Inr (rev merged)"
| "mergeRanges [] (rng # rest) = mergeRanges [rng] rest"
| "mergeRanges (previous # older) (rng # rest) =
     (case range_end previous of
        None \<Rightarrow> mergeRanges (previous # older) rest
      | Some previousEnd \<Rightarrow>
          (case nextCalendarDay previousEnd of
             Inl err \<Rightarrow> Inl (WindowDateError err)
           | Inr nextDay \<Rightarrow>
               if range_start rng \<le> nextDay
               then (if (case range_end rng of None \<Rightarrow> True | Some e \<Rightarrow> e > previousEnd)
                     then mergeRanges (previous\<lparr>range_end := range_end rng\<rparr> # older) rest
                     else mergeRanges (previous # older) rest)
               else mergeRanges (rng # previous # older) rest))"

definition normalizeBuyWindowRanges ::
    "buy_window_range list \<Rightarrow> buy_window_error + buy_window_range list" where
  "normalizeBuyWindowRanges ranges =
     (case assertValidRanges ranges of
        Some err \<Rightarrow> Inl err
      | None \<Rightarrow> mergeRanges [] (js_sort compareRanges ranges))"

definition normalizeBuyWindowConfiguration ::
    "buy_window_configuration \<Rightarrow> buy_window_error + buy_window_configuration" where
  "normalizeBuyWindowConfiguration configuration =
     (case window_mode configuration of
        FULL \<Rightarrow>
          if window_ranges configuration \<noteq> [] then Inl FullWithRanges
          else Inr \<lparr>window_mode = FULL, window_ranges = []\<rparr>
      | CUSTOM \<Rightarrow>
          (case normalizeBuyWindowRanges (window_ranges configuration) of
             Inl err \<Rightarrow> Inl err
           | Inr ranges \<Rightarrow>
               if ranges = [] then Inl CustomWithoutRanges
               else Inr \<lparr>window_mode = CUSTOM, window_ranges = ranges\<rparr>))"

subsection \<open>Eligibility\<close>

text \<open>
  The start of the ongoing membership: \<open>Some None\<close> is the source's \<open>null\<close> (a FULL member),
  \<open>None\<close> its \<open>undefined\<close> (no open-ended range).
\<close>

fun latestOpenStart :: "local_date option \<Rightarrow> buy_window_range list \<Rightarrow> local_date option" where
  "latestOpenStart start [] = start"
| "latestOpenStart start (rng # ranges) =
     latestOpenStart
       (if range_end rng = None \<and> (case start of None \<Rightarrow> True | Some s \<Rightarrow> range_start rng > s)
        then Some (range_start rng) else start) ranges"

definition ongoingMembershipStart :: "buy_window_configuration \<Rightarrow> local_date option option" where
  "ongoingMembershipStart configuration =
     (if window_mode configuration = FULL then Some None
      else map_option Some (latestOpenStart None (window_ranges configuration)))"

definition isOngoingListMember :: "buy_window_configuration \<Rightarrow> local_date \<Rightarrow> bool" where
  "isOngoingListMember configuration date =
     (case ongoingMembershipStart configuration of
        None \<Rightarrow> False
      | Some None \<Rightarrow> True
      | Some (Some start) \<Rightarrow> start \<le> date)"

definition rangeAdmits :: "local_date \<Rightarrow> buy_window_range \<Rightarrow> bool" where
  "rangeAdmits date rng \<longleftrightarrow>
     range_start rng \<le> date \<and>
     (case range_end rng of None \<Rightarrow> True | Some endDate \<Rightarrow> date \<le> endDate)"

definition isBuyWindowEligible :: "buy_window_configuration \<Rightarrow> local_date \<Rightarrow> bool" where
  "isBuyWindowEligible configuration date =
     (if window_mode configuration = FULL then True
      else list_ex (rangeAdmits date) (window_ranges configuration))"

subsection \<open>Properties of the normal form\<close>

definition valid_range :: "buy_window_range \<Rightarrow> bool" where
  "valid_range r \<longleftrightarrow> assertValidRange r = None"

definition covers :: "buy_window_range list \<Rightarrow> local_date \<Rightarrow> bool" where
  "covers rs date \<longleftrightarrow> (\<exists>r \<in> set rs. rangeAdmits date r)"

text \<open>One range ends at least one full day before the other starts.\<close>

definition ends_before :: "buy_window_range \<Rightarrow> buy_window_range \<Rightarrow> bool" where
  "ends_before p q \<longleftrightarrow>
     (case range_end p of None \<Rightarrow> False | Some e \<Rightarrow> day_after e < range_start q)"

text \<open>The last product date has no successor in date order, so a bounded end must precede it.\<close>

definition bounded_end :: "buy_window_range \<Rightarrow> bool" where
  "bounded_end r \<longleftrightarrow> range_end r \<noteq> Some ''9999-12-31''"

abbreviation separated :: "buy_window_range list \<Rightarrow> bool" where
  "separated rs \<equiv> sorted_wrt ends_before rs"

lemma ends_before_end_update [simp]: "ends_before q (p\<lparr>range_end := v\<rparr>) = ends_before q p"
  by (simp add: ends_before_def split: option.split)

lemma bounded_end_update [simp]: "bounded_end (p\<lparr>range_end := range_end r\<rparr>) = bounded_end r"
  by (simp add: bounded_end_def)

lemma assertValidRanges_iff: "assertValidRanges rs = None \<longleftrightarrow> list_all valid_range rs"
  by (induction rs) (auto simp: valid_range_def split: option.splits)

lemma valid_rangeD:
  assumes "valid_range r"
  shows "isLocalDate (range_start r)"
    "range_end r = Some e \<Longrightarrow> isLocalDate e" "range_end r = Some e \<Longrightarrow> range_start r \<le> e"
  using assms by (auto simp: valid_range_def assertValidRange_def not_less
      split: if_splits option.splits)

lemma covers_simps [simp]:
  "covers [] date = False"
  "covers (r # rs) date \<longleftrightarrow> rangeAdmits date r \<or> covers rs date"
  by (auto simp: covers_def)

lemma covers_set: "set rs = set rs' \<Longrightarrow> covers rs = covers rs'"
  by (auto simp: covers_def)

lemma covers_rev [simp]: "covers (rev rs) = covers rs"
  by (rule covers_set) simp

lemma isBuyWindowEligible_custom:
  "window_mode c = CUSTOM \<Longrightarrow> isBuyWindowEligible c date = covers (window_ranges c) date"
  by (simp add: isBuyWindowEligible_def covers_def list_ex_iff)

interpretation range_order: comparator compareRanges "\<lambda>x y. True"
proof
  show "compareRanges x y \<le> 0 \<or> compareRanges y x \<le> 0" for x y
    by (auto simp: compareRanges_def split: option.splits)
  show "compareRanges x y \<le> 0 \<Longrightarrow> compareRanges y z \<le> 0 \<Longrightarrow> compareRanges x z \<le> 0" for x y z
    by (auto simp: compareRanges_def split: option.splits if_splits)
qed

lemma compareRanges_start: "compareRanges p q \<le> 0 \<Longrightarrow> range_start p \<le> range_start q"
  by (auto simp: compareRanges_def split: if_splits)

lemma sorted_starts:
  "sorted_wrt (\<lambda>p q. range_start p \<le> range_start q) (js_sort compareRanges rs)"
proof (rule sorted_wrt_mono_rel)
  show "sorted_wrt (\<lambda>p q. compareRanges p q \<le> 0) (js_sort compareRanges rs)"
    by (rule range_order.sorted_js_sort) (induction rs, auto)
qed (rule compareRanges_start)

lemma day_after_last: "day_after ''9999-12-31'' = ''+010000-01''"
  by code_simp

lemma date_above_plus: "isLocalDate x \<Longrightarrow> ''+010000-01'' < x"
proof -
  assume "isLocalDate x"
  then have "local_date_pattern x" by (simp add: isLocalDate_def split: if_splits)
  then show ?thesis
    by (cases x rule: local_date_pattern.cases)
      (auto simp: is_digit_def less_char_def less_eq_char_def)
qed

lemma adjacent_le:
  assumes "isLocalDate a" "isLocalDate s" "isLocalDate x" "s \<le> day_after a" "a < x"
  shows "s \<le> x"
proof (cases "a = ''9999-12-31''")
  case True
  then show ?thesis using date_above_plus [OF assms(2)] assms(4) by (simp add: day_after_last)
next
  case False
  then show ?thesis using day_after_neighbour(3) [OF assms(1) False assms(3)] assms(4,5) by auto
qed

lemma mergeRanges_covers:
  assumes "list_all valid_range merged" "list_all valid_range rest"
    "sorted_wrt (\<lambda>p q. range_start p \<le> range_start q) (take 1 merged @ rest)" "isLocalDate x"
  shows "\<exists>res. mergeRanges merged rest = Inr res \<and> list_all valid_range res \<and>
     (covers res x \<longleftrightarrow> covers merged x \<or> covers rest x)"
  using assms
proof (induction merged rest rule: mergeRanges.induct)
  case (3 p older r rest)
  have vp: "valid_range p" and vr: "valid_range r" and le: "range_start p \<le> range_start r"
    using "3.prems" by auto
  show ?case
  proof (cases "range_end p")
    case None
    have "rangeAdmits x r \<Longrightarrow> rangeAdmits x p" using None le by (auto simp: rangeAdmits_def)
    moreover have "\<exists>res. mergeRanges (p # older) rest = Inr res \<and> list_all valid_range res \<and>
        (covers res x \<longleftrightarrow> covers (p # older) x \<or> covers rest x)"
      using "3.prems" by (intro "3.IH"(1)) (auto simp: None)
    ultimately show ?thesis using None by auto
  next
    case (Some e)
    have e: "isLocalDate e" "range_start p \<le> e" using valid_rangeD [OF vp] Some by auto
    have nx: "nextCalendarDay e = Inr (day_after e)" by (rule nextCalendarDay_day_after [OF e(1)])
    show ?thesis
    proof (cases "range_start r \<le> day_after e")
      case joined: True
      show ?thesis
      proof (cases "case range_end r of None \<Rightarrow> True | Some e' \<Rightarrow> e' > e")
        case longer: True
        define p' where "p' = p\<lparr>range_end := range_end r\<rparr>"
        have vp': "valid_range p'"
          using vp vr longer e le
          by (auto simp: p'_def valid_range_def assertValidRange_def split: option.splits if_splits)
        have "rangeAdmits x p' \<longleftrightarrow> rangeAdmits x p \<or> rangeAdmits x r"
        proof -
          have above: "e < x \<Longrightarrow> range_start r \<le> x \<and> range_start p \<le> x"
            using adjacent_le [OF e(1) valid_rangeD(1) [OF vr] \<open>isLocalDate x\<close> joined] e(2) by simp
          show ?thesis
          proof (cases "e < x")
            case True
            then show ?thesis using longer above Some by (auto simp: p'_def rangeAdmits_def)
          next
            case False
            then show ?thesis
              using longer le Some by (auto simp: p'_def rangeAdmits_def not_less split: option.splits)
          qed
        qed
        moreover have "\<exists>res. mergeRanges (p' # older) rest = Inr res \<and> list_all valid_range res \<and>
            (covers res x \<longleftrightarrow> covers (p' # older) x \<or> covers rest x)"
          unfolding p'_def using "3.prems" vp' [unfolded p'_def]
          by (intro "3.IH"(2)) (auto simp: Some nx joined longer)
        moreover have "mergeRanges (p # older) (r # rest) = mergeRanges (p' # older) rest"
          using Some nx joined longer by (simp add: p'_def)
        ultimately show ?thesis by auto
      next
        case shorter: False
        have "rangeAdmits x r \<Longrightarrow> rangeAdmits x p"
          using shorter le Some by (auto simp: rangeAdmits_def split: option.splits)
        moreover have "\<exists>res. mergeRanges (p # older) rest = Inr res \<and> list_all valid_range res \<and>
            (covers res x \<longleftrightarrow> covers (p # older) x \<or> covers rest x)"
          using "3.prems" by (intro "3.IH"(3)) (auto simp: Some nx joined shorter)
        moreover have "mergeRanges (p # older) (r # rest) = mergeRanges (p # older) rest"
          using Some nx joined shorter by simp
        ultimately show ?thesis by auto
      qed
    next
      case apart: False
      have "\<exists>res. mergeRanges (r # p # older) rest = Inr res \<and> list_all valid_range res \<and>
          (covers res x \<longleftrightarrow> covers (r # p # older) x \<or> covers rest x)"
        using "3.prems" by (intro "3.IH"(4)) (auto simp: Some nx apart)
      then show ?thesis using Some nx apart by auto
    qed
  qed
qed (auto simp: list_all_rev)

lemma valid_range_sort [simp]:
  "list_all valid_range (js_sort compareRanges rs) \<longleftrightarrow> list_all valid_range rs"
  by (simp add: list_all_iff)

lemma normalize_covers:
  assumes "list_all valid_range ranges" "isLocalDate x"
  shows "\<exists>res. normalizeBuyWindowRanges ranges = Inr res \<and> list_all valid_range res \<and>
     (covers res x \<longleftrightarrow> covers ranges x)"
proof -
  have ok: "assertValidRanges ranges = None" using assms(1) by (simp only: assertValidRanges_iff)
  show ?thesis
    using mergeRanges_covers [of "[]" "js_sort compareRanges ranges" x] assms sorted_starts [of ranges]
      covers_set [of "js_sort compareRanges ranges" ranges]
    by (simp add: normalizeBuyWindowRanges_def ok)
qed

subsection \<open>The normal form is separated and canonical\<close>

lemma mergeRanges_separated:
  assumes "list_all valid_range merged" "list_all valid_range rest"
    "separated (rev merged)" "list_all bounded_end merged" "list_all bounded_end rest"
    "mergeRanges merged rest = Inr res"
  shows "separated res \<and> list_all bounded_end res"
  using assms
proof (induction merged rest rule: mergeRanges.induct)
  case (3 p older r rest)
  show ?case
  proof (cases "range_end p")
    case None
    then show ?thesis using 3 by simp
  next
    case (Some e)
    have vp: "valid_range p" using "3.prems" by simp
    have e: "isLocalDate e" "e \<noteq> ''9999-12-31''" "range_start p \<le> e"
      using valid_rangeD [OF vp] Some "3.prems" by (auto simp: bounded_end_def)
    have nx: "nextCalendarDay e = Inr (day_after e)" by (rule nextCalendarDay_day_after [OF e(1)])
    consider (longer) "range_start r \<le> day_after e" "case range_end r of None \<Rightarrow> True | Some e' \<Rightarrow> e' > e"
      | (shorter) "range_start r \<le> day_after e" "\<not> (case range_end r of None \<Rightarrow> True | Some e' \<Rightarrow> e' > e)"
      | (apart) "\<not> range_start r \<le> day_after e" by blast
    then show ?thesis
    proof cases
      case longer
      have "valid_range (p\<lparr>range_end := range_end r\<rparr>)"
        using vp "3.prems"(2) longer e
        by (auto simp: valid_range_def assertValidRange_def split: option.splits if_splits)
      then show ?thesis
        using "3.IH"(2) [OF Some nx longer] "3.prems" Some nx longer
        by (auto simp: sorted_wrt_append)
    next
      case shorter
      then show ?thesis using "3.IH"(3) [OF Some nx shorter] "3.prems" Some nx by simp
    next
      case apart
      have ends: "ends_before q r" if "q \<in> set older" for q
      proof -
        have "ends_before q p" using "3.prems"(3) that by (auto simp: sorted_wrt_append)
        then show ?thesis
          using e apart day_after_neighbour(2) [OF e(1,2)]
          by (auto simp: ends_before_def split: option.splits)
      qed
      have "ends_before p r" using apart Some by (simp add: ends_before_def)
      with ends show ?thesis
        using "3.IH"(4) [OF Some nx apart] "3.prems" Some nx apart by (simp add: sorted_wrt_append)
    qed
  qed
qed (auto simp: list_all_rev)

lemma normalize_separated:
  assumes "list_all valid_range ranges" "list_all bounded_end ranges"
    "normalizeBuyWindowRanges ranges = Inr res"
  shows "separated res" "list_all bounded_end res"
proof -
  have ok: "assertValidRanges ranges = None" using assms(1) by (simp only: assertValidRanges_iff)
  have "separated res \<and> list_all bounded_end res"
    using mergeRanges_separated [of "[]" "js_sort compareRanges ranges" res] assms
    by (simp add: normalizeBuyWindowRanges_def ok list_all_iff)
  then show "separated res" "list_all bounded_end res" by simp_all
qed

lemma separated_start_least:
  assumes "separated (r # rs)" "list_all valid_range (r # rs)" "list_all bounded_end (r # rs)"
    "covers (r # rs) x"
  shows "range_start r \<le> x"
proof (cases "rangeAdmits x r")
  case True
  then show ?thesis by (simp add: rangeAdmits_def)
next
  case False
  with assms(4) obtain q where q: "q \<in> set rs" "rangeAdmits x q" by (auto simp: covers_def)
  then obtain e where e: "range_end r = Some e" "day_after e < range_start q"
    using assms(1) by (auto simp: ends_before_def split: option.splits)
  have "range_start r \<le> e" "e < day_after e"
    using e valid_rangeD [of r] day_after_neighbour(2) [of e] assms(2,3) by (auto simp: bounded_end_def)
  with e q show ?thesis by (auto simp: rangeAdmits_def)
qed

lemma separated_gap:
  assumes "separated (r # rs)" "list_all valid_range (r # rs)" "list_all bounded_end (r # rs)"
    "range_end r = Some e"
  shows "isLocalDate (day_after e)" "\<not> covers (r # rs) (day_after e)"
    "rangeAdmits x r \<Longrightarrow> \<not> covers rs x"
proof -
  have e: "isLocalDate e" "e \<noteq> ''9999-12-31''"
    using valid_rangeD [of r] assms(2-4) by (auto simp: bounded_end_def)
  note n = day_after_neighbour [OF e]
  show "isLocalDate (day_after e)" by (rule n(1))
  have after: "day_after e < range_start q" if "q \<in> set rs" for q
    using assms(1,4) that by (auto simp: ends_before_def)
  show "\<not> covers (r # rs) (day_after e)"
    using after n(2) assms(4) by (auto simp: covers_def rangeAdmits_def not_le)
  show "rangeAdmits x r \<Longrightarrow> \<not> covers rs x"
    using after n(2) assms(4) by (force simp: covers_def rangeAdmits_def)
qed

lemma separated_canonical:
  assumes "separated rs" "list_all valid_range rs" "list_all bounded_end rs"
    "separated rs'" "list_all valid_range rs'" "list_all bounded_end rs'"
    "\<And>x. isLocalDate x \<Longrightarrow> covers rs x = covers rs' x"
  shows "rs = rs'"
  using assms
proof (induction rs arbitrary: rs')
  case Nil
  show ?case
  proof (cases rs')
    case (Cons q qs)
    have q: "valid_range q" using Nil.prems(5) Cons by simp
    have "rangeAdmits (range_start q) q"
      using valid_rangeD(3) [OF q] by (auto simp: rangeAdmits_def split: option.splits)
    then show ?thesis using Nil.prems(7) [of "range_start q"] valid_rangeD(1) [OF q] Cons by simp
  qed simp
next
  case (Cons r rs)
  have vr: "valid_range r" using Cons.prems by simp
  have r0: "rangeAdmits (range_start r) r"
    using valid_rangeD(3) [OF vr] by (auto simp: rangeAdmits_def split: option.splits)
  then obtain r' qs where rs': "rs' = r' # qs"
    using Cons.prems(7) [of "range_start r"] valid_rangeD(1) [OF vr] by (cases rs') auto
  have vr': "valid_range r'" using Cons.prems rs' by simp
  have r0': "rangeAdmits (range_start r') r'"
    using valid_rangeD(3) [OF vr'] by (auto simp: rangeAdmits_def split: option.splits)
  note eq = Cons.prems(7) [unfolded rs']
  note A = Cons.prems(1-3) and B = Cons.prems(4-6) [unfolded rs']
  have starts: "range_start r = range_start r'"
    using separated_start_least [OF A] separated_start_least [OF B] r0 r0'
      eq [OF valid_rangeD(1) [OF vr]] eq [OF valid_rangeD(1) [OF vr']]
    by (simp add: order.antisym)
  have bound: "range_end p' \<noteq> None \<and> (\<forall>e'. range_end p' = Some e' \<longrightarrow> e' \<le> e)"
    if sep: "separated (p # ps)" "list_all valid_range (p # ps)" "list_all bounded_end (p # ps)"
      and vp': "valid_range p'" and st: "range_start p' = range_start p" and pe: "range_end p = Some e"
      and cov: "\<And>x. isLocalDate x \<Longrightarrow> rangeAdmits x p' \<Longrightarrow> covers (p # ps) x" for p ps p' e
  proof -
    have e: "isLocalDate e" "e \<noteq> ''9999-12-31''" "range_start p \<le> e"
      using valid_rangeD [of p] sep(2,3) pe by (auto simp: bounded_end_def)
    note n = day_after_neighbour [OF e(1,2)]
    have "\<not> rangeAdmits (day_after e) p'" using separated_gap(1,2) [OF sep pe] cov by blast
    moreover have "range_start p' \<le> day_after e" using st e(3) n(2) by simp
    ultimately obtain e' where e': "range_end p' = Some e'" "\<not> day_after e \<le> e'"
      by (auto simp: rangeAdmits_def split: option.splits)
    then have "\<not> e < e'" using n(3) valid_rangeD(2) [OF vp'] by blast
    with e' show ?thesis by simp
  qed
  have ends: "range_end r = range_end r'"
  proof (cases "range_end r")
    case None
    have "range_end r' = None"
    proof (rule ccontr)
      assume "range_end r' \<noteq> None"
      then obtain e' where "range_end r' = Some e'" by blast
      have "range_end r \<noteq> None"
        using bound [OF B vr starts \<open>range_end r' = Some e'\<close>] eq by (metis covers_simps(2))
      with None show False by simp
    qed
    with None show ?thesis by simp
  next
    case (Some e)
    from bound [OF A vr' starts [symmetric] Some] eq
    obtain e' where e': "range_end r' = Some e'" "e' \<le> e" by auto
    from bound [OF B vr starts e'(1)] eq Some e' show ?thesis by auto
  qed
  have same: "r = r'" using starts ends by (simp add: buy_window_range.equality)
  have "rs = qs"
  proof (cases "range_end r")
    case None
    then have "rs = []" "qs = []" using A(1) B(1) ends by (cases rs; cases qs; auto simp: ends_before_def)+
    then show ?thesis by simp
  next
    case (Some e)
    have "covers rs x = covers qs x" if "isLocalDate x" for x
      using eq [OF that] same separated_gap(3) [OF A Some] separated_gap(3) [OF B, of e x] ends Some
      by auto
    then show ?thesis using Cons.IH [of qs] A B by simp
  qed
  with same rs' show ?case by simp
qed

lemma assertValidRanges_Some: "assertValidRanges rs = Some err \<Longrightarrow> \<exists>r \<in> set rs. assertValidRange r = Some err"
  by (induction rs) (auto split: option.splits)

lemma normalize_valid_input: "normalizeBuyWindowRanges rs = Inr res \<Longrightarrow> list_all valid_range rs"
  by (auto simp: normalizeBuyWindowRanges_def simp flip: assertValidRanges_iff split: option.splits)

abbreviation custom_windows :: "buy_window_range list \<Rightarrow> buy_window_configuration" where
  "custom_windows rs \<equiv> \<lparr>window_mode = CUSTOM, window_ranges = rs\<rparr>"

text \<open>
  C20. \<open>normalizeBuyWindowRanges\<close> is total on submitted ranges: it fails only with the validation
  error of one of them, never with the \<open>RangeError\<close> of a date it computes, and otherwise the
  normalized ranges admit exactly the calendar dates the submitted ranges admitted.
\<close>

theorem normalize_preserves_eligibility:
  assumes "isLocalDate date"
  shows "case normalizeBuyWindowRanges ranges of
      Inl err \<Rightarrow> \<exists>r \<in> set ranges. assertValidRange r = Some err
    | Inr normal \<Rightarrow>
        isBuyWindowEligible (custom_windows normal) date = isBuyWindowEligible (custom_windows ranges) date"
proof (cases "assertValidRanges ranges")
  case None
  then have "list_all valid_range ranges" by (simp only: assertValidRanges_iff)
  from normalize_covers [OF this assms] show ?thesis by (auto simp: isBuyWindowEligible_custom)
next
  case (Some err)
  then show ?thesis by (auto simp: normalizeBuyWindowRanges_def dest: assertValidRanges_Some)
qed

theorem normalize_preserves_eligibility_witness:
  "case normalizeBuyWindowRanges
        [\<lparr>range_start = ''2020-01-01'', range_end = Some ''2020-01-31''\<rparr>,
         \<lparr>range_start = ''2020-02-01'', range_end = None\<rparr>] of
      Inl err \<Rightarrow> False
    | Inr normal \<Rightarrow> isBuyWindowEligible (custom_windows normal) ''2020-02-29''"
proof -
  have "isLocalDate ''2020-02-29''" by code_simp
  from normalize_preserves_eligibility [OF this, of
      "[\<lparr>range_start = ''2020-01-01'', range_end = Some ''2020-01-31''\<rparr>,
        \<lparr>range_start = ''2020-02-01'', range_end = None\<rparr>]"]
  show ?thesis by code_simp
qed




subsection \<open>Ongoing membership\<close>

lemma latestOpenStart_mem:
  "latestOpenStart start rs = Some m \<Longrightarrow>
     start = Some m \<or> (\<exists>r \<in> set rs. range_end r = None \<and> range_start r = m)"
  by (induction rs arbitrary: start) (force split: if_splits)+

lemma latestOpenStart_upper:
  "latestOpenStart start rs = Some m \<Longrightarrow>
     (\<forall>s. start = Some s \<longrightarrow> s \<le> m) \<and> (\<forall>r \<in> set rs. range_end r = None \<longrightarrow> range_start r \<le> m)"
proof (induction rs arbitrary: start)
  case (Cons r rs)
  from Cons.prems Cons.IH show ?case
    by (cases start) (fastforce split: if_splits)+
qed simp

lemma latestOpenStart_None:
  "latestOpenStart start rs = None \<longleftrightarrow> start = None \<and> (\<forall>r \<in> set rs. range_end r \<noteq> None)"
  by (induction rs arbitrary: start) auto

text \<open>
  C29. Ongoing membership is what it promises: a list member that is ongoing on a date may be
  bought on that date and on every later one, and membership that is never ongoing ends: past
  some date the configuration admits nothing.
\<close>

theorem ongoing_membership_never_lapses:
  "(isOngoingListMember c date \<and> date \<le> later \<longrightarrow> isBuyWindowEligible c later) \<and>
   (ongoingMembershipStart c = None \<longrightarrow> (\<exists>last. \<forall>d > last. \<not> isBuyWindowEligible c d))"
proof (intro conjI impI)
  assume *: "isOngoingListMember c date \<and> date \<le> later"
  show "isBuyWindowEligible c later"
  proof (cases "window_mode c")
    case CUSTOM
    with * obtain m where m: "latestOpenStart None (window_ranges c) = Some m" "m \<le> date"
      by (auto simp: isOngoingListMember_def ongoingMembershipStart_def split: option.splits)
    from latestOpenStart_mem [OF m(1)] obtain r
      where r: "r \<in> set (window_ranges c)" "range_end r = None" "range_start r = m" by auto
    from * m(2) r(2,3) have "rangeAdmits later r" by (auto simp: rangeAdmits_def intro: order_trans)
    with r(1) CUSTOM show ?thesis by (auto simp: isBuyWindowEligible_custom covers_def)
  qed (simp add: isBuyWindowEligible_def)
next
  assume "ongoingMembershipStart c = None"
  then have custom: "window_mode c = CUSTOM" and closed: "\<forall>r \<in> set (window_ranges c). range_end r \<noteq> None"
    by (cases "window_mode c"; auto simp: ongoingMembershipStart_def latestOpenStart_None)+
  let ?ends = "map (the \<circ> range_end) (window_ranges c)"
  have "\<not> isBuyWindowEligible c d" if "d > Max (insert [] (set ?ends))" for d
  proof -
    have "\<forall>r \<in> set (window_ranges c). \<not> rangeAdmits d r"
      using closed that by (auto simp: rangeAdmits_def split: option.splits)
    then show ?thesis using custom by (simp add: isBuyWindowEligible_def list_ex_iff)
  qed
  then show "\<exists>last. \<forall>d > last. \<not> isBuyWindowEligible c d" by blast
qed

theorem ongoing_membership_never_lapses_witness:
  "isBuyWindowEligible (custom_windows [\<lparr>range_start = ''2020-01-01'', range_end = None\<rparr>]) ''2031-07-04''"
proof -
  have "isOngoingListMember (custom_windows [\<lparr>range_start = ''2020-01-01'', range_end = None\<rparr>]) ''2024-02-29''"
    by code_simp
  moreover have "''2024-02-29'' \<le> ''2031-07-04''" by code_simp
  ultimately show ?thesis using ongoing_membership_never_lapses by blast
qed

end
