(* ===== verification/JsNumber.thy ===== *)
theory JsNumber
  imports Prelude "HOL-Library.Log_Nat"
begin

section \<open>JavaScript numbers\<close>

text \<open>
  A JavaScript number is an IEEE 754 binary64 value. A finite value is modelled by the rational it
  denotes; every arithmetic result is rounded to the nearest representable value, ties to even,
  with overflow to an infinity and gradual underflow. The two zeros are one value here: the modelled
  code never divides by a computed zero and never prints one, and \<open>===\<close>, \<open><\<close> and \<open><=\<close>
  do not tell them apart. \<open>NaN\<close> is unordered and unequal to everything, itself included.
\<close>

datatype jsnum = Fin rat | PosInf | NegInf | NotANumber

fun isFinite :: "jsnum \<Rightarrow> bool" where
  "isFinite (Fin x) = True"
| "isFinite _ = False"

fun finite_value :: "jsnum \<Rightarrow> rat" where
  "finite_value (Fin x) = x"
| "finite_value _ = 0"

lemma isFiniteE: "isFinite a \<Longrightarrow> (\<And>x. a = Fin x \<Longrightarrow> P) \<Longrightarrow> P"
  by (cases a) auto

subsection \<open>Rounding to binary64\<close>

definition binade :: "rat \<Rightarrow> int" where
  "binade x =
     (case quotient_of \<bar>x\<bar> of (p, q) \<Rightarrow>
        let d = bitlen p - bitlen q in if 2 powi d \<le> \<bar>x\<bar> then d else d - 1)"

definition round_half_even :: "rat \<Rightarrow> int" where
  "round_half_even y =
     (let f = \<lfloor>y\<rfloor>; d = y - of_int f
      in if d < 1 / 2 \<or> (d = 1 / 2 \<and> even f) then f else f + 1)"

definition round_at :: "int \<Rightarrow> rat \<Rightarrow> rat" where
  "round_at e x = of_int (round_half_even (x / 2 powi e)) * 2 powi e"

definition binary64_exponent :: "rat \<Rightarrow> int" where
  "binary64_exponent x = max (binade x - 52) (- 1074)"

definition binary64 :: "rat \<Rightarrow> jsnum" where
  "binary64 x =
     (if x = 0 then Fin 0
      else let r = round_at (binary64_exponent x) x
        in if \<bar>r\<bar> < 2 ^ 1024 then Fin r else if 0 < r then PosInf else NegInf)"

subsection \<open>Operations\<close>

fun js_neg :: "jsnum \<Rightarrow> jsnum" where
  "js_neg (Fin x) = Fin (- x)"
| "js_neg PosInf = NegInf"
| "js_neg NegInf = PosInf"
| "js_neg NotANumber = NotANumber"

fun js_abs :: "jsnum \<Rightarrow> jsnum" where
  "js_abs (Fin x) = Fin \<bar>x\<bar>"
| "js_abs NotANumber = NotANumber"
| "js_abs _ = PosInf"

fun js_add :: "jsnum \<Rightarrow> jsnum \<Rightarrow> jsnum" where
  "js_add NotANumber _ = NotANumber"
| "js_add _ NotANumber = NotANumber"
| "js_add (Fin x) (Fin y) = binary64 (x + y)"
| "js_add (Fin x) b = b"
| "js_add a (Fin y) = a"
| "js_add PosInf PosInf = PosInf"
| "js_add NegInf NegInf = NegInf"
| "js_add _ _ = NotANumber"

definition js_sub :: "jsnum \<Rightarrow> jsnum \<Rightarrow> jsnum" where
  "js_sub a b = js_add a (js_neg b)"

definition signed_infinity :: "bool \<Rightarrow> jsnum" where
  "signed_infinity pos = (if pos then PosInf else NegInf)"

fun js_mul :: "jsnum \<Rightarrow> jsnum \<Rightarrow> jsnum" where
  "js_mul NotANumber _ = NotANumber"
| "js_mul _ NotANumber = NotANumber"
| "js_mul (Fin x) (Fin y) = binary64 (x * y)"
| "js_mul (Fin x) b = (if x = 0 then NotANumber else signed_infinity ((0 < x) = (b = PosInf)))"
| "js_mul a (Fin y) = (if y = 0 then NotANumber else signed_infinity ((0 < y) = (a = PosInf)))"
| "js_mul a b = signed_infinity (a = b)"

text \<open>A zero divisor counts as positive zero.\<close>

fun js_div :: "jsnum \<Rightarrow> jsnum \<Rightarrow> jsnum" where
  "js_div NotANumber _ = NotANumber"
| "js_div _ NotANumber = NotANumber"
| "js_div (Fin x) (Fin y) =
     (if y = 0 then (if x = 0 then NotANumber else signed_infinity (0 < x)) else binary64 (x / y))"
| "js_div (Fin x) b = Fin 0"
| "js_div a (Fin y) = signed_infinity ((0 \<le> y) = (a = PosInf))"
| "js_div _ _ = NotANumber"

fun js_lt :: "jsnum \<Rightarrow> jsnum \<Rightarrow> bool" where
  "js_lt NotANumber _ = False"
| "js_lt _ NotANumber = False"
| "js_lt (Fin x) (Fin y) = (x < y)"
| "js_lt NegInf b = (b \<noteq> NegInf)"
| "js_lt a PosInf = (a \<noteq> PosInf)"
| "js_lt _ _ = False"

fun js_eq :: "jsnum \<Rightarrow> jsnum \<Rightarrow> bool" where
  "js_eq NotANumber _ = False"
| "js_eq a b = (a = b)"

definition js_le :: "jsnum \<Rightarrow> jsnum \<Rightarrow> bool" where
  "js_le a b \<longleftrightarrow> js_lt a b \<or> js_eq a b"

text \<open>\<open>Math.max\<close> of two numbers.\<close>

definition js_max :: "jsnum \<Rightarrow> jsnum \<Rightarrow> jsnum" where
  "js_max a b =
     (if a = NotANumber \<or> b = NotANumber then NotANumber else if js_lt a b then b else a)"

abbreviation js_gt :: "jsnum \<Rightarrow> jsnum \<Rightarrow> bool" where "js_gt a b \<equiv> js_lt b a"
abbreviation js_ge :: "jsnum \<Rightarrow> jsnum \<Rightarrow> bool" where "js_ge a b \<equiv> js_le b a"

lemma js_le_Fin [simp]: "js_le (Fin x) (Fin y) \<longleftrightarrow> x \<le> y"
  by (auto simp: js_le_def)

lemma js_le_NaN [simp]: "\<not> js_le NotANumber b" "\<not> js_le a NotANumber"
  by (cases a; simp add: js_le_def)+

lemma js_lt_irrefl [simp]: "\<not> js_lt a a"
  by (cases a) auto

lemma js_lt_trans: "js_lt a b \<Longrightarrow> js_lt b c \<Longrightarrow> js_lt a c"
  by (cases a; cases b; cases c) auto

lemma js_lt_not_le: "js_lt a b \<Longrightarrow> \<not> js_le b a"
  by (cases a; cases b) (auto simp: js_le_def)

subsection \<open>Rounding error\<close>

lemma powi_pos [simp]: "0 < (2 :: rat) powi e"
  by simp

lemma powi_add_2: "(2 :: rat) powi (a + b) = 2 powi a * 2 powi b"
  by (simp add: power_int_add)

lemma powi_mono_2: "a \<le> b \<Longrightarrow> (2 :: rat) powi a \<le> 2 powi b"
  by (simp add: power_int_increasing)

lemma powi_less_cancel: "(2 :: rat) powi a < 2 powi b \<Longrightarrow> a < b"
  by (meson leD leI powi_mono_2)

lemma powi_le_cancel: "(2 :: rat) powi a \<le> 2 powi b \<Longrightarrow> a \<le> b"
  using power_int_strict_increasing [of b a "2 :: rat"] by fastforce

lemma powi_nat: "0 \<le> e \<Longrightarrow> (2 :: rat) powi e = of_int (2 ^ nat e)"
  by (simp add: power_int_def)

lemma bitlen_powi:
  assumes "0 < p"
  shows "2 powi (bitlen p - 1) \<le> (of_int p :: rat)" "(of_int p :: rat) < 2 powi bitlen p"
proof -
  have "0 < bitlen p"
    using assms bitlen_eq_zero_iff [of p] bitlen_nonneg [of p] by linarith
  then show "2 powi (bitlen p - 1) \<le> (of_int p :: rat)" "(of_int p :: rat) < 2 powi bitlen p"
    using bitlen_bounds [OF assms] by (simp_all only: powi_nat of_int_le_iff of_int_less_iff)
qed

lemma binade_bounds:
  assumes "x \<noteq> 0"
  shows "2 powi binade x \<le> \<bar>x\<bar>" "\<bar>x\<bar> < 2 powi (binade x + 1)"
proof -
  obtain p q where pq: "quotient_of \<bar>x\<bar> = (p, q)" by fastforce
  have q: "0 < q" and x: "\<bar>x\<bar> = of_int p / of_int q"
    using quotient_of_denom_pos [OF pq] quotient_of_div [OF pq] by auto
  have "0 < \<bar>x\<bar>" using assms by simp
  then have p: "0 < p" using q unfolding x by (simp add: zero_less_divide_iff)
  note P = bitlen_powi [OF p] and Q = bitlen_powi [OF q]
  let ?d = "bitlen p - bitlen q"
  have "\<bar>x\<bar> < 2 powi (?d + 1)"
  proof -
    have "(of_int p :: rat) < 2 powi (?d + 1) * 2 powi (bitlen q - 1)"
      using P(2) by (simp flip: powi_add_2)
    also have "\<dots> \<le> 2 powi (?d + 1) * of_int q" using Q(1) by simp
    finally show ?thesis using q by (simp add: x divide_less_eq)
  qed
  moreover have "2 powi (?d - 1) \<le> \<bar>x\<bar>"
  proof -
    have "2 powi (?d - 1) * (of_int q :: rat) \<le> 2 powi (?d - 1) * 2 powi bitlen q"
      using Q(2) by (intro mult_left_mono) auto
    also have "\<dots> = 2 powi (bitlen p - 1)" by (simp flip: powi_add_2)
    also note P(1)
    finally show ?thesis using q by (simp add: x le_divide_eq)
  qed
  ultimately show "2 powi binade x \<le> \<bar>x\<bar>" "\<bar>x\<bar> < 2 powi (binade x + 1)"
    by (auto simp: binade_def pq Let_def)
qed

lemma round_half_even_error: "\<bar>of_int (round_half_even y) - y\<bar> \<le> 1 / 2"
proof -
  have "of_int \<lfloor>y\<rfloor> \<le> y" "y < of_int \<lfloor>y\<rfloor> + 1" by linarith+
  then show ?thesis by (auto simp: round_half_even_def Let_def abs_if) linarith
qed

lemma round_half_even_int [simp]: "round_half_even (of_int n) = n"
  by (simp add: round_half_even_def)

lemma round_half_even_mono: "x \<le> y \<Longrightarrow> round_half_even x \<le> round_half_even y"
proof -
  assume xy: "x \<le> y"
  then have "\<lfloor>x\<rfloor> \<le> \<lfloor>y\<rfloor>" by (rule floor_mono)
  then consider "\<lfloor>x\<rfloor> = \<lfloor>y\<rfloor>" | "\<lfloor>x\<rfloor> + 1 \<le> \<lfloor>y\<rfloor>" by linarith
  then show ?thesis
    using xy by cases (auto simp: round_half_even_def Let_def)
qed

lemma round_at_error: "\<bar>round_at e x - x\<bar> \<le> 2 powi (e - 1)"
proof -
  let ?y = "x / 2 powi e"
  have "round_at e x - x = (of_int (round_half_even ?y) - ?y) * 2 powi e"
    by (simp add: round_at_def left_diff_distrib)
  then have "\<bar>round_at e x - x\<bar> = \<bar>of_int (round_half_even ?y) - ?y\<bar> * 2 powi e"
    by (simp add: abs_mult)
  also have "\<dots> \<le> 1 / 2 * 2 powi e"
    by (intro mult_right_mono round_half_even_error) simp
  also have "\<dots> = 2 powi (e - 1)" by (simp add: power_int_diff)
  finally show ?thesis .
qed

text \<open>The relative error of a normal result and the absolute error of every result.\<close>

lemma binary64_error:
  assumes "binary64 x = Fin r" "2 powi (- 1022) \<le> \<bar>x\<bar>"
  shows "\<bar>r - x\<bar> \<le> \<bar>x\<bar> * 2 powi (- 53)"
proof (cases "x = 0")
  case False
  note b = binade_bounds [OF False]
  have "(2 :: rat) powi (- 1022) < 2 powi (binade x + 1)"
    using assms(2) b(2) by (rule le_less_trans)
  then have "- 1022 < binade x + 1" by (rule powi_less_cancel)
  then have e: "binary64_exponent x = binade x - 52" by (simp add: binary64_exponent_def)
  have "r = round_at (binade x - 52) x"
    using assms(1) False by (simp add: binary64_def Let_def e split: if_splits)
  then have "\<bar>r - x\<bar> \<le> 2 powi (binade x - 52 - 1)" by (simp only: round_at_error)
  also have "\<dots> = 2 powi (binade x) * 2 powi (- 53)"
      by (simp only: powi_add_2 [symmetric]) simp
  also have "\<dots> \<le> \<bar>x\<bar> * 2 powi (- 53)" using b(1) by (intro mult_right_mono) auto
  finally show ?thesis .
qed (use assms in \<open>simp add: binary64_def\<close>)

lemma binary64_error_any:
  assumes "binary64 x = Fin r"
  shows "\<bar>r - x\<bar> \<le> \<bar>x\<bar> * 2 powi (- 53) + 2 powi (- 1075)"
proof (cases "2 powi (- 1022) \<le> \<bar>x\<bar>")
  case True
  from binary64_error [OF assms True] show ?thesis by (simp add: add_increasing2)
next
  case small: False
  show ?thesis
  proof (cases "x = 0")
    case False
    note b = binade_bounds [OF False]
    have "(2 :: rat) powi binade x < 2 powi (- 1022)" using b(1) small by simp
    then have "binade x < - 1022" by (rule powi_less_cancel)
    then have e: "binary64_exponent x = - 1074" by (simp add: binary64_exponent_def)
    have "r = round_at (- 1074) x"
      using assms False by (simp add: binary64_def Let_def e split: if_splits)
    then have "\<bar>r - x\<bar> \<le> 2 powi (- 1074 - 1)" by (simp only: round_at_error)
    then show ?thesis by (simp add: add_increasing)
  qed (use assms in \<open>simp add: binary64_def\<close>)
qed

lemma round_at_below_overflow:
  assumes "x \<noteq> 0" "binade x \<le> 1022"
  shows "\<bar>round_at (binary64_exponent x) x\<bar> < 2 ^ 1024"
proof -
  let ?e = "binary64_exponent x"
  have "(2 :: rat) powi (?e - 1) \<le> 2 powi 969"
    using assms(2) by (intro powi_mono_2) (simp add: binary64_exponent_def)
  moreover have "(2 :: rat) powi (binade x + 1) \<le> 2 powi 1023"
    using assms(2) by (intro powi_mono_2) simp
  ultimately have "\<bar>round_at ?e x - x\<bar> \<le> 2 ^ 969" "\<bar>x\<bar> < 2 ^ 1023"
    using round_at_error [of ?e x] binade_bounds(2) [OF assms(1)] by (simp_all add: power_int_def)
  then have "\<bar>round_at ?e x\<bar> < 2 ^ 969 + 2 ^ 1023" by linarith
  also have "\<dots> < (2 :: rat) ^ 1024" by simp
  finally show ?thesis .
qed

text \<open>Evaluation compares the exponent before it builds the overflow threshold.\<close>

lemma binary64_code [code]:
  "binary64 x =
     (if x = 0 then Fin 0
      else if binade x \<le> 1022 then Fin (round_at (binary64_exponent x) x)
      else let r = round_at (binary64_exponent x) x
        in if \<bar>r\<bar> < 2 ^ 1024 then Fin r else signed_infinity (0 < r))"
  using round_at_below_overflow [of x] by (simp only: binary64_def signed_infinity_def Let_def) auto

lemma binary64_finite:
  assumes "\<bar>x\<bar> < 2 ^ 1023"
  shows "binary64 x = Fin (if x = 0 then 0 else round_at (binary64_exponent x) x)"
proof (cases "x = 0")
  case False
  have "(2 :: rat) powi binade x < 2 powi 1023"
    using binade_bounds(1) [OF False] assms by (simp add: power_int_def)
  then have "binade x < 1023" by (rule powi_less_cancel)
  with False round_at_below_overflow [OF False] show ?thesis by (simp add: binary64_def Let_def)
qed (simp add: binary64_def)

end
