(* ===== verification/JsStrings.thy ===== *)
theory JsStrings
  imports JsNumber LocalDates
begin

section \<open>JavaScript string operations\<close>

text \<open>
  The string operations the source uses: \<open>startsWith\<close>, \<open>slice\<close>, \<open>split\<close> and
  \<open>join\<close> on a one-character separator, the decimal text of a natural number and the
  \<open>Number(text)\<close> conversion of the ECMAScript grammar on text of code points below 256.
\<close>

subsection \<open>Prefixes\<close>

definition startsWith :: "string \<Rightarrow> string \<Rightarrow> bool" where
  "startsWith s p \<longleftrightarrow> take (length p) s = p"

lemma startsWith_append [simp]: "startsWith (p @ s) p"
  by (simp add: startsWith_def)

lemma startsWith_iff: "startsWith s p \<longleftrightarrow> (\<exists>r. s = p @ r)"
  by (metis append_take_drop_id startsWith_append startsWith_def)

lemma startsWith_drop: "startsWith s p \<Longrightarrow> s = p @ drop (length p) s"
  by (metis append_take_drop_id startsWith_def)

lemma startsWith_code [code]:
  "startsWith s [] = True"
  "startsWith [] (c # p) = False"
  "startsWith (d # s) (c # p) = (d = c \<and> startsWith s p)"
  by (auto simp: startsWith_def)

subsection \<open>Split and join\<close>

fun split_loop :: "char \<Rightarrow> string \<Rightarrow> string \<Rightarrow> string list" where
  "split_loop sep acc [] = [rev acc]"
| "split_loop sep acc (c # s) =
     (if c = sep then rev acc # split_loop sep [] s else split_loop sep (c # acc) s)"

definition js_split :: "char \<Rightarrow> string \<Rightarrow> string list" where
  "js_split sep s = split_loop sep [] s"

fun js_join :: "char \<Rightarrow> string list \<Rightarrow> string" where
  "js_join sep [] = []"
| "js_join sep [x] = x"
| "js_join sep (x # y # xs) = x @ sep # js_join sep (y # xs)"

lemma split_loop_plain: "sep \<notin> set x \<Longrightarrow> split_loop sep acc x = [rev acc @ x]"
  by (induction x arbitrary: acc) auto

lemma split_loop_piece:
  "sep \<notin> set x \<Longrightarrow> split_loop sep acc (x @ sep # s) = (rev acc @ x) # split_loop sep [] s"
  by (induction x arbitrary: acc) auto

lemma js_split_join:
  assumes "xs \<noteq> []" "\<forall>x \<in> set xs. sep \<notin> set x"
  shows "js_split sep (js_join sep xs) = xs"
  using assms
  by (induction sep xs rule: js_join.induct)
    (simp_all add: js_split_def split_loop_plain split_loop_piece)

lemma js_split_plain: "sep \<notin> set x \<Longrightarrow> js_split sep x = [x]"
  using js_split_join [of "[x]" sep] by simp

lemma split_loop_not_Nil [simp]: "split_loop sep acc s \<noteq> []"
  by (induction sep acc s rule: split_loop.induct) auto

lemma js_join_Cons: "xs \<noteq> [] \<Longrightarrow> js_join sep (x # xs) = x @ sep # js_join sep xs"
  by (cases xs) auto

lemma js_join_split_loop: "js_join sep (split_loop sep acc s) = rev acc @ s"
  by (induction sep acc s rule: split_loop.induct) (auto simp: js_join_Cons)

lemma js_join_split [simp]: "js_join sep (js_split sep s) = s"
  by (simp add: js_split_def js_join_split_loop)

lemma set_js_join: "set (js_join sep xs) \<subseteq> insert sep (\<Union> (set ` set xs))"
  by (induction sep xs rule: js_join.induct) auto

lemma js_join_inj:
  assumes "js_join sep xs = js_join sep ys" "xs \<noteq> []" "ys \<noteq> []"
    and "\<forall>x \<in> set xs. sep \<notin> set x" "\<forall>y \<in> set ys. sep \<notin> set y"
  shows "xs = ys"
  using assms js_split_join by metis

subsection \<open>Numbers as text\<close>

function string_of_nat :: "nat \<Rightarrow> string" where
  "string_of_nat n =
     (if n < 10 then [digit (int n)] else string_of_nat (n div 10) @ [digit (int (n mod 10))])"
  by auto
termination by (relation "measure id") auto

declare string_of_nat.simps [simp del]

definition js_space :: "char \<Rightarrow> bool" where
  "js_space c \<longleftrightarrow> (let n = of_char c :: nat in n = 32 \<or> n = 160 \<or> (9 \<le> n \<and> n \<le> 13))"

definition js_trim :: "string \<Rightarrow> string" where
  "js_trim s = rev (dropWhile js_space (rev (dropWhile js_space s)))"

text \<open>The value of a digit in the bases 2, 8 and 16.\<close>

definition based_digit :: "char \<Rightarrow> int option" where
  "based_digit c =
     (let n = of_char c :: int
      in if 48 \<le> n \<and> n \<le> 57 then Some (n - 48)
         else if 97 \<le> n \<and> n \<le> 102 then Some (n - 87)
         else if 65 \<le> n \<and> n \<le> 70 then Some (n - 55)
         else None)"

fun based_number :: "int \<Rightarrow> int \<Rightarrow> string \<Rightarrow> int option" where
  "based_number b acc [] = Some acc"
| "based_number b acc (c # s) =
     (case based_digit c of
        Some d \<Rightarrow> if d < b then based_number b (acc * b + d) s else None
      | None \<Rightarrow> None)"

definition digits_prefix :: "string \<Rightarrow> string \<times> string" where
  "digits_prefix s = (takeWhile is_digit s, dropWhile is_digit s)"

text \<open>The exponent part: absent, or \<open>e\<close> with an optional sign and at least one digit.\<close>

definition exponent_part :: "string \<Rightarrow> int option" where
  "exponent_part s =
     (case s of
        [] \<Rightarrow> Some 0
      | c # r \<Rightarrow>
          if c \<noteq> CHR ''e'' \<and> c \<noteq> CHR ''E'' then None
          else
            (let (neg, ds) =
                (case r of [] \<Rightarrow> (False, []) | d # r' \<Rightarrow>
                   if d = CHR ''-'' then (True, r') else if d = CHR ''+'' then (False, r') else (False, r))
             in if ds \<noteq> [] \<and> list_all is_digit ds
                then Some (if neg then - number_of ds else number_of ds) else None))"

definition unsigned_decimal :: "string \<Rightarrow> rat option" where
  "unsigned_decimal s =
     (let (whole, r) = digits_prefix s;
          (frac, r') = (case r of [] \<Rightarrow> ([], []) | c # t \<Rightarrow>
             if c = CHR ''.'' then digits_prefix t else ([], r))
      in if whole = [] \<and> frac = [] then None
         else case exponent_part r' of None \<Rightarrow> None
           | Some e \<Rightarrow> Some (of_int (number_of (whole @ frac)) * 10 powi (e - int (length frac))))"

definition signed_literal :: "bool \<Rightarrow> string \<Rightarrow> jsnum" where
  "signed_literal neg s =
     (if s = ''Infinity'' then (if neg then NegInf else PosInf)
      else case unsigned_decimal s of
          None \<Rightarrow> NotANumber
        | Some x \<Rightarrow> binary64 (if neg then - x else x))"

definition based_literal :: "int \<Rightarrow> string \<Rightarrow> jsnum" where
  "based_literal b s =
     (if s = [] then NotANumber
      else case based_number b 0 s of None \<Rightarrow> NotANumber | Some n \<Rightarrow> binary64 (of_int n))"

definition js_Number :: "string \<Rightarrow> jsnum" where
  "js_Number text =
     (let s = js_trim text
      in case s of
          [] \<Rightarrow> Fin 0
        | c # r \<Rightarrow>
            if c = CHR ''0'' \<and> r \<noteq> [] \<and> hd r \<in> {CHR ''x'', CHR ''X''} then based_literal 16 (tl r)
            else if c = CHR ''0'' \<and> r \<noteq> [] \<and> hd r \<in> {CHR ''o'', CHR ''O''} then based_literal 8 (tl r)
            else if c = CHR ''0'' \<and> r \<noteq> [] \<and> hd r \<in> {CHR ''b'', CHR ''B''} then based_literal 2 (tl r)
            else if c = CHR ''-'' then signed_literal True r
            else if c = CHR ''+'' then signed_literal False r
            else signed_literal False s)"

end
