(* ===== verification/Catalogs.thy ===== *)
theory Catalogs
  imports Prelude
begin

section \<open>Catalogs a strategy may name\<close>

text \<open>
  The closed catalogs of \<open>packages/contracts/src\<close>: the selectable series
  (\<open>selectable-series.ts\<close>), the fundamental metrics (\<open>fundamental-metrics.ts\<close>), the valuation
  ratios (\<open>valuation-ratios.ts\<close>) and the ETF sources (\<open>strategy-etf-sources.ts\<close>), with their
  lookups. The help texts of an entry (\<open>summary\<close>, \<open>formula\<close>) are left out.
\<close>

subsection \<open>Selectable series\<close>

datatype series_group =
  MOVING_AVERAGES_DAILY | MOVING_AVERAGES_WEEKLY | OSCILLATORS | INTRINSIC_VALUE_BLENDS
| INTRINSIC_VALUE_MODELS

definition SELECTABLE_SERIES_GROUPS :: "series_group list" where
  "SELECTABLE_SERIES_GROUPS =
     [MOVING_AVERAGES_DAILY, MOVING_AVERAGES_WEEKLY, OSCILLATORS, INTRINSIC_VALUE_BLENDS,
      INTRINSIC_VALUE_MODELS]"

datatype moving_average_type = SMA | EMA
datatype timeframe = DAILY | WEEKLY

text \<open>An oscillator source is always an RSI; its last two fields are the range.\<close>

datatype series_source =
  MovingAverageSource moving_average_type nat timeframe string
| OscillatorSource nat timeframe string int int
| BlendSource string
| ModelSource string

record selectable_series =
  series_id :: string
  series_group :: series_group
  series_label :: string
  series_default :: bool
  series_source :: series_source

definition DAILY_AVERAGE_ENTRIES :: "selectable_series list" where
  "DAILY_AVERAGE_ENTRIES =
     [\<lparr>series_id = ''SMA_20D'', series_group = MOVING_AVERAGES_DAILY, series_label = ''SMA 20D'',
        series_default = False, series_source = MovingAverageSource SMA 20 DAILY ''sma20d''\<rparr>,
      \<lparr>series_id = ''SMA_50D'', series_group = MOVING_AVERAGES_DAILY, series_label = ''SMA 50D'',
        series_default = False, series_source = MovingAverageSource SMA 50 DAILY ''sma50d''\<rparr>,
      \<lparr>series_id = ''SMA_100D'', series_group = MOVING_AVERAGES_DAILY, series_label = ''SMA 100D'',
        series_default = False, series_source = MovingAverageSource SMA 100 DAILY ''sma100d''\<rparr>,
      \<lparr>series_id = ''SMA_200D'', series_group = MOVING_AVERAGES_DAILY, series_label = ''SMA 200D'',
        series_default = False, series_source = MovingAverageSource SMA 200 DAILY ''sma200d''\<rparr>,
      \<lparr>series_id = ''EMA_20D'', series_group = MOVING_AVERAGES_DAILY, series_label = ''EMA 20D'',
        series_default = False, series_source = MovingAverageSource EMA 20 DAILY ''ema20d''\<rparr>,
      \<lparr>series_id = ''EMA_50D'', series_group = MOVING_AVERAGES_DAILY, series_label = ''EMA 50D'',
        series_default = False, series_source = MovingAverageSource EMA 50 DAILY ''ema50d''\<rparr>,
      \<lparr>series_id = ''EMA_200D'', series_group = MOVING_AVERAGES_DAILY, series_label = ''EMA 200D'',
        series_default = False, series_source = MovingAverageSource EMA 200 DAILY ''ema200d''\<rparr>]"

definition WEEKLY_AVERAGE_ENTRIES :: "selectable_series list" where
  "WEEKLY_AVERAGE_ENTRIES =
     [\<lparr>series_id = ''SMA_20W'', series_group = MOVING_AVERAGES_WEEKLY, series_label = ''SMA 20W'',
        series_default = False, series_source = MovingAverageSource SMA 20 WEEKLY ''sma20w''\<rparr>,
      \<lparr>series_id = ''SMA_50W'', series_group = MOVING_AVERAGES_WEEKLY, series_label = ''SMA 50W'',
        series_default = False, series_source = MovingAverageSource SMA 50 WEEKLY ''sma50w''\<rparr>,
      \<lparr>series_id = ''SMA_100W'', series_group = MOVING_AVERAGES_WEEKLY, series_label = ''SMA 100W'',
        series_default = False, series_source = MovingAverageSource SMA 100 WEEKLY ''sma100w''\<rparr>,
      \<lparr>series_id = ''SMA_200W'', series_group = MOVING_AVERAGES_WEEKLY, series_label = ''SMA 200W'',
        series_default = False, series_source = MovingAverageSource SMA 200 WEEKLY ''sma200w''\<rparr>,
      \<lparr>series_id = ''EMA_20W'', series_group = MOVING_AVERAGES_WEEKLY, series_label = ''EMA 20W'',
        series_default = False, series_source = MovingAverageSource EMA 20 WEEKLY ''ema20w''\<rparr>,
      \<lparr>series_id = ''EMA_50W'', series_group = MOVING_AVERAGES_WEEKLY, series_label = ''EMA 50W'',
        series_default = False, series_source = MovingAverageSource EMA 50 WEEKLY ''ema50w''\<rparr>,
      \<lparr>series_id = ''EMA_200W'', series_group = MOVING_AVERAGES_WEEKLY, series_label = ''EMA 200W'',
        series_default = False, series_source = MovingAverageSource EMA 200 WEEKLY ''ema200w''\<rparr>]"

definition OSCILLATOR_ENTRIES :: "selectable_series list" where
  "OSCILLATOR_ENTRIES =
     [\<lparr>series_id = ''RSI_7D'', series_group = OSCILLATORS, series_label = ''RSI 7D'',
        series_default = False, series_source = OscillatorSource 7 DAILY ''rsi7d'' 0 100\<rparr>,
      \<lparr>series_id = ''RSI_14D'', series_group = OSCILLATORS, series_label = ''RSI 14D'',
        series_default = False, series_source = OscillatorSource 14 DAILY ''rsi14d'' 0 100\<rparr>,
      \<lparr>series_id = ''RSI_21D'', series_group = OSCILLATORS, series_label = ''RSI 21D'',
        series_default = False, series_source = OscillatorSource 21 DAILY ''rsi21d'' 0 100\<rparr>]"

definition INTRINSIC_VALUE_ENTRIES :: "selectable_series list" where
  "INTRINSIC_VALUE_ENTRIES =
     [\<lparr>series_id = ''BALANCED'', series_group = INTRINSIC_VALUE_BLENDS, series_label = ''Balanced'',
        series_default = True, series_source = BlendSource ''BALANCED''\<rparr>,
      \<lparr>series_id = ''CONSERVATIVE'', series_group = INTRINSIC_VALUE_BLENDS, series_label = ''Conservative'',
        series_default = False, series_source = BlendSource ''CONSERVATIVE''\<rparr>,
      \<lparr>series_id = ''DIVIDEND'', series_group = INTRINSIC_VALUE_BLENDS, series_label = ''Dividend'',
        series_default = False, series_source = BlendSource ''DIVIDEND''\<rparr>,
      \<lparr>series_id = ''DCF_FCFF'', series_group = INTRINSIC_VALUE_MODELS, series_label = ''DCF (FCFF)'',
        series_default = False, series_source = ModelSource ''DCF_FCFF''\<rparr>,
      \<lparr>series_id = ''RESIDUAL_INCOME'', series_group = INTRINSIC_VALUE_MODELS, series_label = ''Residual Income'',
        series_default = False, series_source = ModelSource ''RESIDUAL_INCOME''\<rparr>,
      \<lparr>series_id = ''DDM'', series_group = INTRINSIC_VALUE_MODELS, series_label = ''Dividend Discount (DDM)'',
        series_default = False, series_source = ModelSource ''DDM''\<rparr>,
      \<lparr>series_id = ''GRAHAM'', series_group = INTRINSIC_VALUE_MODELS, series_label = ''Graham'',
        series_default = False, series_source = ModelSource ''GRAHAM''\<rparr>]"

definition SELECTABLE_SERIES_CATALOG :: "selectable_series list" where
  "SELECTABLE_SERIES_CATALOG =
     DAILY_AVERAGE_ENTRIES @ WEEKLY_AVERAGE_ENTRIES @ OSCILLATOR_ENTRIES @ INTRINSIC_VALUE_ENTRIES"

text \<open>A \<open>Map\<close> built from the catalog keeps the last entry of an identifier.\<close>

definition findSelectableSeries :: "string \<Rightarrow> selectable_series option" where
  "findSelectableSeries name =
     map_of (rev (map (\<lambda>entry. (series_id entry, entry)) SELECTABLE_SERIES_CATALOG)) name"

definition DEFAULT_SELECTED_SERIES_IDS :: "string list" where
  "DEFAULT_SELECTED_SERIES_IDS =
     map series_id (filter series_default SELECTABLE_SERIES_CATALOG)"

fun is_moving_average :: "series_source \<Rightarrow> bool" where
  "is_moving_average (MovingAverageSource _ _ _ _) = True"
| "is_moving_average _ = False"

fun is_oscillator :: "series_source \<Rightarrow> bool" where
  "is_oscillator (OscillatorSource _ _ _ _ _) = True"
| "is_oscillator _ = False"

fun is_intrinsic_value :: "series_source \<Rightarrow> bool" where
  "is_intrinsic_value (BlendSource _) = True"
| "is_intrinsic_value (ModelSource _) = True"
| "is_intrinsic_value _ = False"

definition MOVING_AVERAGE_SERIES :: "selectable_series list" where
  "MOVING_AVERAGE_SERIES =
     filter (\<lambda>entry. is_moving_average (series_source entry)) SELECTABLE_SERIES_CATALOG"

definition OSCILLATOR_SERIES :: "selectable_series list" where
  "OSCILLATOR_SERIES = filter (\<lambda>entry. is_oscillator (series_source entry)) SELECTABLE_SERIES_CATALOG"

definition INTRINSIC_VALUE_SERIES :: "selectable_series list" where
  "INTRINSIC_VALUE_SERIES =
     filter (\<lambda>entry. is_intrinsic_value (series_source entry)) SELECTABLE_SERIES_CATALOG"

definition PRICE_COMPARABLE_SERIES :: "selectable_series list" where
  "PRICE_COMPARABLE_SERIES =
     filter (\<lambda>entry. is_moving_average (series_source entry) \<or> is_intrinsic_value (series_source entry))
       SELECTABLE_SERIES_CATALOG"

definition TECHNICAL_SERIES :: "selectable_series list" where
  "TECHNICAL_SERIES =
     filter (\<lambda>entry. is_moving_average (series_source entry) \<or> is_oscillator (series_source entry))
       SELECTABLE_SERIES_CATALOG"

fun source_timeframe :: "series_source \<Rightarrow> timeframe option" where
  "source_timeframe (MovingAverageSource _ _ t _) = Some t"
| "source_timeframe _ = None"

definition comparableMovingAverages :: "string \<Rightarrow> selectable_series list" where
  "comparableMovingAverages name =
     (case findSelectableSeries name of
        None \<Rightarrow> []
      | Some left \<Rightarrow>
          (case source_timeframe (series_source left) of
             None \<Rightarrow> []
           | Some t \<Rightarrow>
               filter (\<lambda>entry. series_id entry \<noteq> name \<and> source_timeframe (series_source entry) = Some t)
                 MOVING_AVERAGE_SERIES))"

subsection \<open>Fundamental metrics\<close>

datatype metric_group = GROWTH | PROFITABILITY | QUALITY | LEVERAGE | LIQUIDITY | SOLVENCY | EFFICIENCY
datatype metric_unit = PERCENT_UNIT | MULTIPLE_UNIT

record fundamental_metric =
  metric_id :: string
  metric_label :: string
  metric_group :: metric_group
  metric_unit :: metric_unit
  metric_minimum :: "int option"

definition FUNDAMENTAL_METRIC_CATALOG :: "fundamental_metric list" where
  "FUNDAMENTAL_METRIC_CATALOG =
     [\<lparr>metric_id = ''REVENUE_GROWTH_TTM_YOY'', metric_label = ''Revenue Growth TTM YoY'', metric_group = GROWTH,
        metric_unit = PERCENT_UNIT, metric_minimum = Some (- 100)\<rparr>,
      \<lparr>metric_id = ''EPS_GROWTH_TTM_YOY'', metric_label = ''EPS Growth TTM YoY'', metric_group = GROWTH,
        metric_unit = PERCENT_UNIT, metric_minimum = Some (- 100)\<rparr>,
      \<lparr>metric_id = ''FCF_GROWTH_TTM_YOY'', metric_label = ''FCF Growth TTM YoY'', metric_group = GROWTH,
        metric_unit = PERCENT_UNIT, metric_minimum = Some (- 100)\<rparr>,
      \<lparr>metric_id = ''GROSS_MARGIN_TTM'', metric_label = ''Gross Margin TTM'', metric_group = PROFITABILITY,
        metric_unit = PERCENT_UNIT, metric_minimum = None\<rparr>,
      \<lparr>metric_id = ''OPERATING_MARGIN_TTM'', metric_label = ''Operating Margin TTM'', metric_group = PROFITABILITY,
        metric_unit = PERCENT_UNIT, metric_minimum = None\<rparr>,
      \<lparr>metric_id = ''NET_MARGIN_TTM'', metric_label = ''Net Margin TTM'', metric_group = PROFITABILITY,
        metric_unit = PERCENT_UNIT, metric_minimum = None\<rparr>,
      \<lparr>metric_id = ''FCF_MARGIN_TTM'', metric_label = ''FCF Margin TTM'', metric_group = PROFITABILITY,
        metric_unit = PERCENT_UNIT, metric_minimum = None\<rparr>,
      \<lparr>metric_id = ''ROIC_TTM'', metric_label = ''ROIC TTM'', metric_group = QUALITY,
        metric_unit = PERCENT_UNIT, metric_minimum = None\<rparr>,
      \<lparr>metric_id = ''ROE_TTM'', metric_label = ''ROE TTM'', metric_group = QUALITY,
        metric_unit = PERCENT_UNIT, metric_minimum = None\<rparr>,
      \<lparr>metric_id = ''ROA_TTM'', metric_label = ''ROA TTM'', metric_group = QUALITY,
        metric_unit = PERCENT_UNIT, metric_minimum = None\<rparr>,
      \<lparr>metric_id = ''DEBT_TO_EQUITY'', metric_label = ''Debt / Equity'', metric_group = LEVERAGE,
        metric_unit = MULTIPLE_UNIT, metric_minimum = Some (0)\<rparr>,
      \<lparr>metric_id = ''CURRENT_RATIO'', metric_label = ''Current Ratio'', metric_group = LIQUIDITY,
        metric_unit = MULTIPLE_UNIT, metric_minimum = Some (0)\<rparr>,
      \<lparr>metric_id = ''NET_DEBT_TO_EBITDA_TTM'', metric_label = ''Net Debt / EBITDA TTM'', metric_group = LEVERAGE,
        metric_unit = MULTIPLE_UNIT, metric_minimum = None\<rparr>,
      \<lparr>metric_id = ''INTEREST_COVERAGE_TTM'', metric_label = ''Interest Coverage TTM'', metric_group = SOLVENCY,
        metric_unit = MULTIPLE_UNIT, metric_minimum = None\<rparr>,
      \<lparr>metric_id = ''ASSET_TURNOVER_TTM'', metric_label = ''Asset Turnover TTM'', metric_group = EFFICIENCY,
        metric_unit = MULTIPLE_UNIT, metric_minimum = Some (0)\<rparr>]"

definition isFundamentalMetricId :: "string \<Rightarrow> bool" where
  "isFundamentalMetricId value \<longleftrightarrow> value \<in> set (map metric_id FUNDAMENTAL_METRIC_CATALOG)"

definition findFundamentalMetric :: "string \<Rightarrow> fundamental_metric option" where
  "findFundamentalMetric name = List.find (\<lambda>entry. metric_id entry = name) FUNDAMENTAL_METRIC_CATALOG"

subsection \<open>Valuation ratios\<close>

record valuation_ratio =
  ratio_id :: string
  ratio_label :: string
  ratio_minimum :: "int option"

definition VALUATION_RATIO_CATALOG :: "valuation_ratio list" where
  "VALUATION_RATIO_CATALOG =
     [\<lparr>ratio_id = ''PRICE_TO_EARNINGS_TTM'', ratio_label = ''P/E'', ratio_minimum = Some 0\<rparr>,
      \<lparr>ratio_id = ''PRICE_TO_SALES_TTM'', ratio_label = ''P/S'', ratio_minimum = Some 0\<rparr>,
      \<lparr>ratio_id = ''PRICE_TO_BOOK'', ratio_label = ''P/B'', ratio_minimum = Some 0\<rparr>,
      \<lparr>ratio_id = ''PRICE_TO_FCF_TTM'', ratio_label = ''P/FCF'', ratio_minimum = Some 0\<rparr>,
      \<lparr>ratio_id = ''EV_TO_EBITDA_TTM'', ratio_label = ''EV/EBITDA'', ratio_minimum = None\<rparr>]"

definition isValuationRatioId :: "string \<Rightarrow> bool" where
  "isValuationRatioId value \<longleftrightarrow> value \<in> set (map ratio_id VALUATION_RATIO_CATALOG)"

definition findValuationRatio :: "string \<Rightarrow> valuation_ratio option" where
  "findValuationRatio name = List.find (\<lambda>entry. ratio_id entry = name) VALUATION_RATIO_CATALOG"

subsection \<open>ETF sources\<close>

datatype etf_group = BENCHMARKS | US_SECTORS | MACRO_ALTERNATIVES

record etf_source =
  etf_code :: string
  etf_ticker :: string
  etf_label :: string
  etf_group :: etf_group

definition STRATEGY_ETF_SOURCES :: "etf_source list" where
  "STRATEGY_ETF_SOURCES =
     [\<lparr>etf_code = ''SP500'', etf_ticker = ''SPY'', etf_label = ''S&P 500'', etf_group = BENCHMARKS\<rparr>,
      \<lparr>etf_code = ''ETF_QQQ'', etf_ticker = ''QQQ'', etf_label = ''Nasdaq-100'', etf_group = BENCHMARKS\<rparr>,
      \<lparr>etf_code = ''ETF_DIA'', etf_ticker = ''DIA'', etf_label = ''Dow Jones'', etf_group = BENCHMARKS\<rparr>,
      \<lparr>etf_code = ''ETF_IWM'', etf_ticker = ''IWM'', etf_label = ''Russell 2000'', etf_group = BENCHMARKS\<rparr>,
      \<lparr>etf_code = ''ETF_RSP'', etf_ticker = ''RSP'', etf_label = ''S&P 500 Equal Weight'', etf_group = BENCHMARKS\<rparr>,
      \<lparr>etf_code = ''ETF_XLK'', etf_ticker = ''XLK'', etf_label = ''Technology'', etf_group = US_SECTORS\<rparr>,
      \<lparr>etf_code = ''ETF_XLF'', etf_ticker = ''XLF'', etf_label = ''Financials'', etf_group = US_SECTORS\<rparr>,
      \<lparr>etf_code = ''ETF_XLE'', etf_ticker = ''XLE'', etf_label = ''Energy'', etf_group = US_SECTORS\<rparr>,
      \<lparr>etf_code = ''ETF_XLV'', etf_ticker = ''XLV'', etf_label = ''Healthcare'', etf_group = US_SECTORS\<rparr>,
      \<lparr>etf_code = ''ETF_XLI'', etf_ticker = ''XLI'', etf_label = ''Industrials'', etf_group = US_SECTORS\<rparr>,
      \<lparr>etf_code = ''ETF_XLY'', etf_ticker = ''XLY'', etf_label = ''Consumer Discretionary'', etf_group = US_SECTORS\<rparr>,
      \<lparr>etf_code = ''ETF_XLP'', etf_ticker = ''XLP'', etf_label = ''Consumer Staples'', etf_group = US_SECTORS\<rparr>,
      \<lparr>etf_code = ''ETF_XLU'', etf_ticker = ''XLU'', etf_label = ''Utilities'', etf_group = US_SECTORS\<rparr>,
      \<lparr>etf_code = ''ETF_XLB'', etf_ticker = ''XLB'', etf_label = ''Materials'', etf_group = US_SECTORS\<rparr>,
      \<lparr>etf_code = ''ETF_XLRE'', etf_ticker = ''XLRE'', etf_label = ''Real Estate'', etf_group = US_SECTORS\<rparr>,
      \<lparr>etf_code = ''ETF_XLC'', etf_ticker = ''XLC'', etf_label = ''Communication Services'', etf_group = US_SECTORS\<rparr>,
      \<lparr>etf_code = ''ETF_GLD'', etf_ticker = ''GLD'', etf_label = ''Gold'', etf_group = MACRO_ALTERNATIVES\<rparr>,
      \<lparr>etf_code = ''ETF_USO'', etf_ticker = ''USO'', etf_label = ''Oil Futures'', etf_group = MACRO_ALTERNATIVES\<rparr>,
      \<lparr>etf_code = ''ETF_TLT'', etf_ticker = ''TLT'', etf_label = ''Long-Term Treasuries'', etf_group = MACRO_ALTERNATIVES\<rparr>,
      \<lparr>etf_code = ''ETF_HYG'', etf_ticker = ''HYG'', etf_label = ''High-Yield Bonds'', etf_group = MACRO_ALTERNATIVES\<rparr>]"

definition isStrategyEtfSourceCode :: "string \<Rightarrow> bool" where
  "isStrategyEtfSourceCode value \<longleftrightarrow> value \<in> set (map etf_code STRATEGY_ETF_SOURCES)"

definition findStrategyEtfSource :: "string \<Rightarrow> etf_source option" where
  "findStrategyEtfSource code =
     map_of (rev (map (\<lambda>entry. (etf_code entry, entry)) STRATEGY_ETF_SOURCES)) code"

definition strategyEtfSourceTicker :: "string \<Rightarrow> string" where
  "strategyEtfSourceTicker code =
     (case findStrategyEtfSource code of None \<Rightarrow> code | Some entry \<Rightarrow> etf_ticker entry)"

subsection \<open>The catalogs are tables\<close>

lemma catalogs_distinct:
  "distinct (map series_id SELECTABLE_SERIES_CATALOG)"
  "distinct (map metric_id FUNDAMENTAL_METRIC_CATALOG)"
  "distinct (map ratio_id VALUATION_RATIO_CATALOG)"
  "distinct (map etf_code STRATEGY_ETF_SOURCES)"
  by code_simp+

lemma etf_code_plain: "isStrategyEtfSourceCode code \<Longrightarrow> code \<noteq> [] \<and> CHR '':'' \<notin> set code"
  by (auto simp: isStrategyEtfSourceCode_def STRATEGY_ETF_SOURCES_def)

end
