(* ===== verification/AltMetrics.thy ===== *)
theory AltMetrics
  imports JsStrings
begin

section \<open>Alternative-data metrics and their signatures\<close>

text \<open>
  The insider and congressional metrics of \<open>packages/contracts/src/alternative-data.ts\<close>: the
  measure tables, the actor scope, the signature a metric prints to and the parser that reads a
  signature back. A measure is kept as the string the document carries, because the measure tables
  are plain objects: a lookup by an arbitrary string also finds the properties every object
  inherits.
\<close>

subsection \<open>Vocabulary\<close>

datatype insider_role =
  CEO | CFO | COO | PRESIDENT | CHAIRMAN | DIRECTOR | OFFICER | TEN_PERCENT_OWNER | OTHER_ROLE

definition INSIDER_ROLES :: "insider_role list" where
  "INSIDER_ROLES =
     [CEO, CFO, COO, PRESIDENT, CHAIRMAN, DIRECTOR, OFFICER, TEN_PERCENT_OWNER, OTHER_ROLE]"

fun role_text :: "insider_role \<Rightarrow> string" where
  "role_text CEO = ''CEO''"
| "role_text CFO = ''CFO''"
| "role_text COO = ''COO''"
| "role_text PRESIDENT = ''PRESIDENT''"
| "role_text CHAIRMAN = ''CHAIRMAN''"
| "role_text DIRECTOR = ''DIRECTOR''"
| "role_text OFFICER = ''OFFICER''"
| "role_text TEN_PERCENT_OWNER = ''TEN_PERCENT_OWNER''"
| "role_text OTHER_ROLE = ''OTHER''"

datatype congress_owner = SELF | SPOUSE | JOINT | CHILD | DEPENDENT | OTHER_OWNER | UNSPECIFIED

definition CONGRESS_OWNERS :: "congress_owner list" where
  "CONGRESS_OWNERS = [SELF, SPOUSE, JOINT, CHILD, DEPENDENT, OTHER_OWNER, UNSPECIFIED]"

fun owner_text :: "congress_owner \<Rightarrow> string" where
  "owner_text SELF = ''SELF''"
| "owner_text SPOUSE = ''SPOUSE''"
| "owner_text JOINT = ''JOINT''"
| "owner_text CHILD = ''CHILD''"
| "owner_text DEPENDENT = ''DEPENDENT''"
| "owner_text OTHER_OWNER = ''OTHER''"
| "owner_text UNSPECIFIED = ''UNSPECIFIED''"

datatype chamber_filter = ANY_CHAMBER | HOUSE | SENATE

definition CONGRESS_CHAMBER_FILTERS :: "chamber_filter list" where
  "CONGRESS_CHAMBER_FILTERS = [ANY_CHAMBER, HOUSE, SENATE]"

fun chamber_text :: "chamber_filter \<Rightarrow> string" where
  "chamber_text ANY_CHAMBER = ''ANY''"
| "chamber_text HOUSE = ''HOUSE''"
| "chamber_text SENATE = ''SENATE''"

definition ALTERNATIVE_DATA_LOOKBACKS :: "nat list" where
  "ALTERNATIVE_DATA_LOOKBACKS = [5, 10, 20, 30, 60, 90, 120, 180, 250]"

definition ACTOR_SCOPE_MAX_ACTORS :: nat where
  "ACTOR_SCOPE_MAX_ACTORS = 250"

datatype actor_scope =
  ANY
| ACTORS "string list"
| ACTOR string
| GROUP string

datatype metric_kind = INSIDER_ACTIVITY_KIND | CONGRESS_ACTIVITY_KIND

fun kind_text :: "metric_kind \<Rightarrow> string" where
  "kind_text INSIDER_ACTIVITY_KIND = ''INSIDER_ACTIVITY''"
| "kind_text CONGRESS_ACTIVITY_KIND = ''CONGRESS_ACTIVITY''"

definition ALTERNATIVE_DATA_METRIC_KINDS :: "metric_kind list" where
  "ALTERNATIVE_DATA_METRIC_KINDS = [INSIDER_ACTIVITY_KIND, CONGRESS_ACTIVITY_KIND]"

subsection \<open>Measures\<close>

datatype aggregation = DISTINCT_ACTORS | EVENT_COUNT | SUM_AMOUNT

datatype fact_filter =
  INSIDER_OPEN_MARKET_PURCHASE | INSIDER_OPEN_MARKET_SALE | CONGRESS_PURCHASE | CONGRESS_SALE

datatype measure_unit = COUNT | MONEY

record measure_definition =
  measure_label :: string
  measure_filter :: fact_filter
  measure_aggregation :: aggregation
  measure_unit :: measure_unit
  measure_lookback :: nat

definition INSIDER_MEASURE_DEFINITIONS :: "(string \<times> measure_definition) list" where
  "INSIDER_MEASURE_DEFINITIONS =
     [(''BUYERS'', \<lparr>measure_label = ''Insider buyers'', measure_filter = INSIDER_OPEN_MARKET_PURCHASE,
        measure_aggregation = DISTINCT_ACTORS, measure_unit = COUNT, measure_lookback = 20\<rparr>),
      (''SELLERS'', \<lparr>measure_label = ''Insider sellers'', measure_filter = INSIDER_OPEN_MARKET_SALE,
        measure_aggregation = DISTINCT_ACTORS, measure_unit = COUNT, measure_lookback = 20\<rparr>),
      (''PURCHASE_VALUE'', \<lparr>measure_label = ''Insider purchase value'',
        measure_filter = INSIDER_OPEN_MARKET_PURCHASE,
        measure_aggregation = SUM_AMOUNT, measure_unit = MONEY, measure_lookback = 20\<rparr>),
      (''SALE_VALUE'', \<lparr>measure_label = ''Insider sale value'',
        measure_filter = INSIDER_OPEN_MARKET_SALE,
        measure_aggregation = SUM_AMOUNT, measure_unit = MONEY, measure_lookback = 20\<rparr>)]"

definition CONGRESS_MEASURE_DEFINITIONS :: "(string \<times> measure_definition) list" where
  "CONGRESS_MEASURE_DEFINITIONS =
     [(''PURCHASES'', \<lparr>measure_label = ''Congress purchases'', measure_filter = CONGRESS_PURCHASE,
        measure_aggregation = EVENT_COUNT, measure_unit = COUNT, measure_lookback = 30\<rparr>),
      (''SALES'', \<lparr>measure_label = ''Congress sales'', measure_filter = CONGRESS_SALE,
        measure_aggregation = EVENT_COUNT, measure_unit = COUNT, measure_lookback = 30\<rparr>),
      (''BUYERS'', \<lparr>measure_label = ''Congress buyers'', measure_filter = CONGRESS_PURCHASE,
        measure_aggregation = DISTINCT_ACTORS, measure_unit = COUNT, measure_lookback = 30\<rparr>),
      (''SELLERS'', \<lparr>measure_label = ''Congress sellers'', measure_filter = CONGRESS_SALE,
        measure_aggregation = DISTINCT_ACTORS, measure_unit = COUNT, measure_lookback = 30\<rparr>),
      (''MINIMUM_PURCHASE_VALUE'',
        \<lparr>measure_label = ''Congress minimum disclosed purchase value'',
        measure_filter = CONGRESS_PURCHASE,
        measure_aggregation = SUM_AMOUNT, measure_unit = MONEY, measure_lookback = 30\<rparr>)]"

text \<open>
  A property read from a plain object: its own entry, a property inherited from
  \<open>Object.prototype\<close> (a function or the prototype itself, always truthy), or \<open>undefined\<close>.
\<close>

datatype 'a property_read = Own 'a | Inherited | Undefined

definition OBJECT_PROTOTYPE :: "string list" where
  "OBJECT_PROTOTYPE =
     [''constructor'', ''__defineGetter__'', ''__defineSetter__'', ''hasOwnProperty'',
      ''__lookupGetter__'', ''__lookupSetter__'', ''isPrototypeOf'', ''propertyIsEnumerable'',
      ''toString'', ''valueOf'', ''__proto__'', ''toLocaleString'']"

definition read_property :: "(string \<times> 'a) list \<Rightarrow> string \<Rightarrow> 'a property_read" where
  "read_property table name =
     (case map_of table name of
        Some v \<Rightarrow> Own v
      | None \<Rightarrow> if name \<in> set OBJECT_PROTOTYPE then Inherited else Undefined)"

fun alternativeDataMeasures :: "metric_kind \<Rightarrow> string list" where
  "alternativeDataMeasures INSIDER_ACTIVITY_KIND = js_keys INSIDER_MEASURE_DEFINITIONS"
| "alternativeDataMeasures CONGRESS_ACTIVITY_KIND = js_keys CONGRESS_MEASURE_DEFINITIONS"

fun measure_table :: "metric_kind \<Rightarrow> (string \<times> measure_definition) list" where
  "measure_table INSIDER_ACTIVITY_KIND = INSIDER_MEASURE_DEFINITIONS"
| "measure_table CONGRESS_ACTIVITY_KIND = CONGRESS_MEASURE_DEFINITIONS"

definition findAlternativeDataMeasure :: "metric_kind \<Rightarrow> string \<Rightarrow> measure_definition property_read" where
  "findAlternativeDataMeasure kind name = read_property (measure_table kind) name"

subsection \<open>Metrics\<close>

record insider_metric =
  insider_measure :: string
  insider_lookback :: nat
  insider_roles :: "insider_role list option"

record congress_metric =
  congress_measure :: string
  congress_lookback :: nat
  congress_scope :: actor_scope
  congress_chamber :: chamber_filter
  congress_owners :: "congress_owner list option"

datatype alternative_metric =
  INSIDER_ACTIVITY insider_metric
| CONGRESS_ACTIVITY congress_metric

fun metric_lookback :: "alternative_metric \<Rightarrow> nat" where
  "metric_lookback (INSIDER_ACTIVITY m) = insider_lookback m"
| "metric_lookback (CONGRESS_ACTIVITY m) = congress_lookback m"

fun alternativeDataMeasureDefinition :: "alternative_metric \<Rightarrow> measure_definition property_read" where
  "alternativeDataMeasureDefinition (INSIDER_ACTIVITY m) =
     read_property INSIDER_MEASURE_DEFINITIONS (insider_measure m)"
| "alternativeDataMeasureDefinition (CONGRESS_ACTIVITY m) =
     read_property CONGRESS_MEASURE_DEFINITIONS (congress_measure m)"

definition alternativeDataSupportsScope :: "metric_kind \<Rightarrow> bool" where
  "alternativeDataSupportsScope kind \<longleftrightarrow> kind \<noteq> INSIDER_ACTIVITY_KIND"

text \<open>
  The metric built from an inherited property would have an \<open>undefined\<close> lookback, which no metric
  value represents; \<open>Inherited\<close> reports that case.
\<close>

definition defaultAlternativeDataMetric :: "metric_kind \<Rightarrow> string \<Rightarrow> alternative_metric property_read" where
  "defaultAlternativeDataMetric kind name =
     (case findAlternativeDataMeasure kind name of
        Own entry \<Rightarrow>
          (case kind of
             INSIDER_ACTIVITY_KIND \<Rightarrow> Own (INSIDER_ACTIVITY
               \<lparr>insider_measure = name, insider_lookback = measure_lookback entry,
                insider_roles = None\<rparr>)
           | CONGRESS_ACTIVITY_KIND \<Rightarrow> Own (CONGRESS_ACTIVITY
               \<lparr>congress_measure = name, congress_lookback = measure_lookback entry,
                congress_scope = ANY, congress_chamber = ANY_CHAMBER, congress_owners = None\<rparr>))
      | Inherited \<Rightarrow> Inherited
      | Undefined \<Rightarrow> Undefined)"

subsection \<open>Actor scopes\<close>

definition canonicalActorIds :: "string list \<Rightarrow> string list" where
  "canonicalActorIds actorIds = sorted_unique actorIds"

fun actorScopeActorIds :: "actor_scope \<Rightarrow> string list option" where
  "actorScopeActorIds (ACTORS actorIds) = Some (canonicalActorIds actorIds)"
| "actorScopeActorIds (ACTOR actorId) = Some [actorId]"
| "actorScopeActorIds ANY = None"
| "actorScopeActorIds (GROUP groupId) = None"

fun canonical_scope :: "actor_scope \<Rightarrow> actor_scope" where
  "canonical_scope ANY = ANY"
| "canonical_scope (GROUP groupId) = GROUP groupId"
| "canonical_scope (ACTORS actorIds) = ACTORS (canonicalActorIds actorIds)"
| "canonical_scope (ACTOR actorId) = ACTORS [actorId]"

fun buildAlternativeDataMetric :: "alternative_metric \<Rightarrow> alternative_metric" where
  "buildAlternativeDataMetric (INSIDER_ACTIVITY m) =
     INSIDER_ACTIVITY \<lparr>insider_measure = insider_measure m, insider_lookback = insider_lookback m,
       insider_roles = map_option (\<lambda>roles. filter (\<lambda>r. r \<in> set roles) INSIDER_ROLES) (insider_roles m)\<rparr>"
| "buildAlternativeDataMetric (CONGRESS_ACTIVITY m) =
     CONGRESS_ACTIVITY \<lparr>congress_measure = congress_measure m, congress_lookback = congress_lookback m,
       congress_scope = canonical_scope (congress_scope m), congress_chamber = congress_chamber m,
       congress_owners =
         map_option (\<lambda>owners. filter (\<lambda>w. w \<in> set owners) CONGRESS_OWNERS) (congress_owners m)\<rparr>"

fun alternativeDataScope :: "alternative_metric \<Rightarrow> actor_scope option" where
  "alternativeDataScope (INSIDER_ACTIVITY m) = None"
| "alternativeDataScope (CONGRESS_ACTIVITY m) = Some (congress_scope m)"

fun scope_group_ids :: "alternative_metric \<Rightarrow> string list" where
  "scope_group_ids metric =
     (case alternativeDataScope metric of Some (GROUP groupId) \<Rightarrow> [groupId] | _ \<Rightarrow> [])"

definition collectActorGroupIds :: "alternative_metric list \<Rightarrow> string list" where
  "collectActorGroupIds metrics = sorted_unique (concat (map scope_group_ids metrics))"

fun scope_actor_ids :: "alternative_metric \<Rightarrow> string list" where
  "scope_actor_ids metric =
     (case alternativeDataScope metric of
        None \<Rightarrow> []
      | Some scope \<Rightarrow> (case actorScopeActorIds scope of None \<Rightarrow> [] | Some ids \<Rightarrow> ids))"

definition collectActorIds :: "alternative_metric list \<Rightarrow> string list" where
  "collectActorIds metrics = sorted_unique (concat (map scope_actor_ids metrics))"

text \<open>\<open>/^[^\s|+]+$/\<close> on text of code points below 256.\<close>

definition isActorScopeId :: "string \<Rightarrow> bool" where
  "isActorScopeId value \<longleftrightarrow>
     value \<noteq> [] \<and> list_all (\<lambda>c. \<not> js_space c \<and> c \<noteq> CHR ''|'' \<and> c \<noteq> CHR ''+'') value"

subsection \<open>Signatures\<close>

text \<open>
  What the strategy engine throws: an actor scope that selects nobody, and an operator the engine
  does not define (\<open>UnsupportedStrategyOperatorError\<close>).
\<close>

datatype strategy_error = EmptyActorScope | UnsupportedStrategyOperator string

definition scopeSignature :: "actor_scope \<Rightarrow> strategy_error + string" where
  "scopeSignature scope =
     (case scope of
        ANY \<Rightarrow> Inr ''any''
      | GROUP groupId \<Rightarrow> Inr (''group:'' @ groupId)
      | _ \<Rightarrow>
          (case actorScopeActorIds scope of
             None \<Rightarrow> Inl EmptyActorScope
           | Some [] \<Rightarrow> Inl EmptyActorScope
           | Some [actorId] \<Rightarrow> Inr (''actor:'' @ actorId)
           | Some actorIds \<Rightarrow> Inr (''actors:'' @ js_join (CHR ''+'') actorIds)))"

fun index_of :: "'a \<Rightarrow> 'a list \<Rightarrow> int" where
  "index_of x [] = - 1"
| "index_of x (y # ys) = (if x = y then 0 else (let i = index_of x ys in if i = - 1 then - 1 else i + 1))"

definition sort_by_index :: "'a list \<Rightarrow> 'a list \<Rightarrow> 'a list" where
  "sort_by_index order xs = js_sort (\<lambda>left right. index_of left order - index_of right order) xs"

definition filter_signature :: "'a list \<Rightarrow> ('a \<Rightarrow> string) \<Rightarrow> 'a list option \<Rightarrow> string" where
  "filter_signature order text xs =
     (case xs of
        None \<Rightarrow> ''-''
      | Some xs \<Rightarrow> js_join (CHR ''+'') (map text (sort_by_index order xs)))"

fun metricSignature ::
  "(actor_scope \<Rightarrow> strategy_error + string) \<Rightarrow> alternative_metric \<Rightarrow> strategy_error + string"
where
  "metricSignature serializeScope (INSIDER_ACTIVITY m) =
     Inr (js_join (CHR ''|'')
       [''INSIDER_ACTIVITY'', insider_measure m, string_of_nat (insider_lookback m), ''-'',
        filter_signature INSIDER_ROLES role_text (insider_roles m)])"
| "metricSignature serializeScope (CONGRESS_ACTIVITY m) =
     (case serializeScope (congress_scope m) of
        Inl e \<Rightarrow> Inl e
      | Inr scope \<Rightarrow>
          Inr (js_join (CHR ''|'')
            [''CONGRESS_ACTIVITY'', congress_measure m, string_of_nat (congress_lookback m), scope,
             chamber_text (congress_chamber m),
             filter_signature CONGRESS_OWNERS owner_text (congress_owners m)]))"

definition alternativeDataMetricSignature :: "alternative_metric \<Rightarrow> strategy_error + string" where
  "alternativeDataMetricSignature metric = metricSignature scopeSignature metric"

definition read_text :: "'a list \<Rightarrow> ('a \<Rightarrow> string) \<Rightarrow> string \<Rightarrow> 'a option" where
  "read_text values text s = List.find (\<lambda>v. text v = s) values"

text \<open>\<open>lookback\<close> is read with \<open>Number\<close>, so every literal of an allowed number is accepted.\<close>

definition read_lookback :: "string \<Rightarrow> nat option" where
  "read_lookback raw =
     (let n = js_Number raw
      in List.find (\<lambda>k. js_eq (Fin (of_nat k)) n) ALTERNATIVE_DATA_LOOKBACKS)"

text \<open>\<open>filterList\<close>: absent, \<open>Inl ()\<close> for an invalid list, the list otherwise.\<close>

fun read_all :: "('b \<Rightarrow> 'a option) \<Rightarrow> 'b list \<Rightarrow> 'a list option" where
  "read_all f [] = Some []"
| "read_all f (x # xs) =
     (case f x of None \<Rightarrow> None | Some y \<Rightarrow> map_option ((#) y) (read_all f xs))"

definition filterList :: "'a list \<Rightarrow> ('a \<Rightarrow> string) \<Rightarrow> string \<Rightarrow> unit + 'a list option" where
  "filterList allowed text raw =
     (if raw = ''-'' then Inr None
      else case read_all (read_text allowed text) (js_split (CHR ''+'') raw) of
          None \<Rightarrow> Inl ()
        | Some xs \<Rightarrow> Inr (Some xs))"

definition parse_scope :: "string \<Rightarrow> actor_scope option" where
  "parse_scope rawScope =
     (if rawScope = ''any'' then Some ANY
      else if startsWith rawScope ''actor:'' then
        (let actorId = drop 6 rawScope in if actorId = [] then None else Some (ACTORS [actorId]))
      else if startsWith rawScope ''actors:'' then
        (let actorIds = js_split (CHR ''+'') (drop 7 rawScope)
         in if length actorIds < 2 \<or> length actorIds > ACTOR_SCOPE_MAX_ACTORS
               \<or> \<not> list_all isActorScopeId actorIds
               \<or> js_join (CHR ''+'') (canonicalActorIds actorIds) \<noteq> js_join (CHR ''+'') actorIds
            then None else Some (ACTORS actorIds))
      else if startsWith rawScope ''group:'' then
        (let groupId = drop 6 rawScope in if groupId = [] then None else Some (GROUP groupId))
      else None)"

definition parse_insider_parts :: "string \<Rightarrow> nat \<Rightarrow> string list \<Rightarrow> alternative_metric option" where
  "parse_insider_parts name lookback parts =
     (if length parts \<noteq> 5 \<or> parts ! 3 \<noteq> ''-'' then None
      else case filterList INSIDER_ROLES role_text (parts ! 4) of
          Inl _ \<Rightarrow> None
        | Inr roles \<Rightarrow> Some (INSIDER_ACTIVITY
            \<lparr>insider_measure = name, insider_lookback = lookback, insider_roles = roles\<rparr>))"

definition parse_congress_parts :: "string \<Rightarrow> nat \<Rightarrow> string list \<Rightarrow> alternative_metric option" where
  "parse_congress_parts name lookback parts =
     (if length parts < 4 then None
      else case parse_scope (parts ! 3) of
          None \<Rightarrow> None
        | Some scope \<Rightarrow>
            if length parts \<noteq> 6 then None
            else case read_text CONGRESS_CHAMBER_FILTERS chamber_text (parts ! 4) of
                None \<Rightarrow> None
              | Some chamber \<Rightarrow>
                  (case filterList CONGRESS_OWNERS owner_text (parts ! 5) of
                     Inl _ \<Rightarrow> None
                   | Inr owners \<Rightarrow> Some (CONGRESS_ACTIVITY
                       \<lparr>congress_measure = name, congress_lookback = lookback,
                        congress_scope = scope, congress_chamber = chamber,
                        congress_owners = owners\<rparr>)))"

definition parseAlternativeDataMetricSignature :: "string \<Rightarrow> alternative_metric option" where
  "parseAlternativeDataMetricSignature signature =
     (let parts = js_split (CHR ''|'') signature
      in if length parts < 3 then None
         else case read_text ALTERNATIVE_DATA_METRIC_KINDS kind_text (parts ! 0) of
             None \<Rightarrow> None
           | Some kind \<Rightarrow>
               if findAlternativeDataMeasure kind (parts ! 1) = Undefined then None
               else case read_lookback (parts ! 2) of
                   None \<Rightarrow> None
                 | Some lookback \<Rightarrow>
                     (case kind of
                        INSIDER_ACTIVITY_KIND \<Rightarrow> parse_insider_parts (parts ! 1) lookback parts
                      | CONGRESS_ACTIVITY_KIND \<Rightarrow> parse_congress_parts (parts ! 1) lookback parts))"

subsection \<open>Reading enumerations back\<close>

lemma find_text:
  assumes "inj_on text (set values)" "v \<in> set values"
  shows "read_text values text (text v) = Some v"
proof -
  have "(\<lambda>w. text w = text v) v" by simp
  then obtain w where w: "List.find (\<lambda>w. text w = text v) values = Some w"
    using assms(2) find_None_iff [of "\<lambda>w. text w = text v" "values"] by auto
  then have "w \<in> set values" "text w = text v"
    by (auto simp: find_Some_iff)
  with assms w show ?thesis by (auto simp: read_text_def dest: inj_onD)
qed

lemma read_all_text:
  assumes "inj_on text (set values)" "set xs \<subseteq> set values"
  shows "read_all (read_text values text) (map text xs) = Some xs"
  using assms(2) by (induction xs) (auto simp: find_text [OF assms(1)])

lemma index_of_nth: "distinct xs \<Longrightarrow> i < length xs \<Longrightarrow> index_of (xs ! i) xs = int i"
proof (induction xs arbitrary: i)
  case (Cons x xs)
  then show ?case by (cases i) (auto simp: Let_def)
qed simp

lemma map_index_of: "distinct xs \<Longrightarrow> map (\<lambda>x. index_of x xs) xs = map int [0..<length xs]"
  by (rule nth_equalityI) (simp_all add: index_of_nth)

lemma inj_index_of: "distinct xs \<Longrightarrow> inj_on (\<lambda>x. index_of x xs) (set xs)"
  by (rule inj_onI) (metis in_set_conv_nth index_of_nth of_nat_eq_iff)

lemma ascending_map_filter: "ascending (map f xs) \<Longrightarrow> ascending (map f (filter P xs))"
  by (induction xs) auto

interpretation index_order: comparator "\<lambda>left right. index_of left order - index_of right order" "\<lambda>x y. True"
  for order :: "'a list"
  by unfold_locales auto

lemma sort_by_index_filter:
  assumes "distinct order" "distinct xs" "set xs \<subseteq> set order"
  shows "sort_by_index order xs = filter (\<lambda>x. x \<in> set xs) order"
proof -
  let ?f = "\<lambda>x. index_of x order"
  let ?ys = "sort_by_index order xs" and ?zs = "filter (\<lambda>x. x \<in> set xs) order"
  have set: "set ?ys = set xs" "set ?zs = set xs" using assms(3) by (auto simp: sort_by_index_def)
  have inj: "inj_on ?f (set ?ys \<union> set ?zs)"
    using inj_index_of [OF assms(1)] assms(3) by (auto simp: set intro: inj_on_subset)
  have "sorted_wrt (\<lambda>x y. ?f x - ?f y \<le> 0) ?ys"
    unfolding sort_by_index_def
    by (rule index_order.sorted_js_sort) (induction xs, auto)
  then have "sorted (map ?f ?ys)" by (simp add: sorted_wrt_map)
  moreover have "distinct (map ?f ?ys)"
    using inj assms(2) by (simp add: distinct_map sort_by_index_def inj_on_Un)
  ultimately have ys: "ascending (map ?f ?ys)" by (simp add: strict_sorted_iff)
  have "ascending (map ?f order)"
    by (simp add: map_index_of [OF assms(1)] sorted_wrt_map)
  then have zs: "ascending (map ?f ?zs)" by (rule ascending_map_filter)
  have "map ?f ?ys = map ?f ?zs" by (rule ascending_unique [OF ys zs]) (simp only: set_map set)
  then show ?thesis by (rule map_inj_on [OF _ inj])
qed

lemma enumerations_distinct: "distinct INSIDER_ROLES" "distinct CONGRESS_OWNERS"
  by (simp_all add: INSIDER_ROLES_def CONGRESS_OWNERS_def)

lemma enumerations_complete [simp]: "set INSIDER_ROLES = UNIV" "set CONGRESS_OWNERS = UNIV"
    "set CONGRESS_CHAMBER_FILTERS = UNIV"
proof -
  have "r \<in> set INSIDER_ROLES" for r by (cases r) (simp_all add: INSIDER_ROLES_def)
  moreover have "r \<in> set CONGRESS_OWNERS" for r by (cases r) (simp_all add: CONGRESS_OWNERS_def)
  moreover have "r \<in> set CONGRESS_CHAMBER_FILTERS" for r
    by (cases r) (simp_all add: CONGRESS_CHAMBER_FILTERS_def)
  ultimately show "set INSIDER_ROLES = UNIV" "set CONGRESS_OWNERS = UNIV"
    "set CONGRESS_CHAMBER_FILTERS = UNIV" by blast+
qed

lemma enumeration_texts_inj: "inj role_text" "inj owner_text" "inj chamber_text"
proof -
  show "inj role_text"
  proof (rule injI)
    fix a b show "role_text a = role_text b \<Longrightarrow> a = b" by (cases a; cases b) simp_all
  qed
  show "inj owner_text"
  proof (rule injI)
    fix a b show "owner_text a = owner_text b \<Longrightarrow> a = b" by (cases a; cases b) simp_all
  qed
  show "inj chamber_text"
  proof (rule injI)
    fix a b show "chamber_text a = chamber_text b \<Longrightarrow> a = b" by (cases a; cases b) simp_all
  qed
qed

lemma enumeration_texts_plain:
  "CHR ''|'' \<notin> set (role_text r)" "CHR ''+'' \<notin> set (role_text r)" "role_text r \<noteq> ''-''"
  "role_text r \<noteq> []"
  "CHR ''|'' \<notin> set (owner_text w)" "CHR ''+'' \<notin> set (owner_text w)" "owner_text w \<noteq> ''-''"
  "owner_text w \<noteq> []"
  "CHR ''|'' \<notin> set (chamber_text c)"
  by (cases r; cases w; cases c; simp)+

subsection \<open>The signature reads back\<close>

definition filter_ok :: "'a list option \<Rightarrow> bool" where
  "filter_ok xs \<longleftrightarrow> (case xs of None \<Rightarrow> True | Some xs \<Rightarrow> xs \<noteq> [] \<and> distinct xs)"

fun scope_ok :: "actor_scope \<Rightarrow> bool" where
  "scope_ok ANY \<longleftrightarrow> True"
| "scope_ok (GROUP g) \<longleftrightarrow> g \<noteq> [] \<and> CHR ''|'' \<notin> set g"
| "scope_ok (ACTOR a) \<longleftrightarrow> a \<noteq> [] \<and> CHR ''|'' \<notin> set a"
| "scope_ok (ACTORS ids) \<longleftrightarrow>
     ids \<noteq> [] \<and> list_all isActorScopeId ids \<and> length (canonicalActorIds ids) \<le> ACTOR_SCOPE_MAX_ACTORS"

fun metric_ok :: "alternative_metric \<Rightarrow> bool" where
  "metric_ok (INSIDER_ACTIVITY m) \<longleftrightarrow>
     insider_measure m \<in> set (alternativeDataMeasures INSIDER_ACTIVITY_KIND) \<and>
     insider_lookback m \<in> set ALTERNATIVE_DATA_LOOKBACKS \<and> filter_ok (insider_roles m)"
| "metric_ok (CONGRESS_ACTIVITY m) \<longleftrightarrow>
     congress_measure m \<in> set (alternativeDataMeasures CONGRESS_ACTIVITY_KIND) \<and>
     congress_lookback m \<in> set ALTERNATIVE_DATA_LOOKBACKS \<and> scope_ok (congress_scope m) \<and>
     filter_ok (congress_owners m)"

lemma lookback_reads_back:
  assumes "k \<in> set ALTERNATIVE_DATA_LOOKBACKS"
  shows "read_lookback (string_of_nat k) = Some k" "CHR ''|'' \<notin> set (string_of_nat k)"
proof -
  have "list_all (\<lambda>k. read_lookback (string_of_nat k) = Some k \<and> CHR ''|'' \<notin> set (string_of_nat k))
      ALTERNATIVE_DATA_LOOKBACKS"
    by code_simp
  with assms show "read_lookback (string_of_nat k) = Some k" "CHR ''|'' \<notin> set (string_of_nat k)"
    by (auto simp: list_all_iff)
qed

lemma measures_known:
  assumes "name \<in> set (alternativeDataMeasures kind)"
  shows "findAlternativeDataMeasure kind name \<noteq> Undefined" "CHR ''|'' \<notin> set name"
proof -
  have "list_all (\<lambda>n. CHR ''|'' \<notin> set n) (alternativeDataMeasures kind)"
    by (cases kind) (simp_all add: INSIDER_MEASURE_DEFINITIONS_def CONGRESS_MEASURE_DEFINITIONS_def)
  with assms show "CHR ''|'' \<notin> set name" by (auto simp: list_all_iff)
  have "name \<in> fst ` set (measure_table kind)" using assms by (cases kind) simp_all
  then obtain d where "map_of (measure_table kind) name = Some d"
    by (meson not_Some_eq map_of_eq_None_iff)
  then show "findAlternativeDataMeasure kind name \<noteq> Undefined"
    by (simp add: findAlternativeDataMeasure_def read_property_def)
qed

lemma filterList_reads_back:
  assumes "inj label" "\<And>v. CHR ''+'' \<notin> set (label v)" "\<And>v. label v \<noteq> ''-''"
    and "distinct order" "set order = UNIV" "filter_ok xs"
  shows "filterList order label (filter_signature order label xs) =
     Inr (map_option (\<lambda>xs. filter (\<lambda>v. v \<in> set xs) order) xs)"
proof (cases xs)
  case (Some ys)
  with assms(6) have ys: "ys \<noteq> []" "distinct ys" by (simp_all add: filter_ok_def)
  let ?zs = "sort_by_index order ys"
  have zs: "?zs = filter (\<lambda>v. v \<in> set ys) order"
    using assms(4,5) ys(2) by (simp add: sort_by_index_filter)
  have ne: "map label ?zs \<noteq> []" using ys(1) by (auto simp: sort_by_index_def simp flip: set_empty)
  have split: "js_split (CHR ''+'') (js_join (CHR ''+'') (map label ?zs)) = map label ?zs"
    by (rule js_split_join [OF ne]) (use assms(2) in auto)
  have "js_join (CHR ''+'') (map label ?zs) \<noteq> ''-''"
  proof
    assume "js_join (CHR ''+'') (map label ?zs) = ''-''"
    with split have "map label ?zs = [''-'']" by (simp add: js_split_plain)
    then show False using assms(3) by (auto simp: map_eq_Cons_conv)
  qed
  then show ?thesis
    using assms(1,5) split
    by (simp add: filterList_def filter_signature_def Some zs read_all_text inj_on_subset)
qed (simp add: filterList_def filter_signature_def)

lemma filter_signature_plain:
  assumes "\<And>v. CHR ''|'' \<notin> set (label v)"
  shows "CHR ''|'' \<notin> set (filter_signature order label xs)"
proof (cases xs)
  case (Some ys)
  have "CHR ''|'' \<notin> (\<Union> (set ` set (map label (sort_by_index order ys))))"
    using assms by auto
  then show ?thesis
    using set_js_join [of "CHR ''+''" "map label (sort_by_index order ys)"]
    by (auto simp: filter_signature_def Some)
qed (simp add: filter_signature_def)

lemma actor_ids_plain:
  assumes "list_all isActorScopeId ids"
  shows "\<forall>x \<in> set ids. CHR ''+'' \<notin> set x" "\<forall>x \<in> set ids. CHR ''|'' \<notin> set x" "[] \<notin> set ids"
  using assms by (auto simp: list_all_iff isActorScopeId_def)

lemma canonicalActorIds_idem: "canonicalActorIds (canonicalActorIds ids) = canonicalActorIds ids"
  by (simp add: canonicalActorIds_def ascending_unique)

lemma scope_reads_back:
  assumes "scope_ok scope"
  shows "\<exists>text. scopeSignature scope = Inr text \<and> parse_scope text = Some (canonical_scope scope)
    \<and> CHR ''|'' \<notin> set text"
proof (cases scope)
  case (ACTORS ids)
  let ?ids = "canonicalActorIds ids"
  have ok: "list_all isActorScopeId ?ids" "length ?ids \<le> ACTOR_SCOPE_MAX_ACTORS" "?ids \<noteq> []"
    using assms ACTORS by (auto simp: canonicalActorIds_def list_all_iff simp flip: set_empty)
  note plain = actor_ids_plain [OF ok(1)]
  show ?thesis
  proof (cases "tl ?ids = []")
    case True
    with ok(3) obtain a where a: "?ids = [a]" by (cases ?ids) auto
    with plain have "a \<noteq> []" "CHR ''|'' \<notin> set a" by auto
    then show ?thesis
      by (simp add: ACTORS scopeSignature_def a parse_scope_def startsWith_code)
  next
    case False
    with ok(3) obtain a b xs where abx: "?ids = a # b # xs" by (cases ?ids; cases "tl ?ids") auto
    have sp: "js_split (CHR ''+'') (js_join (CHR ''+'') ?ids) = ?ids"
      using ok(3) plain(1) by (rule js_split_join)
    have "CHR ''|'' \<notin> set (js_join (CHR ''+'') ?ids)"
      using set_js_join [of "CHR ''+''" ?ids] plain(2) by auto
    moreover have "scopeSignature scope = Inr (''actors:'' @ js_join (CHR ''+'') ?ids)"
      by (simp add: ACTORS scopeSignature_def abx)
    moreover have "parse_scope (''actors:'' @ js_join (CHR ''+'') ?ids) = Some (ACTORS ?ids)"
      using ok sp canonicalActorIds_idem [of ids] abx
      by (simp add: parse_scope_def startsWith_code Let_def)
    ultimately show ?thesis by (simp add: ACTORS)
  qed
qed (use assms in \<open>auto simp: scopeSignature_def parse_scope_def startsWith_code\<close>)

text \<open>
  C19. An alternative-data metric survives its signature: every metric built from the catalog prints
  a signature, and parsing that signature returns the metric in the canonical form that
  \<open>buildAlternativeDataMetric\<close> gives it.
\<close>

theorem signature_roundtrip:
  assumes "metric_ok m"
  shows "\<exists>signature. alternativeDataMetricSignature m = Inr signature \<and>
    parseAlternativeDataMetricSignature signature = Some (buildAlternativeDataMetric m)"
proof (cases m)
  case (INSIDER_ACTIVITY i)
  let ?parts = "[''INSIDER_ACTIVITY'', insider_measure i, string_of_nat (insider_lookback i), ''-'',
        filter_signature INSIDER_ROLES role_text (insider_roles i)]"
  have ok: "insider_measure i \<in> set (alternativeDataMeasures INSIDER_ACTIVITY_KIND)"
      "insider_lookback i \<in> set ALTERNATIVE_DATA_LOOKBACKS" "filter_ok (insider_roles i)"
    using assms INSIDER_ACTIVITY by auto
  have split: "js_split (CHR ''|'') (js_join (CHR ''|'') ?parts) = ?parts"
    using measures_known(2) [OF ok(1)] lookback_reads_back(2) [OF ok(2)]
      filter_signature_plain [of role_text, OF enumeration_texts_plain(1)]
    by (intro js_split_join) auto
  have kind: "read_text ALTERNATIVE_DATA_METRIC_KINDS kind_text ''INSIDER_ACTIVITY'' =
      Some INSIDER_ACTIVITY_KIND"
    by code_simp
  show ?thesis
    using measures_known(1) [OF ok(1)] lookback_reads_back(1) [OF ok(2)] kind
      filterList_reads_back [of role_text, OF enumeration_texts_inj(1) enumeration_texts_plain(2,3)
        enumerations_distinct(1) enumerations_complete(1) ok(3)]
    by (simp add: INSIDER_ACTIVITY alternativeDataMetricSignature_def Let_def
        parseAlternativeDataMetricSignature_def split parse_insider_parts_def
        del: js_join.simps)
next
  case (CONGRESS_ACTIVITY c)
  have ok: "congress_measure c \<in> set (alternativeDataMeasures CONGRESS_ACTIVITY_KIND)"
      "congress_lookback c \<in> set ALTERNATIVE_DATA_LOOKBACKS" "scope_ok (congress_scope c)"
      "filter_ok (congress_owners c)"
    using assms CONGRESS_ACTIVITY by auto
  from scope_reads_back [OF ok(3)] obtain scope where scope: "scopeSignature (congress_scope c) = Inr scope"
    "parse_scope scope = Some (canonical_scope (congress_scope c))" "CHR ''|'' \<notin> set scope" by blast
  let ?parts = "[''CONGRESS_ACTIVITY'', congress_measure c, string_of_nat (congress_lookback c), scope,
        chamber_text (congress_chamber c),
        filter_signature CONGRESS_OWNERS owner_text (congress_owners c)]"
  have split: "js_split (CHR ''|'') (js_join (CHR ''|'') ?parts) = ?parts"
    using measures_known(2) [OF ok(1)] lookback_reads_back(2) [OF ok(2)] scope(3)
      filter_signature_plain [of owner_text, OF enumeration_texts_plain(5)]
      enumeration_texts_plain(9) [of "congress_chamber c"]
    by (intro js_split_join) auto
  have kind: "read_text ALTERNATIVE_DATA_METRIC_KINDS kind_text ''CONGRESS_ACTIVITY'' =
      Some CONGRESS_ACTIVITY_KIND"
    by code_simp
  show ?thesis
    using measures_known(1) [OF ok(1)] lookback_reads_back(1) [OF ok(2)] kind scope(2)
      find_text [of chamber_text CONGRESS_CHAMBER_FILTERS "congress_chamber c"] enumeration_texts_inj(3)
      filterList_reads_back [of owner_text, OF enumeration_texts_inj(2) enumeration_texts_plain(6,7)
        enumerations_distinct(2) enumerations_complete(2) ok(4)]
    by (simp add: CONGRESS_ACTIVITY alternativeDataMetricSignature_def Let_def scope(1)
        parseAlternativeDataMetricSignature_def split parse_congress_parts_def
        del: js_join.simps)
qed

theorem signature_roundtrip_witness:
  "\<exists>signature. alternativeDataMetricSignature (CONGRESS_ACTIVITY
      \<lparr>congress_measure = ''SALES'', congress_lookback = 30, congress_scope = ACTORS [''b2'', ''a1'', ''b2''],
       congress_chamber = SENATE, congress_owners = Some [JOINT, SELF]\<rparr>) = Inr signature \<and>
    parseAlternativeDataMetricSignature signature = Some (CONGRESS_ACTIVITY
      \<lparr>congress_measure = ''SALES'', congress_lookback = 30, congress_scope = ACTORS [''a1'', ''b2''],
       congress_chamber = SENATE, congress_owners = Some [SELF, JOINT]\<rparr>)"
proof -
  let ?m = "CONGRESS_ACTIVITY
      \<lparr>congress_measure = ''SALES'', congress_lookback = 30, congress_scope = ACTORS [''b2'', ''a1'', ''b2''],
       congress_chamber = SENATE, congress_owners = Some [JOINT, SELF]\<rparr>"
  have "metric_ok ?m" by code_simp
  from signature_roundtrip [OF this]
  have "\<exists>signature. alternativeDataMetricSignature ?m = Inr signature \<and>
    parseAlternativeDataMetricSignature signature = Some (buildAlternativeDataMetric ?m)" .
  moreover have "buildAlternativeDataMetric ?m = CONGRESS_ACTIVITY
      \<lparr>congress_measure = ''SALES'', congress_lookback = 30, congress_scope = ACTORS [''a1'', ''b2''],
       congress_chamber = SENATE, congress_owners = Some [SELF, JOINT]\<rparr>"
    by code_simp
  ultimately show ?thesis by simp
qed


end
