(* ===== verification/Strategies.thy ===== *)
theory Strategies
  imports AltMetrics Catalogs
begin

section \<open>Strategy documents\<close>

text \<open>
  The strategy document of \<open>packages/contracts/src/strategies.ts\<close>: metrics and their source,
  comparison values, conditions, triggers, signals, levels and the definition that holds them,
  with the accessors and collectors the engine uses. A stored document is executed without being
  revalidated, so an operator is an open vocabulary: the known ones and any other text.
\<close>

subsection \<open>Metrics and values\<close>

datatype metric_source = ETF string | STOCK_SECTOR

datatype strategy_metric =
  PRICE "metric_source option"
| MOVING_AVERAGE string "metric_source option"
| OSCILLATOR string "metric_source option"
| RELATIVE_VOLUME nat "metric_source option"
| MARGIN_OF_SAFETY string
| VALUATION_RATIO string
| FUNDAMENTAL string
| GAIN
| LOSS
| ALTERNATIVE_DATA alternative_metric

datatype strategy_value =
  SERIES string
| NUMBER jsnum
| PERCENT jsnum
| MULTIPLE jsnum
| MONEY_VALUE jsnum

datatype condition_operator = IS_ABOVE | IS_BELOW | IS_CLOSE_TO | OTHER_CONDITION string
datatype trigger_operator = CROSSES_ABOVE | CROSSES_BELOW | OTHER_TRIGGER string

definition RELATIVE_VOLUME_PERIODS :: "nat list" where
  "RELATIVE_VOLUME_PERIODS = [10, 20, 50]"

definition IS_CLOSE_TO_TOLERANCE :: jsnum where
  "IS_CLOSE_TO_TOLERANCE = binary64 (2 / 100)"

definition relativeVolumeLabel :: "nat \<Rightarrow> string" where
  "relativeVolumeLabel period = ''RVOL '' @ string_of_nat period"

fun strategyMetricSourceKey :: "metric_source option \<Rightarrow> string" where
  "strategyMetricSourceKey None = ''STOCK''"
| "strategyMetricSourceKey (Some (ETF code)) = ''ETF:'' @ code"
| "strategyMetricSourceKey (Some STOCK_SECTOR) = ''STOCK_SECTOR''"

fun strategyMetricSource :: "strategy_metric \<Rightarrow> metric_source option" where
  "strategyMetricSource (PRICE source) = source"
| "strategyMetricSource (MOVING_AVERAGE _ source) = source"
| "strategyMetricSource (OSCILLATOR _ source) = source"
| "strategyMetricSource (RELATIVE_VOLUME _ source) = source"
| "strategyMetricSource _ = None"

fun withoutMetricSource :: "strategy_metric \<Rightarrow> strategy_metric" where
  "withoutMetricSource (PRICE _) = PRICE None"
| "withoutMetricSource (MOVING_AVERAGE seriesId _) = MOVING_AVERAGE seriesId None"
| "withoutMetricSource (OSCILLATOR seriesId _) = OSCILLATOR seriesId None"
| "withoutMetricSource (RELATIVE_VOLUME period _) = RELATIVE_VOLUME period None"
| "withoutMetricSource metric = metric"

lemma withoutMetricSource_source [simp]: "strategyMetricSource (withoutMetricSource m) = None"
  by (cases m) auto

lemma withoutMetricSource_id: "strategyMetricSource m = None \<Longrightarrow> withoutMetricSource m = m"
  by (cases m) auto

fun asAlternativeDataMetric :: "strategy_metric \<Rightarrow> alternative_metric option" where
  "asAlternativeDataMetric (ALTERNATIVE_DATA metric) = Some metric"
| "asAlternativeDataMetric _ = None"

fun strategyMetricSeriesId :: "strategy_metric \<Rightarrow> string option" where
  "strategyMetricSeriesId (MOVING_AVERAGE seriesId _) = Some seriesId"
| "strategyMetricSeriesId (OSCILLATOR seriesId _) = Some seriesId"
| "strategyMetricSeriesId (MARGIN_OF_SAFETY sourceId) = Some sourceId"
| "strategyMetricSeriesId _ = None"

definition metric_key_prefix :: "strategy_metric \<Rightarrow> string" where
  "metric_key_prefix metric =
     (case strategyMetricSource metric of
        None \<Rightarrow> []
      | Some (ETF code) \<Rightarrow> ''ETF('' @ code @ '')|''
      | Some STOCK_SECTOR \<Rightarrow> ''STOCK_SECTOR|'')"

fun strategyMetricKey :: "strategy_metric \<Rightarrow> string" where
  "strategyMetricKey (ALTERNATIVE_DATA (INSIDER_ACTIVITY m)) = ''INSIDER_ACTIVITY:'' @ insider_measure m"
| "strategyMetricKey (ALTERNATIVE_DATA (CONGRESS_ACTIVITY m)) = ''CONGRESS_ACTIVITY:'' @ congress_measure m"
| "strategyMetricKey (RELATIVE_VOLUME period source) =
     metric_key_prefix (RELATIVE_VOLUME period source) @ ''RELATIVE_VOLUME:'' @ string_of_nat period"
| "strategyMetricKey (FUNDAMENTAL metricId) = ''FUNDAMENTAL:'' @ metricId"
| "strategyMetricKey (VALUATION_RATIO ratioId) = ''VALUATION_RATIO:'' @ ratioId"
| "strategyMetricKey (MOVING_AVERAGE seriesId source) =
     metric_key_prefix (MOVING_AVERAGE seriesId source) @ ''MOVING_AVERAGE:'' @ seriesId"
| "strategyMetricKey (OSCILLATOR seriesId source) =
     metric_key_prefix (OSCILLATOR seriesId source) @ ''OSCILLATOR:'' @ seriesId"
| "strategyMetricKey (MARGIN_OF_SAFETY sourceId) = ''MARGIN_OF_SAFETY:'' @ sourceId"
| "strategyMetricKey (PRICE source) = metric_key_prefix (PRICE source) @ ''PRICE:''"
| "strategyMetricKey GAIN = ''GAIN:''"
| "strategyMetricKey LOSS = ''LOSS:''"

subsection \<open>Signals, levels and the definition\<close>

record strategy_condition =
  condition_id :: string
  condition_metric :: strategy_metric
  condition_operator :: condition_operator
  condition_value :: strategy_value

record strategy_trigger =
  trigger_id :: string
  trigger_metric :: strategy_metric
  trigger_operator :: trigger_operator
  trigger_value :: strategy_value

record strategy_signal =
  conditions :: "strategy_condition list"
  trigger :: "strategy_trigger option"

record strategy_level =
  level_id :: string
  level_signal :: strategy_signal
  percentage :: nat

record strategy_exit_rule =
  rule_id :: string
  rule_signal :: strategy_signal

record strategy_final_exit =
  exit_id :: string
  exit_rules :: "strategy_exit_rule list"

record strategy_definition =
  schemaVersion :: nat
  buyLevels :: "strategy_level list"
  sellLevels :: "strategy_level list"
  finalExit :: "strategy_final_exit option"

definition emptyStrategyDefinition :: strategy_definition where
  "emptyStrategyDefinition = \<lparr>schemaVersion = 2, buyLevels = [], sellLevels = [], finalExit = None\<rparr>"

definition final_exit_rules :: "strategy_definition \<Rightarrow> strategy_exit_rule list" where
  "final_exit_rules definition =
     (case finalExit definition of None \<Rightarrow> [] | Some exit \<Rightarrow> exit_rules exit)"

definition definition_signals :: "strategy_definition \<Rightarrow> strategy_signal list" where
  "definition_signals definition =
     map level_signal (buyLevels definition) @ map level_signal (sellLevels definition)
     @ map rule_signal (final_exit_rules definition)"

text \<open>A predicate is a condition or a trigger; walkers visit a signal's trigger last.\<close>

datatype predicate = Condition strategy_condition | Trigger strategy_trigger

fun predicate_metric :: "predicate \<Rightarrow> strategy_metric" where
  "predicate_metric (Condition c) = condition_metric c"
| "predicate_metric (Trigger t) = trigger_metric t"

fun predicate_value :: "predicate \<Rightarrow> strategy_value" where
  "predicate_value (Condition c) = condition_value c"
| "predicate_value (Trigger t) = trigger_value t"

definition signal_predicates :: "strategy_signal \<Rightarrow> predicate list" where
  "signal_predicates signal =
     map Condition (conditions signal)
     @ (case trigger signal of None \<Rightarrow> [] | Some t \<Rightarrow> [Trigger t])"

definition walkPredicates :: "strategy_definition \<Rightarrow> predicate list" where
  "walkPredicates definition = concat (map signal_predicates (definition_signals definition))"

lemma set_walkPredicates:
  "set (walkPredicates d) = (\<Union>s \<in> set (definition_signals d). set (signal_predicates s))"
  by (simp add: walkPredicates_def)

definition collectAlternativeDataMetrics :: "strategy_definition \<Rightarrow> alternative_metric list" where
  "collectAlternativeDataMetrics definition =
     List.map_filter (\<lambda>p. asAlternativeDataMetric (predicate_metric p)) (walkPredicates definition)"

fun source_etf_code :: "metric_source option \<Rightarrow> string option" where
  "source_etf_code (Some (ETF code)) = Some code"
| "source_etf_code _ = None"

definition collectStrategyEtfSources :: "strategy_definition \<Rightarrow> string list" where
  "collectStrategyEtfSources definition =
     (let named = List.map_filter (\<lambda>p. source_etf_code (strategyMetricSource (predicate_metric p)))
        (walkPredicates definition)
      in map etf_code (filter (\<lambda>etf. etf_code etf \<in> set named) STRATEGY_ETF_SOURCES))"

definition strategyReadsStockSector :: "strategy_definition \<Rightarrow> bool" where
  "strategyReadsStockSector definition \<longleftrightarrow>
     list_ex (\<lambda>p. strategyMetricSource (predicate_metric p) = Some STOCK_SECTOR)
       (walkPredicates definition)"

end
