(* ===== verification/Operands.thy ===== *)
theory Operands
  imports Strategies
begin

section \<open>Operand keys\<close>

text \<open>
  \<open>packages/strategy/src/operands.ts\<close> and the operand half of \<open>alternative-data.ts\<close>: the key a
  metric or a comparison value resolves to, the keys of the ETF and sector forms, and the three
  collectors that tell the frame builder which columns a strategy reads.
\<close>

subsection \<open>Keys and their inverses\<close>

definition PRICE_OPERAND :: operand_key where
  "PRICE_OPERAND = ''price''"

definition seriesOperand :: "string \<Rightarrow> operand_key" where
  "seriesOperand seriesId = ''series:'' @ seriesId"

definition operandSeriesId :: "operand_key \<Rightarrow> string option" where
  "operandSeriesId key = (if startsWith key ''series:'' then Some (drop 7 key) else None)"

definition relativeVolumeOperand :: "nat \<Rightarrow> operand_key" where
  "relativeVolumeOperand period = ''relative-volume:'' @ string_of_nat period"

definition operandRelativeVolumePeriod :: "operand_key \<Rightarrow> nat option" where
  "operandRelativeVolumePeriod key =
     (if \<not> startsWith key ''relative-volume:'' then None
      else let period = js_Number (drop 16 key)
        in List.find (\<lambda>p. js_eq (Fin (of_nat p)) period) RELATIVE_VOLUME_PERIODS)"

definition fundamentalMetricOperand :: "string \<Rightarrow> operand_key" where
  "fundamentalMetricOperand metricId = ''fundamental:'' @ metricId"

definition operandFundamentalMetricId :: "operand_key \<Rightarrow> string option" where
  "operandFundamentalMetricId key =
     (if \<not> startsWith key ''fundamental:'' then None
      else let metricId = drop 12 key in if isFundamentalMetricId metricId then Some metricId else None)"

definition valuationRatioOperand :: "string \<Rightarrow> operand_key" where
  "valuationRatioOperand ratioId = ''valuation:'' @ ratioId"

definition operandValuationRatioId :: "operand_key \<Rightarrow> string option" where
  "operandValuationRatioId key =
     (if \<not> startsWith key ''valuation:'' then None
      else let ratioId = drop 10 key in if isValuationRatioId ratioId then Some ratioId else None)"

definition etfOperand :: "string \<Rightarrow> operand_key \<Rightarrow> operand_key" where
  "etfOperand code base = ''etf:'' @ code @ '':'' @ base"

text \<open>The position of the first \<open>:\<close>, or -1.\<close>

definition index_of_colon :: "string \<Rightarrow> int" where
  "index_of_colon s = index_of (CHR '':'') s"

definition decodeEtfOperand :: "operand_key \<Rightarrow> (string \<times> operand_key) option" where
  "decodeEtfOperand key =
     (if \<not> startsWith key ''etf:'' then None
      else
        (let rest = drop 4 key; separator = index_of_colon rest
         in if separator \<le> 0 then None
            else
              (let code = take (nat separator) rest; base = drop (nat separator + 1) rest
               in if \<not> isStrategyEtfSourceCode code \<or> base = [] then None else Some (code, base))))"

definition isEtfOperand :: "operand_key \<Rightarrow> bool" where
  "isEtfOperand key = startsWith key ''etf:''"

definition sectorOperand :: "operand_key \<Rightarrow> operand_key" where
  "sectorOperand base = ''sector:'' @ base"

definition decodeSectorOperand :: "operand_key \<Rightarrow> operand_key option" where
  "decodeSectorOperand key =
     (if \<not> startsWith key ''sector:'' then None
      else let base = drop 7 key in if base = [] then None else Some base)"

definition isSectorOperand :: "operand_key \<Rightarrow> bool" where
  "isSectorOperand key = startsWith key ''sector:''"

fun sourcedOperand :: "operand_key \<Rightarrow> metric_source option \<Rightarrow> operand_key" where
  "sourcedOperand base None = base"
| "sourcedOperand base (Some (ETF code)) = etfOperand code base"
| "sourcedOperand base (Some STOCK_SECTOR) = sectorOperand base"

definition marginOfSafetyOperand :: "string \<Rightarrow> operand_key" where
  "marginOfSafetyOperand sourceId = ''margin-of-safety:'' @ sourceId"

definition alternativeDataOperand :: "alternative_metric \<Rightarrow> strategy_error + operand_key" where
  "alternativeDataOperand metric =
     result_map (\<lambda>signature. ''alt:'' @ signature) (alternativeDataMetricSignature metric)"

definition operandAlternativeDataMetric :: "operand_key \<Rightarrow> alternative_metric option" where
  "operandAlternativeDataMetric key =
     (if \<not> startsWith key ''alt:'' then None else parseAlternativeDataMetricSignature (drop 4 key))"

definition alternativeDataMetricOperand :: "strategy_metric \<Rightarrow> strategy_error + operand_key option" where
  "alternativeDataMetricOperand metric =
     (case asAlternativeDataMetric metric of
        None \<Rightarrow> Inr None
      | Some alternative \<Rightarrow> result_map Some (alternativeDataOperand alternative))"

definition operandsReadStatements :: "operand_key list \<Rightarrow> bool" where
  "operandsReadStatements operands =
     list_ex
       (\<lambda>key.
          startsWith key ''margin-of-safety:'' \<or> operandFundamentalMetricId key \<noteq> None
          \<or> operandValuationRatioId key \<noteq> None
          \<or> (case operandSeriesId key of
               None \<Rightarrow> False
             | Some [] \<Rightarrow> False
             | Some seriesId \<Rightarrow>
                 (case findSelectableSeries seriesId of
                    None \<Rightarrow> False
                  | Some entry \<Rightarrow> is_intrinsic_value (series_source entry))))
       operands"

fun isPositionDependentMetric :: "strategy_metric \<Rightarrow> bool" where
  "isPositionDependentMetric GAIN = True"
| "isPositionDependentMetric LOSS = True"
| "isPositionDependentMetric _ = False"

function metricOperand :: "strategy_metric \<Rightarrow> strategy_error + operand_key option" where
  "metricOperand metric =
     (case strategyMetricSource metric of
        Some source \<Rightarrow>
          result_map (map_option (\<lambda>base. sourcedOperand base (Some source)))
            (metricOperand (withoutMetricSource metric))
      | None \<Rightarrow>
          (case metric of
             PRICE _ \<Rightarrow> Inr (Some PRICE_OPERAND)
           | MOVING_AVERAGE seriesId _ \<Rightarrow> Inr (Some (seriesOperand seriesId))
           | OSCILLATOR seriesId _ \<Rightarrow> Inr (Some (seriesOperand seriesId))
           | RELATIVE_VOLUME period _ \<Rightarrow> Inr (Some (relativeVolumeOperand period))
           | MARGIN_OF_SAFETY sourceId \<Rightarrow> Inr (Some (marginOfSafetyOperand sourceId))
           | FUNDAMENTAL metricId \<Rightarrow> Inr (Some (fundamentalMetricOperand metricId))
           | VALUATION_RATIO ratioId \<Rightarrow> Inr (Some (valuationRatioOperand ratioId))
           | ALTERNATIVE_DATA _ \<Rightarrow> alternativeDataMetricOperand metric
           | GAIN \<Rightarrow> Inr None
           | LOSS \<Rightarrow> Inr None))"
  by auto
termination
  by (relation "measure (\<lambda>m. if strategyMetricSource m = None then 0 else 1)") auto

declare metricOperand.simps [simp del]

fun valueOperand :: "strategy_value \<Rightarrow> metric_source option \<Rightarrow> operand_key option" where
  "valueOperand (SERIES seriesId) source = Some (sourcedOperand (seriesOperand seriesId) source)"
| "valueOperand _ source = None"

subsection \<open>Collectors\<close>

text \<open>A key is added when it is truthy: neither \<open>null\<close> nor the empty string.\<close>

definition truthy_key :: "operand_key option \<Rightarrow> operand_key list" where
  "truthy_key key = (case key of None \<Rightarrow> [] | Some k \<Rightarrow> if k = [] then [] else [k])"

definition predicate_keys ::
  "(metric_source option \<Rightarrow> bool) \<Rightarrow> predicate \<Rightarrow> strategy_error + operand_key list"
where
  "predicate_keys wanted p =
     (let source = strategyMetricSource (predicate_metric p)
      in if \<not> wanted source then Inr []
         else result_map (\<lambda>key. truthy_key key @ truthy_key (valueOperand (predicate_value p) source))
           (metricOperand (predicate_metric p)))"

definition collect_keys ::
  "(metric_source option \<Rightarrow> bool) \<Rightarrow> strategy_definition \<Rightarrow> strategy_error + operand_key list"
where
  "collect_keys wanted definition =
     result_map concat (result_all (predicate_keys wanted) (walkPredicates definition))"

definition collectOperands :: "strategy_definition \<Rightarrow> strategy_error + operand_key list" where
  "collectOperands definition =
     result_map (\<lambda>keys. sorted_unique (PRICE_OPERAND # keys))
       (collect_keys (\<lambda>source. source = None) definition)"

text \<open>
  \<open>byCode\<close> gets an entry for every ETF a predicate names. \<open>localeCompare\<close> orders the catalog's
  codes, upper case letters, digits and underscores, like their code units.
\<close>

fun add_etf_keys ::
  "predicate list \<Rightarrow> (string \<times> operand_key list) list \<Rightarrow> strategy_error + (string \<times> operand_key list) list"
where
  "add_etf_keys [] byCode = Inr byCode"
| "add_etf_keys (p # ps) byCode =
     (case strategyMetricSource (predicate_metric p) of
        Some (ETF code) \<Rightarrow>
          (let keys = (case map_of byCode code of None \<Rightarrow> [] | Some keys \<Rightarrow> keys)
           in result_bind (metricOperand (predicate_metric p)) (\<lambda>metric.
                add_etf_keys ps
                  (js_map_set code
                    (keys @ truthy_key metric
                      @ truthy_key (valueOperand (predicate_value p) (Some (ETF code)))) byCode)))
      | _ \<Rightarrow> add_etf_keys ps byCode)"

definition compare_codes :: "string \<times> 'a \<Rightarrow> string \<times> 'a \<Rightarrow> int" where
  "compare_codes left right = (if fst left < fst right then - 1 else if fst left = fst right then 0 else 1)"

definition collectEtfOperands ::
  "strategy_definition \<Rightarrow> strategy_error + (string \<times> operand_key list) list"
where
  "collectEtfOperands definition =
     result_map (\<lambda>byCode. map (\<lambda>(code, keys). (code, sorted_unique keys)) (js_sort compare_codes byCode))
       (add_etf_keys (walkPredicates definition) [])"

definition collectSectorOperands :: "strategy_definition \<Rightarrow> strategy_error + operand_key list" where
  "collectSectorOperands definition =
     result_map sorted_unique (collect_keys (\<lambda>source. source = Some STOCK_SECTOR) definition)"

subsection \<open>Alternative-data requests\<close>

definition requiredAlternativeDataLeadingSessions :: "operand_key list \<Rightarrow> nat" where
  "requiredAlternativeDataLeadingSessions operands =
     foldl
       (\<lambda>sessions key.
          case operandAlternativeDataMetric key of
            None \<Rightarrow> sessions
          | Some metric \<Rightarrow> max sessions (metric_lookback metric))
       0 operands"

definition alternativeDataRequests :: "operand_key list \<Rightarrow> (operand_key \<times> alternative_metric) list" where
  "alternativeDataRequests operands =
     List.map_filter (\<lambda>key. map_option (Pair key) (operandAlternativeDataMetric key)) operands"

subsection \<open>Decoding inverts encoding\<close>

lemma index_of_takeWhile:
  "index_of x xs = (if x \<in> set xs then int (length (takeWhile (\<lambda>y. y \<noteq> x) xs)) else - 1)"
  by (induction xs) (auto simp: Let_def)

lemma takeWhile_until: "x \<notin> set xs \<Longrightarrow> takeWhile (\<lambda>y. y \<noteq> x) (xs @ x # ys) = xs"
  by (induction xs) auto

lemma decodeEtfOperand_iff:
  "decodeEtfOperand key = Some (code, base) \<longleftrightarrow>
     key = etfOperand code base \<and> isStrategyEtfSourceCode code \<and> base \<noteq> []"
proof
  assume key: "key = etfOperand code base \<and> isStrategyEtfSourceCode code \<and> base \<noteq> []"
  with etf_code_plain [of code] show "decodeEtfOperand key = Some (code, base)"
    by (simp add: decodeEtfOperand_def etfOperand_def startsWith_code index_of_colon_def Let_def
        index_of_takeWhile takeWhile_until)
next
  assume dec: "decodeEtfOperand key = Some (code, base)"
  define rest where "rest = drop 4 key"
  let ?w = "takeWhile (\<lambda>y. y \<noteq> CHR '':'') rest"
  have tk: "take (length ?w) rest = ?w" by (rule takeWhile_eq_take [symmetric])
  from dec have pre: "startsWith key ''etf:''" and colon: "CHR '':'' \<in> set rest"
    and code: "code = ?w" and base: "base = drop (length ?w + 1) rest"
    and ok: "isStrategyEtfSourceCode code" "base \<noteq> []"
    by (auto simp: decodeEtfOperand_def rest_def [symmetric] index_of_colon_def Let_def
        index_of_takeWhile tk split: if_splits)
  have "rest = ?w @ dropWhile (\<lambda>y. y \<noteq> CHR '':'') rest" by simp
  moreover have "dropWhile (\<lambda>y. y \<noteq> CHR '':'') rest = CHR '':'' # base"
  proof -
    have "dropWhile (\<lambda>y. y \<noteq> CHR '':'') rest \<noteq> []" using colon by simp
    then obtain c r where cr: "dropWhile (\<lambda>y. y \<noteq> CHR '':'') rest = c # r"
      by (meson neq_Nil_conv)
    then have "c = CHR '':''" using hd_dropWhile [of "\<lambda>y. y \<noteq> CHR '':''" rest] by auto
    moreover have "base = r" using cr unfolding base dropWhile_eq_drop
      by (metis drop_drop drop_Suc_Cons drop0 Suc_eq_plus1_left add.commute plus_1_eq_Suc)
    ultimately show ?thesis using cr by simp
  qed
  ultimately have "rest = code @ CHR '':'' # base" using code by simp
  moreover have "key = ''etf:'' @ rest"
    using startsWith_drop [OF pre] by (simp add: rest_def numeral_eq_Suc)
  ultimately show "key = etfOperand code base \<and> isStrategyEtfSourceCode code \<and> base \<noteq> []"
    using ok by (simp add: etfOperand_def)
qed

lemma decodeSectorOperand_iff:
  "decodeSectorOperand key = Some base \<longleftrightarrow> key = sectorOperand base \<and> base \<noteq> []"
  by (auto simp: decodeSectorOperand_def sectorOperand_def startsWith_iff Let_def split: if_splits)

text \<open>
  C31. The ETF form of an operand key is faithful: decoding accepts exactly the keys that encode a
  catalog fund and a non-empty base, and returns the fund and the base that were encoded.
\<close>

theorem decode_etf_exact:
  "decodeEtfOperand key = Some (code, base) \<longleftrightarrow>
     etfOperand code base = key \<and> findStrategyEtfSource code \<noteq> None \<and> base \<noteq> []"
proof -
  have "findStrategyEtfSource code \<noteq> None \<longleftrightarrow> isStrategyEtfSourceCode code"
    by (auto simp: findStrategyEtfSource_def isStrategyEtfSourceCode_def map_of_eq_None_iff
        rev_map [symmetric] image_image)
  then show ?thesis by (auto simp: decodeEtfOperand_iff)
qed

subsection \<open>The collectors are complete\<close>

text \<open>A predicate reads the operand of its metric and, for a series value, the value's operand.\<close>

definition reads_key :: "predicate \<Rightarrow> operand_key \<Rightarrow> bool" where
  "reads_key p key \<longleftrightarrow>
     metricOperand (predicate_metric p) = Inr (Some key)
     \<or> valueOperand (predicate_value p) (strategyMetricSource (predicate_metric p)) = Some key"

lemma sourcedOperand_not_Nil: "base \<noteq> [] \<Longrightarrow> sourcedOperand base source \<noteq> []"
  by (cases "(base, source)" rule: sourcedOperand.cases) (auto simp: etfOperand_def sectorOperand_def)

lemma metricOperand_sourced:
  "strategyMetricSource m = Some source \<Longrightarrow>
     metricOperand m = result_map (map_option (\<lambda>base. sourcedOperand base (Some source)))
       (metricOperand (withoutMetricSource m))"
  by (subst metricOperand.simps) simp

lemma metricOperand_own:
  "metricOperand (PRICE None) = Inr (Some PRICE_OPERAND)"
  "metricOperand (MOVING_AVERAGE name None) = Inr (Some (seriesOperand name))"
  "metricOperand (OSCILLATOR name None) = Inr (Some (seriesOperand name))"
  "metricOperand (RELATIVE_VOLUME period None) = Inr (Some (relativeVolumeOperand period))"
  "metricOperand (MARGIN_OF_SAFETY name) = Inr (Some (marginOfSafetyOperand name))"
  "metricOperand (FUNDAMENTAL name) = Inr (Some (fundamentalMetricOperand name))"
  "metricOperand (VALUATION_RATIO name) = Inr (Some (valuationRatioOperand name))"
  "metricOperand (ALTERNATIVE_DATA a) = alternativeDataMetricOperand (ALTERNATIVE_DATA a)"
  "metricOperand GAIN = Inr None" "metricOperand LOSS = Inr None"
  by (subst metricOperand.simps; simp)+

lemmas operand_texts = PRICE_OPERAND_def seriesOperand_def relativeVolumeOperand_def
  marginOfSafetyOperand_def fundamentalMetricOperand_def valuationRatioOperand_def

text \<open>The key of a metric without a source starts with the prefix of its kind.\<close>

lemma metricOperand_own_key:
  assumes "strategyMetricSource m = None" "metricOperand m = Inr (Some key)"
  shows "key \<noteq> [] \<and> \<not> isEtfOperand key \<and> \<not> isSectorOperand key"
  using assms
  by (cases m)
    (auto simp: metricOperand_own operand_texts isEtfOperand_def isSectorOperand_def startsWith_code
      alternativeDataMetricOperand_def alternativeDataOperand_def result_map_Inr_iff)

lemma metricOperand_not_Nil:
  assumes "metricOperand m = Inr (Some key)"
  shows "key \<noteq> []"
proof (cases "strategyMetricSource m")
  case None
  from metricOperand_own_key [OF this assms] show ?thesis by simp
next
  case (Some source)
  with assms obtain base where base: "metricOperand (withoutMetricSource m) = Inr (Some base)"
      "key = sourcedOperand base (Some source)"
    unfolding metricOperand_sourced [OF Some] result_map_Inr_iff by blast
  from metricOperand_own_key [OF withoutMetricSource_source base(1)]
  have "base \<noteq> []" by simp
  then show ?thesis unfolding base(2) by (rule sourcedOperand_not_Nil)
qed

lemma valueOperand_not_Nil: "valueOperand v source = Some key \<Longrightarrow> key \<noteq> []"
  by (cases v) (use sourcedOperand_not_Nil [of "seriesOperand _" source] in \<open>auto simp: seriesOperand_def\<close>)

lemma set_truthy_key: "set (truthy_key k) = {x. k = Some x \<and> x \<noteq> []}"
  by (auto simp: truthy_key_def split: option.splits)

lemma predicate_keys_reads:
  assumes "predicate_keys wanted p = Inr keys" "wanted (strategyMetricSource (predicate_metric p))"
  shows "set keys = {key. reads_key p key}"
  using assms
  by (auto simp: predicate_keys_def Let_def result_map_Inr_iff set_truthy_key reads_key_def
      dest: metricOperand_not_Nil valueOperand_not_Nil)

lemma predicate_keys_unwanted:
  "\<not> wanted (strategyMetricSource (predicate_metric p)) \<Longrightarrow> predicate_keys wanted p = Inr []"
  by (simp add: predicate_keys_def Let_def)

lemma collect_keys_reads:
  assumes "collect_keys wanted d = Inr keys"
  shows "key \<in> set keys \<longleftrightarrow>
    (\<exists>p \<in> set (walkPredicates d). wanted (strategyMetricSource (predicate_metric p)) \<and> reads_key p key)"
proof -
  from assms obtain kss where kss: "result_all (predicate_keys wanted) (walkPredicates d) = Inr kss"
    and keys: "keys = concat kss"
    by (auto simp: collect_keys_def result_map_Inr_iff)
  show ?thesis
  proof
    assume "key \<in> set keys"
    then obtain ks where "ks \<in> set kss" "key \<in> set ks" by (auto simp: keys)
    then obtain p where "p \<in> set (walkPredicates d)" "predicate_keys wanted p = Inr ks"
      using result_all_set [OF kss] by auto
    with \<open>key \<in> set ks\<close> show "\<exists>p \<in> set (walkPredicates d).
        wanted (strategyMetricSource (predicate_metric p)) \<and> reads_key p key"
      using predicate_keys_reads [of wanted p ks] predicate_keys_unwanted [of wanted p] by fastforce
  next
    assume "\<exists>p \<in> set (walkPredicates d).
        wanted (strategyMetricSource (predicate_metric p)) \<and> reads_key p key"
    then obtain p where p: "p \<in> set (walkPredicates d)"
        "wanted (strategyMetricSource (predicate_metric p))" "reads_key p key" by blast
    from result_all_mem [OF kss p(1)] obtain ks where "ks \<in> set kss" "predicate_keys wanted p = Inr ks"
      by blast
    with predicate_keys_reads [of wanted p ks, OF _ p(2)] p(3) show "key \<in> set keys" by (auto simp: keys)
  qed
qed

lemma add_etf_keys_other:
  "source_etf_code (strategyMetricSource (predicate_metric p)) = None \<Longrightarrow>
     add_etf_keys (p # ps) m = add_etf_keys ps m"
  by (auto split: option.split metric_source.split)

lemma source_etf_code_Some: "source_etf_code source = Some code \<longleftrightarrow> source = Some (ETF code)"
  by (cases source rule: source_etf_code.cases) auto

lemma add_etf_keys_named:
  assumes "strategyMetricSource (predicate_metric p) = Some (ETF c)" "add_etf_keys (p # ps) m = Inr m'"
  obtains ks where "add_etf_keys ps (js_map_set c
      ((case map_of m c of None \<Rightarrow> [] | Some keys \<Rightarrow> keys) @ ks) m) = Inr m'"
    "set ks = {key. reads_key p key}"
proof -
  from assms obtain metric where metric: "metricOperand (predicate_metric p) = Inr metric"
    by (cases "metricOperand (predicate_metric p)") auto
  let ?ks = "truthy_key metric @ truthy_key (valueOperand (predicate_value p) (Some (ETF c)))"
  have "set ?ks = {key. reads_key p key}"
    using assms(1) metric
    by (auto simp: set_truthy_key reads_key_def dest: metricOperand_not_Nil valueOperand_not_Nil)
  then show thesis using that [of ?ks] assms metric by simp
qed

lemma add_etf_keys_reads:
  assumes "add_etf_keys ps m = Inr m'"
  shows "(\<exists>ks. map_of m' code = Some ks \<and> key \<in> set ks) \<longleftrightarrow>
    (\<exists>ks. map_of m code = Some ks \<and> key \<in> set ks) \<or>
    (\<exists>p \<in> set ps. strategyMetricSource (predicate_metric p) = Some (ETF code) \<and> reads_key p key)"
  using assms
proof (induction ps arbitrary: m)
  case (Cons p ps)
  show ?case
  proof (cases "source_etf_code (strategyMetricSource (predicate_metric p))")
    case None
    with Cons show ?thesis by (auto simp: add_etf_keys_other simp del: add_etf_keys.simps)
  next
    case (Some c)
    then have src: "strategyMetricSource (predicate_metric p) = Some (ETF c)"
      by (simp add: source_etf_code_Some)
    from add_etf_keys_named [OF src Cons.prems] obtain ks where
      rec: "add_etf_keys ps (js_map_set c
        ((case map_of m c of None \<Rightarrow> [] | Some keys \<Rightarrow> keys) @ ks) m) = Inr m'"
      and ks: "set ks = {key. reads_key p key}" .
    from Cons.IH [OF rec] show ?thesis
      using src ks by (cases "map_of m c") auto
  qed
qed simp

lemma add_etf_keys_ok: "add_etf_keys ps m = Inr m' \<Longrightarrow> js_map_ok m \<Longrightarrow> js_map_ok m'"
proof (induction ps arbitrary: m)
  case (Cons p ps)
  show ?case
  proof (cases "source_etf_code (strategyMetricSource (predicate_metric p))")
    case None
    with Cons show ?thesis by (simp add: add_etf_keys_other del: add_etf_keys.simps)
  next
    case (Some c)
    then have src: "strategyMetricSource (predicate_metric p) = Some (ETF c)"
      by (simp add: source_etf_code_Some)
    from add_etf_keys_named [OF src Cons.prems(1)] Cons.IH Cons.prems(2) show ?thesis
      by (metis js_map_ok_set)
  qed
qed simp

lemma collectEtfOperands_reads:
  assumes "collectEtfOperands d = Inr funds"
  shows "(\<exists>keys. (code, keys) \<in> set funds \<and> key \<in> set keys) \<longleftrightarrow>
    (\<exists>p \<in> set (walkPredicates d). strategyMetricSource (predicate_metric p) = Some (ETF code) \<and> reads_key p key)"
proof -
  from assms obtain byCode where bc: "add_etf_keys (walkPredicates d) [] = Inr byCode"
    and funds: "funds = map (\<lambda>(code, keys). (code, sorted_unique keys)) (js_sort compare_codes byCode)"
    by (auto simp: collectEtfOperands_def result_map_Inr_iff)
  have "(\<exists>keys. (code, keys) \<in> set funds \<and> key \<in> set keys) \<longleftrightarrow>
      (\<exists>keys. (code, keys) \<in> set byCode \<and> key \<in> set keys)"
    by (force simp: funds)
  also have "\<dots> \<longleftrightarrow> (\<exists>keys. map_of byCode code = Some keys \<and> key \<in> set keys)"
    using add_etf_keys_ok [OF bc] by (simp add: js_map_get_iff)
  finally show ?thesis by (simp add: add_etf_keys_reads [OF bc])
qed

lemma collectors_exact_facts:
  assumes "collectOperands d = Inr own" "collectEtfOperands d = Inr funds"
    and "collectSectorOperands d = Inr sector"
  shows "key \<in> set own \<longleftrightarrow> key = PRICE_OPERAND \<or>
      (\<exists>p \<in> set (walkPredicates d). strategyMetricSource (predicate_metric p) = None \<and> reads_key p key)"
    and "(\<exists>keys. (code, keys) \<in> set funds \<and> key \<in> set keys) \<longleftrightarrow>
      (\<exists>p \<in> set (walkPredicates d). strategyMetricSource (predicate_metric p) = Some (ETF code) \<and> reads_key p key)"
    and "key \<in> set sector \<longleftrightarrow>
      (\<exists>p \<in> set (walkPredicates d). strategyMetricSource (predicate_metric p) = Some STOCK_SECTOR \<and> reads_key p key)"
    and "ascending own" "ascending sector" "\<forall>(code, keys) \<in> set funds. ascending keys"
proof -
  from assms(1) obtain own_keys where own: "collect_keys (\<lambda>source. source = None) d = Inr own_keys"
      "own = sorted_unique (PRICE_OPERAND # own_keys)"
    by (auto simp: collectOperands_def result_map_Inr_iff)
  then show "key \<in> set own \<longleftrightarrow> key = PRICE_OPERAND \<or>
      (\<exists>p \<in> set (walkPredicates d). strategyMetricSource (predicate_metric p) = None \<and> reads_key p key)"
    by (simp add: collect_keys_reads [OF own(1)])
  from own(2) show "ascending own" by simp
  show "(\<exists>keys. (code, keys) \<in> set funds \<and> key \<in> set keys) \<longleftrightarrow>
      (\<exists>p \<in> set (walkPredicates d). strategyMetricSource (predicate_metric p) = Some (ETF code) \<and> reads_key p key)"
    by (rule collectEtfOperands_reads [OF assms(2)])
  from assms(3) obtain keys where sec: "collect_keys (\<lambda>source. source = Some STOCK_SECTOR) d = Inr keys"
      "sector = sorted_unique keys"
    by (auto simp: collectSectorOperands_def result_map_Inr_iff)
  then show "key \<in> set sector \<longleftrightarrow>
      (\<exists>p \<in> set (walkPredicates d). strategyMetricSource (predicate_metric p) = Some STOCK_SECTOR \<and> reads_key p key)"
    by (simp add: collect_keys_reads [OF sec(1)])
  from sec(2) show "ascending sector" by simp
  from assms(2) show "\<forall>(code, keys) \<in> set funds. ascending keys"
    by (auto simp: collectEtfOperands_def result_map_Inr_iff)
qed

text \<open>
  C18. The three collectors are exact: the stock's own columns, each named fund's columns and the
  sector's columns are precisely the keys some predicate of that source reads (and the price), so
  evaluation never reads a key the frame builder was not asked for. Every list is ascending and
  free of duplicates.
\<close>

theorem collectors_exact:
  assumes "collectOperands d = Inr own" "collectEtfOperands d = Inr funds"
    and "collectSectorOperands d = Inr sector"
  shows "(\<forall>key. key \<in> set own \<longleftrightarrow> key = PRICE_OPERAND \<or>
        (\<exists>p \<in> set (walkPredicates d). strategyMetricSource (predicate_metric p) = None \<and> reads_key p key)) \<and>
    (\<forall>code key. (\<exists>keys. (code, keys) \<in> set funds \<and> key \<in> set keys) \<longleftrightarrow>
        (\<exists>p \<in> set (walkPredicates d). strategyMetricSource (predicate_metric p) = Some (ETF code) \<and> reads_key p key)) \<and>
    (\<forall>key. key \<in> set sector \<longleftrightarrow>
        (\<exists>p \<in> set (walkPredicates d). strategyMetricSource (predicate_metric p) = Some STOCK_SECTOR \<and> reads_key p key)) \<and>
    ascending own \<and> ascending sector \<and> (\<forall>(code, keys) \<in> set funds. ascending keys)"
  by (intro conjI allI) (rule collectors_exact_facts [OF assms])+

definition sample_definition :: strategy_definition where
  "sample_definition =
     \<lparr>schemaVersion = 2,
      buyLevels = [\<lparr>level_id = ''b1'', level_signal = \<lparr>conditions =
          [\<lparr>condition_id = ''c1'', condition_metric = PRICE (Some (ETF ''ETF_XLK'')),
            condition_operator = IS_ABOVE, condition_value = SERIES ''SMA_50D''\<rparr>],
          trigger = Some \<lparr>trigger_id = ''t1'', trigger_metric = OSCILLATOR ''RSI_14D'' None,
            trigger_operator = CROSSES_ABOVE, trigger_value = NUMBER (Fin 30)\<rparr>\<rparr>,
        percentage = 50\<rparr>],
      sellLevels = [], finalExit = None\<rparr>"

theorem collectors_exact_witness:
  "(\<exists>keys. (''ETF_XLK'', keys) \<in> set [(''ETF_XLK'', [''etf:ETF_XLK:price'', ''etf:ETF_XLK:series:SMA_50D''])]
      \<and> ''etf:ETF_XLK:series:SMA_50D'' \<in> set keys) \<longleftrightarrow>
    (\<exists>p \<in> set (walkPredicates sample_definition).
      strategyMetricSource (predicate_metric p) = Some (ETF ''ETF_XLK'')
      \<and> reads_key p ''etf:ETF_XLK:series:SMA_50D'')"
proof -
  have own: "collectOperands sample_definition = Inr [''price'', ''series:RSI_14D'']" by code_simp
  have funds: "collectEtfOperands sample_definition =
      Inr [(''ETF_XLK'', [''etf:ETF_XLK:price'', ''etf:ETF_XLK:series:SMA_50D''])]"
    by code_simp
  have sector: "collectSectorOperands sample_definition = Inr []" by code_simp
  show ?thesis
    by (rule collectors_exact [OF own funds sector, THEN conjunct2, THEN conjunct1, rule_format])
qed

end
