(* ===== verification/Evaluability.thy ===== *)
theory Evaluability
  imports Prelude
begin

section \<open>Three-valued evaluation\<close>

text \<open>
  \<open>packages/strategy/src/evaluability.ts\<close>: a predicate is true, false or not evaluable, combined
  by Kleene's strong conjunction and disjunction. The loops stop early on the absorbing value.
  The truth order makes conjunction the minimum and disjunction the maximum.
\<close>

datatype evaluability = NOT_EVALUABLE | FALSE | TRUE

definition evaluabilityAnd :: "evaluability \<Rightarrow> evaluability \<Rightarrow> evaluability" where
  "evaluabilityAnd a b =
     (if a = FALSE \<or> b = FALSE then FALSE
      else if a = NOT_EVALUABLE \<or> b = NOT_EVALUABLE then NOT_EVALUABLE
      else TRUE)"

fun all_loop :: "evaluability \<Rightarrow> evaluability list \<Rightarrow> evaluability" where
  "all_loop result [] = result"
| "all_loop result (v # vs) =
     (let result' = evaluabilityAnd result v
      in if result' = FALSE then result' else all_loop result' vs)"

definition evaluabilityAll :: "evaluability list \<Rightarrow> evaluability" where
  "evaluabilityAll vs = all_loop TRUE vs"

definition evaluabilityOr :: "evaluability \<Rightarrow> evaluability \<Rightarrow> evaluability" where
  "evaluabilityOr a b =
     (if a = TRUE \<or> b = TRUE then TRUE
      else if a = NOT_EVALUABLE \<or> b = NOT_EVALUABLE then NOT_EVALUABLE
      else FALSE)"

fun any_loop :: "evaluability \<Rightarrow> evaluability list \<Rightarrow> evaluability" where
  "any_loop result [] = result"
| "any_loop result (v # vs) =
     (let result' = evaluabilityOr result v
      in if result' = TRUE then result' else any_loop result' vs)"

definition evaluabilityAny :: "evaluability list \<Rightarrow> evaluability" where
  "evaluabilityAny vs = any_loop FALSE vs"

definition fromBoolean :: "bool \<Rightarrow> evaluability" where
  "fromBoolean value = (if value then TRUE else FALSE)"

subsection \<open>The truth order\<close>

instantiation evaluability :: linorder
begin

fun truth_rank :: "evaluability \<Rightarrow> nat" where
  "truth_rank FALSE = 0"
| "truth_rank NOT_EVALUABLE = 1"
| "truth_rank TRUE = 2"

definition less_eq_evaluability :: "evaluability \<Rightarrow> evaluability \<Rightarrow> bool" where
  "less_eq_evaluability a b \<longleftrightarrow> truth_rank a \<le> truth_rank b"

definition less_evaluability :: "evaluability \<Rightarrow> evaluability \<Rightarrow> bool" where
  "less_evaluability a b \<longleftrightarrow> truth_rank a < truth_rank b"

instance
proof
  fix a b :: evaluability
  show "a \<le> b \<Longrightarrow> b \<le> a \<Longrightarrow> a = b"
    by (cases a; cases b) (simp_all add: less_eq_evaluability_def)
qed (auto simp: less_eq_evaluability_def less_evaluability_def)

end

lemma truth_order [simp]:
  "FALSE \<le> a" "a \<le> TRUE" "FALSE < NOT_EVALUABLE" "NOT_EVALUABLE < TRUE" "FALSE < TRUE"
  by (cases a; simp add: less_eq_evaluability_def less_evaluability_def)+

lemma evaluabilityAnd_min: "evaluabilityAnd a b = min a b"
  by (cases a; cases b) (simp_all add: evaluabilityAnd_def min_def less_eq_evaluability_def)

lemma evaluabilityOr_max: "evaluabilityOr a b = max a b"
  by (cases a; cases b) (simp_all add: evaluabilityOr_def max_def less_eq_evaluability_def)

subsection \<open>Loops that stop on an absorbing value\<close>

locale absorbing_loop =
  fixes combine :: "'a \<Rightarrow> 'a \<Rightarrow> 'a"
    and stop :: 'a
    and loop :: "'a \<Rightarrow> 'a list \<Rightarrow> 'a"
  assumes absorb: "combine stop a = stop"
    and loop_Nil: "loop acc [] = acc"
    and loop_Cons: "loop acc (v # vs) =
      (if combine acc v = stop then combine acc v else loop (combine acc v) vs)"
begin

lemma foldl_stop: "foldl combine stop vs = stop"
  by (induction vs) (simp_all add: absorb)

lemma loop_foldl: "loop acc vs = foldl combine acc vs"
  by (induction vs arbitrary: acc) (auto simp: loop_Nil loop_Cons foldl_stop)

end

interpretation all_values: absorbing_loop evaluabilityAnd FALSE all_loop
  by unfold_locales (simp_all add: evaluabilityAnd_def Let_def)

interpretation any_values: absorbing_loop evaluabilityOr TRUE any_loop
  by unfold_locales (simp_all add: evaluabilityOr_def Let_def)

lemma foldl_min: "foldl min a xs = Min (insert a (set xs))" for a :: "'a::linorder"
proof (induction xs arbitrary: a)
  case (Cons x xs)
  have "Min (insert a (insert x (set xs))) = Min (insert (min a x) (set xs))"
    by (cases "set xs = {}") (auto simp: min.assoc)
  with Cons show ?case by simp
qed simp

lemma foldl_max: "foldl max a xs = Max (insert a (set xs))" for a :: "'a::linorder"
proof (induction xs arbitrary: a)
  case (Cons x xs)
  have "Max (insert a (insert x (set xs))) = Max (insert (max a x) (set xs))"
    by (cases "set xs = {}") (auto simp: max.assoc)
  with Cons show ?case by simp
qed simp

lemma evaluabilityAll_Min: "evaluabilityAll vs = Min (insert TRUE (set vs))"
proof -
  have and_min: "evaluabilityAnd = min" by (intro ext) (rule evaluabilityAnd_min)
  have "evaluabilityAll vs = foldl evaluabilityAnd TRUE vs"
    unfolding evaluabilityAll_def by (rule all_values.loop_foldl)
  then show ?thesis unfolding and_min by (simp only: foldl_min)
qed

lemma evaluabilityAny_Max: "evaluabilityAny vs = Max (insert FALSE (set vs))"
proof -
  have or_max: "evaluabilityOr = max" by (intro ext) (rule evaluabilityOr_max)
  have "evaluabilityAny vs = foldl evaluabilityOr FALSE vs"
    unfolding evaluabilityAny_def by (rule any_values.loop_foldl)
  then show ?thesis unfolding or_max by (simp only: foldl_max)
qed

lemma le_TRUE_iff: "TRUE \<le> a \<longleftrightarrow> a = TRUE"
  by (cases a) (simp_all add: less_eq_evaluability_def)

lemma le_FALSE_iff: "a \<le> FALSE \<longleftrightarrow> a = FALSE"
  by (cases a) (simp_all add: less_eq_evaluability_def)

lemma evaluabilityAll_TRUE: "evaluabilityAll vs = TRUE \<longleftrightarrow> (\<forall>v \<in> set vs. v = TRUE)"
proof -
  have "evaluabilityAll vs = TRUE \<longleftrightarrow> TRUE \<le> Min (insert TRUE (set vs))"
    by (simp only: le_TRUE_iff evaluabilityAll_Min)
  also have "\<dots> \<longleftrightarrow> (\<forall>v \<in> insert TRUE (set vs). TRUE \<le> v)" by (rule Min_ge_iff) simp_all
  also have "\<dots> \<longleftrightarrow> (\<forall>v \<in> set vs. v = TRUE)" by (simp add: le_TRUE_iff)
  finally show ?thesis .
qed

lemma evaluabilityAll_FALSE: "evaluabilityAll vs = FALSE \<longleftrightarrow> FALSE \<in> set vs"
proof -
  have "evaluabilityAll vs = FALSE \<longleftrightarrow> Min (insert TRUE (set vs)) \<le> FALSE"
    by (simp only: le_FALSE_iff evaluabilityAll_Min)
  also have "\<dots> \<longleftrightarrow> (\<exists>v \<in> insert TRUE (set vs). v \<le> FALSE)" by (rule Min_le_iff) simp_all
  also have "\<dots> \<longleftrightarrow> FALSE \<in> set vs" by (simp add: le_FALSE_iff)
  finally show ?thesis .
qed

lemma evaluabilityAny_TRUE: "evaluabilityAny vs = TRUE \<longleftrightarrow> TRUE \<in> set vs"
proof -
  have "evaluabilityAny vs = TRUE \<longleftrightarrow> TRUE \<le> Max (insert FALSE (set vs))"
    by (simp only: le_TRUE_iff evaluabilityAny_Max)
  also have "\<dots> \<longleftrightarrow> (\<exists>v \<in> insert FALSE (set vs). TRUE \<le> v)" by (rule Max_ge_iff) simp_all
  also have "\<dots> \<longleftrightarrow> TRUE \<in> set vs" by (simp add: le_TRUE_iff)
  finally show ?thesis .
qed

lemma evaluabilityAny_FALSE: "evaluabilityAny vs = FALSE \<longleftrightarrow> (\<forall>v \<in> set vs. v = FALSE)"
proof -
  have "evaluabilityAny vs = FALSE \<longleftrightarrow> Max (insert FALSE (set vs)) \<le> FALSE"
    by (simp only: le_FALSE_iff evaluabilityAny_Max)
  also have "\<dots> \<longleftrightarrow> (\<forall>v \<in> insert FALSE (set vs). v \<le> FALSE)" by (rule Max_le_iff) simp_all
  also have "\<dots> \<longleftrightarrow> (\<forall>v \<in> set vs. v = FALSE)" by (simp add: le_FALSE_iff)
  finally show ?thesis .
qed

lemma fromBoolean_simps [simp]:
  "fromBoolean b = TRUE \<longleftrightarrow> b" "fromBoolean b = FALSE \<longleftrightarrow> \<not> b" "fromBoolean b \<noteq> NOT_EVALUABLE"
  by (simp_all add: fromBoolean_def)

lemma evaluability_loops_kleene_facts:
  "evaluabilityAll vs =
     (if FALSE \<in> set vs then FALSE else if NOT_EVALUABLE \<in> set vs then NOT_EVALUABLE else TRUE)"
  "evaluabilityAny vs =
     (if TRUE \<in> set vs then TRUE else if NOT_EVALUABLE \<in> set vs then NOT_EVALUABLE else FALSE)"
proof -
  have all: "evaluabilityAll vs = NOT_EVALUABLE" if "FALSE \<notin> set vs" "NOT_EVALUABLE \<in> set vs"
    using that evaluabilityAll_TRUE [of vs] evaluabilityAll_FALSE [of vs]
    by (cases "evaluabilityAll vs") auto
  have any: "evaluabilityAny vs = NOT_EVALUABLE" if "TRUE \<notin> set vs" "NOT_EVALUABLE \<in> set vs"
    using that evaluabilityAny_TRUE [of vs] evaluabilityAny_FALSE [of vs]
    by (cases "evaluabilityAny vs") auto
  have true: "evaluabilityAll vs = TRUE" if "FALSE \<notin> set vs" "NOT_EVALUABLE \<notin> set vs"
    using that by (auto simp: evaluabilityAll_TRUE) (metis evaluability.exhaust)
  have false: "evaluabilityAny vs = FALSE" if "TRUE \<notin> set vs" "NOT_EVALUABLE \<notin> set vs"
    using that by (auto simp: evaluabilityAny_FALSE) (metis evaluability.exhaust)
  show "evaluabilityAll vs =
     (if FALSE \<in> set vs then FALSE else if NOT_EVALUABLE \<in> set vs then NOT_EVALUABLE else TRUE)"
    by (simp add: all true evaluabilityAll_FALSE)
  show "evaluabilityAny vs =
     (if TRUE \<in> set vs then TRUE else if NOT_EVALUABLE \<in> set vs then NOT_EVALUABLE else FALSE)"
    by (simp add: any false evaluabilityAny_TRUE)
qed

text \<open>
  C26. The early-exit loops are Kleene's conjunction and disjunction over any list: a conjunction is
  TRUE when every value is, FALSE as soon as one value is and otherwise not evaluable, and a
  disjunction dually; the empty conjunction is TRUE and the empty disjunction FALSE.
\<close>

theorem evaluability_loops_kleene:
  "evaluabilityAll vs =
      (if FALSE \<in> set vs then FALSE else if NOT_EVALUABLE \<in> set vs then NOT_EVALUABLE else TRUE) \<and>
    evaluabilityAny vs =
      (if TRUE \<in> set vs then TRUE else if NOT_EVALUABLE \<in> set vs then NOT_EVALUABLE else FALSE)"
  using evaluability_loops_kleene_facts by blast

end
