(* ===== verification/Frames.thy ===== *)
theory Frames
  imports Operands
begin

section \<open>Evaluation frames\<close>

text \<open>
  \<open>packages/strategy/src/frame.ts\<close>: one security's ascending session dates with the close and the
  operand columns of every session. A typed array read outside its length is \<open>undefined\<close>, which
  the source replaces by \<open>NaN\<close>.
\<close>

subsection \<open>Ascending axes and binary search\<close>

text \<open>
  Several components search an ascending list of dates. The search for the first entry at or after
  a date and the search for an exact date are stated once over any ascending axis.
\<close>

function search_first :: "'a::linorder list \<Rightarrow> 'a \<Rightarrow> int \<Rightarrow> int \<Rightarrow> int \<Rightarrow> int" where
  "search_first dates date low high found =
     (if low \<le> high then
        (let middle = (low + high) div 2
         in if dates ! nat middle \<ge> date then search_first dates date low (middle - 1) middle
            else search_first dates date (middle + 1) high found)
      else found)"
  by auto
termination by (relation "measure (\<lambda>(_, _, low, high, _). nat (high + 1 - low))") auto

declare search_first.simps [simp del]

function search_exact :: "'a::linorder list \<Rightarrow> 'a \<Rightarrow> int \<Rightarrow> int \<Rightarrow> int" where
  "search_exact dates date low high =
     (if low \<le> high then
        (let middle = (low + high) div 2; candidate = dates ! nat middle
         in if candidate = date then middle
            else if candidate < date then search_exact dates date (middle + 1) high
            else search_exact dates date low (middle - 1))
      else - 1)"
  by auto
termination by (relation "measure (\<lambda>(_, _, low, high). nat (high + 1 - low))") auto

declare search_exact.simps [simp del]

text \<open>
  What a search owes its caller, and the loop invariant of the first: everything below \<open>low\<close> is
  before the date and \<open>found\<close> is the first entry not before it among those seen.
\<close>

definition first_at_or_after :: "'a::linorder list \<Rightarrow> 'a \<Rightarrow> int \<Rightarrow> bool" where
  "first_at_or_after dates date r \<longleftrightarrow>
     (r = - 1 \<and> (\<forall>i < length dates. dates ! i < date)) \<or>
     (0 \<le> r \<and> r < int (length dates) \<and> date \<le> dates ! nat r \<and> (\<forall>i < nat r. dates ! i < date))"

definition search_first_inv :: "'a::linorder list \<Rightarrow> 'a \<Rightarrow> int \<Rightarrow> int \<Rightarrow> int \<Rightarrow> bool" where
  "search_first_inv dates date low high found \<longleftrightarrow>
     0 \<le> low \<and> low \<le> high + 1 \<and> high < int (length dates) \<and> (\<forall>i < nat low. dates ! i < date) \<and>
     ((found = - 1 \<and> high + 1 = int (length dates)) \<or>
      (found = high + 1 \<and> found < int (length dates) \<and> date \<le> dates ! nat found))"

lemma search_first_result:
  "ascending dates \<Longrightarrow> search_first_inv dates date low high found \<Longrightarrow>
     first_at_or_after dates date (search_first dates date low high found)"
proof (induction dates date low high found rule: search_first.induct)
  case (1 dates date low high found)
  note inv = 1(4) [unfolded search_first_inv_def]
  show ?case
  proof (cases "low \<le> high")
    case False
    with inv have low: "low = high + 1" by simp
    have "search_first dates date low high found = found"
      using False by (subst search_first.simps) simp
    moreover have "first_at_or_after dates date found"
      using inv low by (elim conjE disjE) (simp_all add: first_at_or_after_def)
    ultimately show ?thesis by simp
  next
    case True
    let ?m = "(low + high) div 2"
    have m: "low \<le> ?m" "?m \<le> high" "0 \<le> ?m" using True inv by auto
    show ?thesis
    proof (cases "date \<le> dates ! nat ?m")
      case le: True
      have step: "search_first dates date low high found = search_first dates date low (?m - 1) ?m"
        using True le by (subst search_first.simps) (simp add: Let_def)
      have "search_first_inv dates date low (?m - 1) ?m"
        using inv m le unfolding search_first_inv_def by auto
      from 1(1) [OF True refl le 1(3) this] show ?thesis unfolding step .
    next
      case gt: False
      have step: "search_first dates date low high found = search_first dates date (?m + 1) high found"
        using True gt by (subst search_first.simps) (simp add: Let_def)
      have "dates ! i < date" if "i < nat (?m + 1)" for i
      proof -
        have "i \<le> nat ?m" "nat ?m < length dates" using that m inv by auto
        then have "dates ! i \<le> dates ! nat ?m" by (rule ascending_nth_mono [OF 1(3)])
        with gt show ?thesis by simp
      qed
      then have "search_first_inv dates date (?m + 1) high found"
        using inv m unfolding search_first_inv_def by auto
      from 1(2) [OF True refl gt 1(3) this] show ?thesis unfolding step .
    qed
  qed
qed

lemma search_exact_result:
  "ascending dates \<Longrightarrow> 0 \<le> low \<Longrightarrow> high < int (length dates) \<Longrightarrow>
     (\<forall>i < nat low. dates ! i \<noteq> date) \<Longrightarrow>
     (\<forall>i. high < int i \<longrightarrow> i < length dates \<longrightarrow> dates ! i \<noteq> date) \<Longrightarrow>
     r = search_exact dates date low high \<Longrightarrow>
     (r = - 1 \<and> date \<notin> set dates) \<or> (0 \<le> r \<and> r < int (length dates) \<and> dates ! nat r = date)"
proof (induction dates date low high rule: search_exact.induct)
  case (1 dates date low high)
  show ?case
  proof (cases "low \<le> high")
    case False
    then have "r = - 1" using 1(8) by (subst (asm) search_exact.simps) simp
    moreover have "dates ! i \<noteq> date" if "i < length dates" for i
      using that False 1(6,7) by (cases "i < nat low") auto
    ultimately show ?thesis by (auto simp: in_set_conv_nth)
  next
    case True
    let ?m = "(low + high) div 2"
    have m: "low \<le> ?m" "?m \<le> high" "0 \<le> ?m" "nat ?m < length dates" "?m < int (length dates)"
      using True 1(4,5) by auto
    consider "dates ! nat ?m = date" | "dates ! nat ?m < date" | "date < dates ! nat ?m" by fastforce
    then show ?thesis
    proof cases
      case 1
      with True have "search_exact dates date low high = ?m"
        by (subst search_exact.simps) (simp add: Let_def)
      with 1 m \<open>r = _\<close> show ?thesis by simp
    next
      case 2
      with True have step: "search_exact dates date low high = search_exact dates date (?m + 1) high"
        by (subst search_exact.simps) (auto simp: Let_def)
      have "dates ! i \<noteq> date" if "i < nat (?m + 1)" for i
        using ascending_nth_mono [OF \<open>ascending dates\<close>, of i "nat ?m"] that m 2 by fastforce
      then show ?thesis
        using "1.IH"(1) [OF True refl refl] 2 1 m step by auto
    next
      case 3
      with True have step: "search_exact dates date low high = search_exact dates date low (?m - 1)"
        by (subst search_exact.simps) (auto simp: Let_def)
      have "dates ! i \<noteq> date" if "?m - 1 < int i" "i < length dates" for i
        using ascending_nth_mono [OF \<open>ascending dates\<close>, of "nat ?m" i] that m 3 by fastforce
      then show ?thesis
        using "1.IH"(2) [OF True refl refl] 3 1 m step by auto
    qed
  qed
qed

locale ascending_axis =
  fixes axis :: "'a::linorder list"
  assumes axis_ascending: "ascending axis"
begin

lemma search_first_axis:
  "first_at_or_after axis date (search_first axis date 0 (int (length axis) - 1) (- 1))"
  by (rule search_first_result [OF axis_ascending]) (simp add: search_first_inv_def)

lemma search_exact_axis:
  assumes "r = search_exact axis date 0 (int (length axis) - 1)"
  shows "(r = - 1 \<and> date \<notin> set axis) \<or> (0 \<le> r \<and> r < int (length axis) \<and> axis ! nat r = date)"
  by (rule search_exact_result [OF axis_ascending _ _ _ _ assms]) simp_all

lemma search_exact_hit:
  assumes "i < length axis"
  shows "search_exact axis (axis ! i) 0 (int (length axis) - 1) = int i"
proof -
  define r where "r = search_exact axis (axis ! i) 0 (int (length axis) - 1)"
  have "axis ! i \<in> set axis" using assms by simp
  with search_exact_axis [OF r_def] have r: "0 \<le> r" "nat r < length axis" "axis ! nat r = axis ! i"
    by auto
  then have "nat r = i" using ascending_nth_eq_iff [OF axis_ascending r(2) assms] by blast
  with r(1) show ?thesis by (simp flip: r_def add: nat_eq_iff)
qed

lemma search_exact_miss:
  assumes "date \<notin> set axis"
  shows "search_exact axis date 0 (int (length axis) - 1) = - 1"
proof -
  define r where "r = search_exact axis date 0 (int (length axis) - 1)"
  have "\<not> (0 \<le> r \<and> r < int (length axis) \<and> axis ! nat r = date)"
    using assms nth_mem [of "nat r" axis] by auto
  then show ?thesis using search_exact_axis [OF r_def] unfolding r_def by blast
qed

end

subsection \<open>Frames\<close>

record evaluation_frame =
  frame_security :: security_id
  frame_symbol :: string
  frame_name :: string
  frame_dates :: "local_date list"
  frame_closes :: "jsnum list"
  frame_columns :: "(operand_key \<times> jsnum list) list"
  periodStartIndex :: int

definition nth_or_nan :: "jsnum list \<Rightarrow> int \<Rightarrow> jsnum" where
  "nth_or_nan column index =
     (if 0 \<le> index \<and> index < int (length column) then column ! nat index else NotANumber)"

definition readOperand :: "evaluation_frame \<Rightarrow> operand_key \<Rightarrow> int \<Rightarrow> jsnum" where
  "readOperand frame key index =
     (if index < 0 \<or> index \<ge> int (length (frame_dates frame)) then NotANumber
      else if key = PRICE_OPERAND then nth_or_nan (frame_closes frame) index
      else case map_of (frame_columns frame) key of
          None \<Rightarrow> NotANumber
        | Some column \<Rightarrow> nth_or_nan column index)"

definition frameIndexOf :: "evaluation_frame \<Rightarrow> local_date \<Rightarrow> int" where
  "frameIndexOf frame date =
     search_exact (frame_dates frame) date 0 (int (length (frame_dates frame)) - 1)"

datatype frame_error =
  ClosesLength nat nat
| NotAscending nat
| ColumnLength operand_key nat nat

text \<open>The first index whose date does not exceed the one before it.\<close>

fun first_unordered :: "nat \<Rightarrow> 'a::linorder list \<Rightarrow> nat option" where
  "first_unordered index (x # y # ys) =
     (if y \<le> x then Some index else first_unordered (index + 1) (y # ys))"
| "first_unordered index _ = None"

definition first_bad_column :: "nat \<Rightarrow> (operand_key \<times> jsnum list) list \<Rightarrow> (operand_key \<times> nat) option" where
  "first_bad_column n columns =
     map_option (\<lambda>(key, column). (key, length column))
       (List.find (\<lambda>(key, column). length column \<noteq> n) columns)"

definition createEvaluationFrame ::
  "security_id \<Rightarrow> string \<Rightarrow> string \<Rightarrow> local_date list \<Rightarrow> jsnum list
   \<Rightarrow> (operand_key \<times> jsnum list) list option \<Rightarrow> int \<Rightarrow> frame_error + evaluation_frame"
where
  "createEvaluationFrame securityId symbol name dates closes columns startIndex =
     (if length closes \<noteq> length dates then Inl (ClosesLength (length closes) (length dates))
      else case first_unordered 1 dates of
          Some index \<Rightarrow> Inl (NotAscending index)
        | None \<Rightarrow>
            (let columns = (case columns of None \<Rightarrow> [] | Some columns \<Rightarrow> columns)
             in case first_bad_column (length dates) columns of
                 Some (key, n) \<Rightarrow> Inl (ColumnLength key n (length dates))
               | None \<Rightarrow>
                   Inr \<lparr>frame_security = securityId, frame_symbol = symbol, frame_name = name,
                        frame_dates = dates, frame_closes = closes, frame_columns = columns,
                        periodStartIndex = startIndex\<rparr>))"

definition frame_ok :: "evaluation_frame \<Rightarrow> bool" where
  "frame_ok frame \<longleftrightarrow>
     ascending (frame_dates frame) \<and> length (frame_closes frame) = length (frame_dates frame) \<and>
     (\<forall>(key, column) \<in> set (frame_columns frame). length column = length (frame_dates frame))"

lemma first_unordered_None: "first_unordered k xs = None \<longleftrightarrow> ascending xs"
proof (induction k xs rule: first_unordered.induct)
  case (1 k x y ys)
  then show ?case by (auto simp: not_le intro: less_trans)
qed auto

lemma first_bad_column_None:
  "first_bad_column n columns = None \<longleftrightarrow> (\<forall>(key, column) \<in> set columns. length column = n)"
  by (auto simp: first_bad_column_def find_None_iff)

lemma createEvaluationFrame_ok:
  assumes "createEvaluationFrame securityId symbol name dates closes columns start = Inr frame"
  shows "frame_ok frame" "frame_dates frame = dates" "frame_closes frame = closes"
    "frame_columns frame = (case columns of None \<Rightarrow> [] | Some columns \<Rightarrow> columns)"
  using assms
  by (auto simp: createEvaluationFrame_def frame_ok_def Let_def first_unordered_None
      first_bad_column_None split: if_splits option.splits)

lemma readOperand_outside:
  "index < 0 \<or> int (length (frame_dates frame)) \<le> index \<Longrightarrow> readOperand frame key index = NotANumber"
  by (auto simp: readOperand_def)

lemma readOperand_missing:
  "key \<noteq> PRICE_OPERAND \<Longrightarrow> map_of (frame_columns frame) key = None \<Longrightarrow>
     readOperand frame key index = NotANumber"
  by (simp add: readOperand_def)

lemma readOperand_column:
  assumes "frame_ok frame" "i < length (frame_dates frame)"
  shows "readOperand frame PRICE_OPERAND (int i) = frame_closes frame ! i"
    "key \<noteq> PRICE_OPERAND \<Longrightarrow> map_of (frame_columns frame) key = Some column \<Longrightarrow>
       readOperand frame key (int i) = column ! i"
  using assms
  by (auto simp: readOperand_def nth_or_nan_def frame_ok_def dest!: map_of_SomeD)

lemma frame_lookup_correct_facts:
  assumes "createEvaluationFrame securityId symbol name dates closes columns start = Inr frame"
    and "i < length dates"
  shows "frameIndexOf frame (dates ! i) = int i"
    and "date \<notin> set dates \<Longrightarrow> frameIndexOf frame date = - 1"
    and "readOperand frame PRICE_OPERAND (frameIndexOf frame (dates ! i)) = closes ! i"
    and "columns = Some cs \<Longrightarrow> map_of cs key = Some column \<Longrightarrow> key \<noteq> PRICE_OPERAND \<Longrightarrow>
      readOperand frame key (frameIndexOf frame (dates ! i)) = column ! i"
    and "columns = None \<or> (\<exists>cs. columns = Some cs \<and> map_of cs key = None) \<Longrightarrow> key \<noteq> PRICE_OPERAND \<Longrightarrow>
      readOperand frame key index = NotANumber"
proof -
  note ok = createEvaluationFrame_ok [OF assms(1)]
  have asc: "ascending_axis dates" using ok(1,2) by (simp add: ascending_axis_def frame_ok_def)
  show hit: "frameIndexOf frame (dates ! i) = int i"
    unfolding frameIndexOf_def ok(2) by (rule ascending_axis.search_exact_hit [OF asc assms(2)])
  show "date \<notin> set dates \<Longrightarrow> frameIndexOf frame date = - 1"
    unfolding frameIndexOf_def ok(2) by (rule ascending_axis.search_exact_miss [OF asc])
  have i: "i < length (frame_dates frame)" using assms(2) ok(2) by simp
  show "readOperand frame PRICE_OPERAND (frameIndexOf frame (dates ! i)) = closes ! i"
    using readOperand_column(1) [OF ok(1) i] ok(3) hit by simp
  show "columns = Some cs \<Longrightarrow> map_of cs key = Some column \<Longrightarrow> key \<noteq> PRICE_OPERAND \<Longrightarrow>
      readOperand frame key (frameIndexOf frame (dates ! i)) = column ! i"
    using readOperand_column(2) [OF ok(1) i] ok(4) hit by simp
  show "columns = None \<or> (\<exists>cs. columns = Some cs \<and> map_of cs key = None) \<Longrightarrow> key \<noteq> PRICE_OPERAND \<Longrightarrow>
      readOperand frame key index = NotANumber"
    using readOperand_missing [of key frame index] ok(4) by auto
qed

text \<open>
  C23. A frame the constructor accepts answers by date: looking up the date of session \<open>i\<close> returns
  \<open>i\<close>, any other date returns -1, and reading an operand at that session returns the value the
  caller supplied for it, with \<open>NaN\<close> for an absent column and for any index outside the frame.
\<close>

theorem frame_lookup_correct:
  assumes "createEvaluationFrame securityId symbol name dates closes columns start = Inr frame"
    and "i < length dates"
  shows "frameIndexOf frame (dates ! i) = int i \<and>
    (date \<notin> set dates \<longrightarrow> frameIndexOf frame date = - 1) \<and>
    readOperand frame PRICE_OPERAND (frameIndexOf frame (dates ! i)) = closes ! i \<and>
    (\<forall>cs column. columns = Some cs \<longrightarrow> map_of cs key = Some column \<longrightarrow> key \<noteq> PRICE_OPERAND \<longrightarrow>
      readOperand frame key (frameIndexOf frame (dates ! i)) = column ! i) \<and>
    (columns = None \<or> (\<exists>cs. columns = Some cs \<and> map_of cs key = None) \<longrightarrow> key \<noteq> PRICE_OPERAND \<longrightarrow>
      readOperand frame key index = NotANumber)"
  using frame_lookup_correct_facts [OF assms] by blast

theorem frame_lookup_correct_witness:
  "\<exists>frame. createEvaluationFrame ''s'' ''SYM'' ''Name'' [''2020-01-02'', ''2020-01-03'', ''2020-01-06'']
      [Fin 10, Fin 11, Fin 12] (Some [(''series:SMA_50D'', [NotANumber, Fin 9, Fin 8])]) 0 = Inr frame \<and>
    frameIndexOf frame ''2020-01-03'' = 1 \<and> readOperand frame ''series:SMA_50D'' (frameIndexOf frame ''2020-01-06'') = Fin 8"
proof -
  let ?dates = "[''2020-01-02'', ''2020-01-03'', ''2020-01-06''] :: local_date list"
  let ?cols = "[(''series:SMA_50D'', [NotANumber, Fin 9, Fin 8])]"
  obtain frame where f: "createEvaluationFrame ''s'' ''SYM'' ''Name'' ?dates
      [Fin 10, Fin 11, Fin 12] (Some ?cols) 0 = Inr frame"
    using that by (fastforce simp: createEvaluationFrame_def first_bad_column_def)
  have "map_of ?cols ''series:SMA_50D'' = Some [NotANumber, Fin 9, Fin 8]"
    "''series:SMA_50D'' \<noteq> PRICE_OPERAND" by (simp_all add: PRICE_OPERAND_def)
  then have "readOperand frame ''series:SMA_50D'' (frameIndexOf frame (?dates ! 2)) = Fin 8"
    using frame_lookup_correct [OF f, of 2 "''x''" "''series:SMA_50D''"] by auto
  moreover have "frameIndexOf frame (?dates ! 1) = 1"
    using frame_lookup_correct [OF f, of 1] by simp
  ultimately show ?thesis using f by auto
qed

end
