(* ===== verification/Predicates.thy ===== *)
theory Predicates
  imports Frames Evaluability
begin

section \<open>Market predicates and gates\<close>

text \<open>
  \<open>packages/strategy/src/predicates.ts\<close> and \<open>gates.ts\<close>: one condition or trigger evaluated
  from resolved numbers, a market signal evaluated on a frame, the evidence recorded with it, and
  the gates that hold the result of every session. An operator the engine does not define throws.
\<close>

subsection \<open>Operators on numbers\<close>

definition bothResolved :: "jsnum \<Rightarrow> jsnum \<Rightarrow> bool" where
  "bothResolved metric value \<longleftrightarrow> isFinite metric \<and> isFinite value"

definition CLOSE_TO_BOUNDARY_SLACK :: jsnum where
  "CLOSE_TO_BOUNDARY_SLACK = binary64 (1 / 10 ^ 12)"

definition isCloseTo :: "jsnum \<Rightarrow> jsnum \<Rightarrow> bool" where
  "isCloseTo metric value =
     (let allowed = js_mul IS_CLOSE_TO_TOLERANCE (js_abs value)
      in js_le (js_abs (js_sub metric value))
           (js_add allowed (js_mul allowed CLOSE_TO_BOUNDARY_SLACK)))"

fun evaluateConditionValues :: "condition_operator \<Rightarrow> jsnum \<Rightarrow> jsnum \<Rightarrow> strategy_error + evaluability" where
  "evaluateConditionValues IS_ABOVE metric value =
     Inr (if bothResolved metric value then fromBoolean (js_gt metric value) else NOT_EVALUABLE)"
| "evaluateConditionValues IS_BELOW metric value =
     Inr (if bothResolved metric value then fromBoolean (js_lt metric value) else NOT_EVALUABLE)"
| "evaluateConditionValues IS_CLOSE_TO metric value =
     Inr (if bothResolved metric value \<and> \<not> js_eq value (Fin 0)
          then fromBoolean (isCloseTo metric value) else NOT_EVALUABLE)"
| "evaluateConditionValues (OTHER_CONDITION operator) metric value =
     Inl (UnsupportedStrategyOperator operator)"

fun evaluateTriggerValues ::
  "trigger_operator \<Rightarrow> jsnum \<Rightarrow> jsnum \<Rightarrow> jsnum \<Rightarrow> jsnum \<Rightarrow> strategy_error + evaluability"
where
  "evaluateTriggerValues CROSSES_ABOVE metric value previousMetric previousValue =
     Inr (if bothResolved metric value \<and> bothResolved previousMetric previousValue
          then fromBoolean (js_gt metric value \<and> js_le previousMetric previousValue)
          else NOT_EVALUABLE)"
| "evaluateTriggerValues CROSSES_BELOW metric value previousMetric previousValue =
     Inr (if bothResolved metric value \<and> bothResolved previousMetric previousValue
          then fromBoolean (js_lt metric value \<and> js_ge previousMetric previousValue)
          else NOT_EVALUABLE)"
| "evaluateTriggerValues (OTHER_TRIGGER operator) metric value previousMetric previousValue =
     Inl (UnsupportedStrategyOperator operator)"

subsection \<open>Market signals\<close>

fun constant_value :: "strategy_value \<Rightarrow> jsnum" where
  "constant_value (NUMBER n) = n"
| "constant_value (PERCENT n) = n"
| "constant_value (MULTIPLE n) = n"
| "constant_value (MONEY_VALUE n) = n"
| "constant_value (SERIES _) = NotANumber"

definition resolveValue ::
  "strategy_value \<Rightarrow> metric_source option \<Rightarrow> evaluation_frame \<Rightarrow> int \<Rightarrow> jsnum"
where
  "resolveValue value source frame index =
     (case value of
        SERIES _ \<Rightarrow>
          (case valueOperand value source of
             None \<Rightarrow> NotANumber
           | Some key \<Rightarrow> readOperand frame key index)
      | _ \<Rightarrow> constant_value value)"

definition isMarketDerivedPredicate :: "predicate \<Rightarrow> bool" where
  "isMarketDerivedPredicate p \<longleftrightarrow> \<not> isPositionDependentMetric (predicate_metric p)"

definition evaluateMarketCondition ::
  "strategy_condition \<Rightarrow> evaluation_frame \<Rightarrow> int \<Rightarrow> strategy_error + evaluability"
where
  "evaluateMarketCondition condition frame index =
     result_bind (metricOperand (condition_metric condition)) (\<lambda>key.
       case key of
         None \<Rightarrow> Inr NOT_EVALUABLE
       | Some key \<Rightarrow>
           evaluateConditionValues (condition_operator condition) (readOperand frame key index)
             (resolveValue (condition_value condition)
               (strategyMetricSource (condition_metric condition)) frame index))"

definition evaluateMarketTrigger ::
  "strategy_trigger \<Rightarrow> evaluation_frame \<Rightarrow> int \<Rightarrow> strategy_error + evaluability"
where
  "evaluateMarketTrigger trig frame index =
     result_bind (metricOperand (trigger_metric trig)) (\<lambda>key.
       case key of
         None \<Rightarrow> Inr NOT_EVALUABLE
       | Some key \<Rightarrow>
           if index \<le> 0 then Inr NOT_EVALUABLE
           else (let source = strategyMetricSource (trigger_metric trig)
             in evaluateTriggerValues (trigger_operator trig)
                  (readOperand frame key index)
                  (resolveValue (trigger_value trig) source frame index)
                  (readOperand frame key (index - 1))
                  (resolveValue (trigger_value trig) source frame (index - 1))))"

fun evaluateMarketPredicate ::
  "evaluation_frame \<Rightarrow> int \<Rightarrow> predicate \<Rightarrow> strategy_error + evaluability"
where
  "evaluateMarketPredicate frame index (Condition c) = evaluateMarketCondition c frame index"
| "evaluateMarketPredicate frame index (Trigger t) = evaluateMarketTrigger t frame index"

definition evaluateMarketSignal ::
  "strategy_signal \<Rightarrow> evaluation_frame \<Rightarrow> int \<Rightarrow> strategy_error + evaluability"
where
  "evaluateMarketSignal signal frame index =
     result_map evaluabilityAll
       (result_all (evaluateMarketPredicate frame index)
         (filter isMarketDerivedPredicate (signal_predicates signal)))"

subsection \<open>Evidence\<close>

record predicate_evidence =
  evidence_id :: string
  evidence_trigger :: bool
  evidence_result :: evaluability
  evidence_metric :: "rat option"
  evidence_value :: "rat option"
  evidence_previous :: "(rat option \<times> rat option) option"

fun finiteOrNull :: "jsnum \<Rightarrow> rat option" where
  "finiteOrNull (Fin x) = Some x"
| "finiteOrNull _ = None"

definition operand_or_nan :: "evaluation_frame \<Rightarrow> operand_key option \<Rightarrow> int \<Rightarrow> jsnum" where
  "operand_or_nan frame key index =
     (case key of None \<Rightarrow> NotANumber | Some key \<Rightarrow> readOperand frame key index)"

definition explain_condition ::
  "evaluation_frame \<Rightarrow> int \<Rightarrow> strategy_condition \<Rightarrow> strategy_error + predicate_evidence"
where
  "explain_condition frame index condition =
     result_bind (metricOperand (condition_metric condition)) (\<lambda>key.
       result_bind (evaluateMarketCondition condition frame index) (\<lambda>result.
         Inr \<lparr>evidence_id = condition_id condition, evidence_trigger = False, evidence_result = result,
           evidence_metric = finiteOrNull (operand_or_nan frame key index),
           evidence_value = finiteOrNull (resolveValue (condition_value condition)
             (strategyMetricSource (condition_metric condition)) frame index),
           evidence_previous = None\<rparr>))"

definition trigger_operands_at ::
  "evaluation_frame \<Rightarrow> strategy_trigger \<Rightarrow> operand_key option \<Rightarrow> int \<Rightarrow> jsnum \<times> jsnum"
where
  "trigger_operands_at frame trig key position =
     (case key of
        None \<Rightarrow> (NotANumber, NotANumber)
      | Some key \<Rightarrow>
          if position < 0 then (NotANumber, NotANumber)
          else (readOperand frame key position,
                resolveValue (trigger_value trig)
                  (strategyMetricSource (trigger_metric trig)) frame position))"

definition explain_trigger ::
  "evaluation_frame \<Rightarrow> int \<Rightarrow> strategy_trigger \<Rightarrow> strategy_error + predicate_evidence"
where
  "explain_trigger frame index trig =
     result_bind (metricOperand (trigger_metric trig)) (\<lambda>key.
       let (metric, value) = trigger_operands_at frame trig key index;
           (previousMetric, previousValue) = trigger_operands_at frame trig key (index - 1)
       in result_bind (evaluateMarketTrigger trig frame index) (\<lambda>result.
         Inr \<lparr>evidence_id = trigger_id trig, evidence_trigger = True, evidence_result = result,
           evidence_metric = finiteOrNull metric, evidence_value = finiteOrNull value,
           evidence_previous = Some (finiteOrNull previousMetric, finiteOrNull previousValue)\<rparr>))"

fun explain_predicate :: "evaluation_frame \<Rightarrow> int \<Rightarrow> predicate \<Rightarrow> strategy_error + predicate_evidence" where
  "explain_predicate frame index (Condition c) = explain_condition frame index c"
| "explain_predicate frame index (Trigger t) = explain_trigger frame index t"

definition explainMarketSignal ::
  "strategy_signal \<Rightarrow> evaluation_frame \<Rightarrow> int \<Rightarrow> strategy_error + predicate_evidence list"
where
  "explainMarketSignal signal frame index =
     result_all (explain_predicate frame index)
       (filter isMarketDerivedPredicate (signal_predicates signal))"

subsection \<open>Gates\<close>

type_synonym market_gate = "evaluability list"

definition buildMarketGate :: "strategy_signal \<Rightarrow> evaluation_frame \<Rightarrow> strategy_error + market_gate" where
  "buildMarketGate signal frame =
     result_all (\<lambda>index. evaluateMarketSignal signal frame (int index)) [0..<length (frame_dates frame)]"

record strategy_gates =
  gate_buy :: "(string \<times> market_gate) list"
  gate_sell :: "(string \<times> market_gate) list"
  gate_finalExit :: "market_gate list option"

fun level_gates ::
  "strategy_level list \<Rightarrow> evaluation_frame \<Rightarrow> (string \<times> market_gate) list
   \<Rightarrow> strategy_error + (string \<times> market_gate) list"
where
  "level_gates [] frame gates = Inr gates"
| "level_gates (level # levels) frame gates =
     result_bind (buildMarketGate (level_signal level) frame) (\<lambda>gate.
       level_gates levels frame (js_map_set (level_id level) gate gates))"

definition buildStrategyGates :: "strategy_definition \<Rightarrow> evaluation_frame \<Rightarrow> strategy_error + strategy_gates" where
  "buildStrategyGates definition frame =
     result_bind (level_gates (buyLevels definition) frame []) (\<lambda>buy.
       result_bind (level_gates (sellLevels definition) frame []) (\<lambda>sell.
         result_bind
           (case finalExit definition of
              None \<Rightarrow> Inr None
            | Some exit \<Rightarrow>
                result_map Some (result_all (\<lambda>rule. buildMarketGate (rule_signal rule) frame) (exit_rules exit)))
           (\<lambda>finalExit. Inr \<lparr>gate_buy = buy, gate_sell = sell, gate_finalExit = finalExit\<rparr>)))"

definition readGate :: "market_gate option \<Rightarrow> int \<Rightarrow> evaluability" where
  "readGate gate index =
     (case gate of
        None \<Rightarrow> NOT_EVALUABLE
      | Some gate \<Rightarrow>
          if index < 0 \<or> index \<ge> int (length gate) then NOT_EVALUABLE else gate ! nat index)"

subsection \<open>Supported operators never throw\<close>

fun supported_operator :: "predicate \<Rightarrow> bool" where
  "supported_operator (Condition c) \<longleftrightarrow> (\<forall>name. condition_operator c \<noteq> OTHER_CONDITION name)"
| "supported_operator (Trigger t) \<longleftrightarrow> (\<forall>name. trigger_operator t \<noteq> OTHER_TRIGGER name)"

lemma evaluateConditionValues_total:
  "(\<forall>name. operator \<noteq> OTHER_CONDITION name) \<Longrightarrow> \<exists>v. evaluateConditionValues operator m x = Inr v"
  by (cases operator) auto

lemma evaluateTriggerValues_total:
  "(\<forall>name. operator \<noteq> OTHER_TRIGGER name) \<Longrightarrow> \<exists>v. evaluateTriggerValues operator m x m' x' = Inr v"
  by (cases operator) auto

lemma evaluateMarketPredicate_total:
  assumes "supported_operator p" "metricOperand (predicate_metric p) = Inr key"
  shows "\<exists>v. evaluateMarketPredicate frame index p = Inr v"
  using assms
  by (cases p)
    (auto simp: evaluateMarketCondition_def evaluateMarketTrigger_def Let_def
      intro: evaluateConditionValues_total evaluateTriggerValues_total split: option.split)

lemma result_all_total: "\<forall>x \<in> set xs. \<exists>y. f x = Inr y \<Longrightarrow> \<exists>ys. result_all f xs = Inr ys"
  by (induction xs) auto

subsection \<open>What a market signal means\<close>

lemma evaluateMarketSignal_TRUE:
  "evaluateMarketSignal signal frame index = Inr TRUE \<longleftrightarrow>
     (\<forall>p \<in> set (signal_predicates signal). isMarketDerivedPredicate p \<longrightarrow>
        evaluateMarketPredicate frame index p = Inr TRUE)"
proof -
  let ?ps = "filter isMarketDerivedPredicate (signal_predicates signal)"
  let ?f = "evaluateMarketPredicate frame index"
  have "(\<exists>vs. result_all ?f ps = Inr vs \<and> (\<forall>v \<in> set vs. v = TRUE)) \<longleftrightarrow> (\<forall>p \<in> set ps. ?f p = Inr TRUE)"
    for ps
    by (induction ps) (auto simp: result_bind_Inr_iff)
  from this [of ?ps] show ?thesis
    by (auto simp: evaluateMarketSignal_def result_map_Inr_iff evaluabilityAll_TRUE)
qed

lemma gate_nth:
  assumes "buildMarketGate signal frame = Inr gate" "i < length (frame_dates frame)"
  shows "length gate = length (frame_dates frame)"
    "evaluateMarketSignal signal frame (int i) = Inr (gate ! i)"
  using assms result_all_length [of "\<lambda>index. evaluateMarketSignal signal frame (int index)"]
    result_all_nth [of "\<lambda>index. evaluateMarketSignal signal frame (int index)"
      "[0..<length (frame_dates frame)]" gate i]
  by (auto simp: buildMarketGate_def)

subsection \<open>Evidence, causality and gates\<close>

lemma explain_predicate_result:
  "result_map evidence_result (explain_predicate frame index p) = evaluateMarketPredicate frame index p"
proof (cases p)
  case (Condition c)
  show ?thesis
    by (cases "metricOperand (condition_metric c)"; cases "evaluateMarketCondition c frame index")
      (simp_all add: Condition explain_condition_def, simp_all add: evaluateMarketCondition_def)
next
  case (Trigger t)
  show ?thesis
    by (cases "metricOperand (trigger_metric t)"; cases "evaluateMarketTrigger t frame index")
      (simp_all add: Trigger explain_trigger_def case_prod_beta Let_def,
        simp_all add: evaluateMarketTrigger_def)
qed

lemma result_all_map:
  "(\<And>x. result_map h (f x) = g x) \<Longrightarrow> result_map (map h) (result_all f xs) = result_all g xs"
proof (induction xs)
  case (Cons x xs)
  have g: "g x = result_map h (f x)" and gs: "result_all g xs = result_map (map h) (result_all f xs)"
    using Cons.IH [OF Cons.prems] Cons.prems by simp_all
  show ?case unfolding result_all.simps g gs by (cases "f x"; cases "result_all f xs") simp_all
qed simp

text \<open>
  C27. The recorded evidence explains the decision: the value of a market signal is the conjunction of
  the results in its evidence, and the evidence throws exactly when the evaluation does.
\<close>

theorem evidence_explains_signal:
  "evaluateMarketSignal signal frame index =
     result_map (\<lambda>evidence. evaluabilityAll (map evidence_result evidence))
       (explainMarketSignal signal frame index)"
proof -
  have *: "result_map (map evidence_result) (explainMarketSignal signal frame index) =
      result_all (evaluateMarketPredicate frame index)
        (filter isMarketDerivedPredicate (signal_predicates signal))"
    unfolding explainMarketSignal_def by (rule result_all_map) (rule explain_predicate_result)
  show ?thesis
    unfolding evaluateMarketSignal_def * [symmetric]
    by (cases "explainMarketSignal signal frame index") simp_all
qed

text \<open>The frame as it stood after its first \<open>n\<close> sessions.\<close>

definition truncate_frame :: "nat \<Rightarrow> evaluation_frame \<Rightarrow> evaluation_frame" where
  "truncate_frame n frame =
     frame\<lparr>frame_dates := take n (frame_dates frame), frame_closes := take n (frame_closes frame),
       frame_columns := map (\<lambda>p. (fst p, take n (snd p))) (frame_columns frame)\<rparr>"

lemma readOperand_truncate:
  assumes "index < int n"
  shows "readOperand (truncate_frame n frame) key index = readOperand frame key index"
proof -
  have nth: "nth_or_nan (take n column) index = nth_or_nan column index" for column
    using assms by (auto simp: nth_or_nan_def)
  have col: "map_of (map (\<lambda>p. (fst p, take n (snd p))) m) key = map_option (take n) (map_of m key)" for m
    by (rule map_of_map_values [of "\<lambda>k. take n"])
  show ?thesis
    using assms by (auto simp: readOperand_def truncate_frame_def col nth split: option.split)
qed

lemma evaluateMarketPredicate_truncate:
  assumes "index < int n"
  shows "evaluateMarketPredicate (truncate_frame n frame) index p = evaluateMarketPredicate frame index p"
proof -
  have before: "index - 1 < int n" using assms by simp
  have "resolveValue value source (truncate_frame n frame) i = resolveValue value source frame i"
    if "i < int n" for "value" source i
    using that by (auto simp: resolveValue_def readOperand_truncate split: strategy_value.split option.split)
  note same = this [OF assms] this [OF before] readOperand_truncate [OF assms]
    readOperand_truncate [OF before]
  show ?thesis
    by (cases p; cases "metricOperand (predicate_metric p)")
      (auto simp: evaluateMarketCondition_def evaluateMarketTrigger_def same split: option.split)
qed

text \<open>
  C14. A market decision never looks ahead: evaluating a signal at a session gives the same result on
  the frame cut off right after that session as on the whole frame.
\<close>

theorem market_signal_causal:
  assumes "index < int n"
  shows "evaluateMarketSignal signal (truncate_frame n frame) index = evaluateMarketSignal signal frame index"
proof -
  have "evaluateMarketPredicate (truncate_frame n frame) index = evaluateMarketPredicate frame index"
    using evaluateMarketPredicate_truncate [OF assms] by (intro ext)
  then show ?thesis by (simp add: evaluateMarketSignal_def)
qed

theorem market_signal_causal_witness:
  "evaluateMarketSignal (level_signal (hd (buyLevels sample_definition)))
     (truncate_frame 2 \<lparr>frame_security = ''s'', frame_symbol = ''S'', frame_name = ''N'',
        frame_dates = [''2020-01-02'', ''2020-01-03'', ''2020-01-06''],
        frame_closes = [Fin 10, Fin 11, Fin 12],
        frame_columns = [(''series:RSI_14D'', [Fin 29, Fin 31, Fin 20])], periodStartIndex = 0\<rparr>) 1 =
   Inr NOT_EVALUABLE"
  unfolding market_signal_causal [of 1 2, simplified] by code_simp

lemma level_gates_get:
  assumes "level_gates levels frame gates = Inr gates'" "distinct (map level_id levels)"
  shows "level \<in> set levels \<Longrightarrow>
      \<exists>gate. map_of gates' (level_id level) = Some gate \<and> buildMarketGate (level_signal level) frame = Inr gate"
    and "name \<notin> level_id ` set levels \<Longrightarrow> map_of gates' name = map_of gates name"
proof -
  have "(level \<in> set levels \<longrightarrow>
      (\<exists>gate. map_of gates' (level_id level) = Some gate \<and> buildMarketGate (level_signal level) frame = Inr gate))
    \<and> (name \<notin> level_id ` set levels \<longrightarrow> map_of gates' name = map_of gates name)" for level name
    using assms
  proof (induction levels arbitrary: gates level name)
    case (Cons l ls)
    from Cons.prems(1) obtain gate where gate: "buildMarketGate (level_signal l) frame = Inr gate"
      and rest: "level_gates ls frame (js_map_set (level_id l) gate gates) = Inr gates'"
      by (auto simp: result_bind_Inr_iff)
    from Cons.prems(2) have d: "distinct (map level_id ls)" "level_id l \<notin> level_id ` set ls" by auto
    from Cons.IH [OF rest d(1)] gate d(2) show ?case by auto
  qed simp
  then show "level \<in> set levels \<Longrightarrow>
      \<exists>gate. map_of gates' (level_id level) = Some gate \<and> buildMarketGate (level_signal level) frame = Inr gate"
    and "name \<notin> level_id ` set levels \<Longrightarrow> map_of gates' name = map_of gates name" by blast+
qed

lemma gates_are_evaluation_facts:
  assumes "buildStrategyGates definition frame = Inr gates"
    and "distinct (map level_id (buyLevels definition))" "distinct (map level_id (sellLevels definition))"
    and "i < length (frame_dates frame)"
  shows "level \<in> set (buyLevels definition) \<Longrightarrow>
      evaluateMarketSignal (level_signal level) frame (int i) =
        Inr (readGate (map_of (gate_buy gates) (level_id level)) (int i))"
    and "level \<in> set (sellLevels definition) \<Longrightarrow>
      evaluateMarketSignal (level_signal level) frame (int i) =
        Inr (readGate (map_of (gate_sell gates) (level_id level)) (int i))"
    and "finalExit definition = Some exit \<Longrightarrow> k < length (exit_rules exit) \<Longrightarrow>
      evaluateMarketSignal (rule_signal (exit_rules exit ! k)) frame (int i) =
        Inr (readGate (Some (the (gate_finalExit gates) ! k)) (int i))"
    and "int (length (frame_dates frame)) \<le> j \<or> j < 0 \<Longrightarrow> level \<in> set (buyLevels definition) \<Longrightarrow>
      readGate (map_of (gate_buy gates) (level_id level)) j = NOT_EVALUABLE"
proof -
  from assms(1) obtain buy sell fin where
    buy: "level_gates (buyLevels definition) frame [] = Inr buy" and
    sell: "level_gates (sellLevels definition) frame [] = Inr sell" and
    fin: "(case finalExit definition of
              None \<Rightarrow> Inr None
            | Some exit \<Rightarrow>
                result_map Some (result_all (\<lambda>rule. buildMarketGate (rule_signal rule) frame) (exit_rules exit)))
          = Inr fin" and
    gates: "gate_buy gates = buy" "gate_sell gates = sell" "gate_finalExit gates = fin"
    by (auto simp: buildStrategyGates_def result_bind_Inr_iff)
  have read: "evaluateMarketSignal s frame (int i) = Inr (readGate (Some g) (int i))"
    if "buildMarketGate s frame = Inr g" for s g
    using gate_nth [OF that assms(4)] assms(4) by (simp add: readGate_def)
  show "evaluateMarketSignal (level_signal level) frame (int i) =
        Inr (readGate (map_of (gate_buy gates) (level_id level)) (int i))"
    if "level \<in> set (buyLevels definition)"
    using level_gates_get(1) [OF buy assms(2) that] read gates by auto
  show "evaluateMarketSignal (level_signal level) frame (int i) =
        Inr (readGate (map_of (gate_sell gates) (level_id level)) (int i))"
    if "level \<in> set (sellLevels definition)"
    using level_gates_get(1) [OF sell assms(3) that] read gates by auto
  show "evaluateMarketSignal (rule_signal (exit_rules exit ! k)) frame (int i) =
        Inr (readGate (Some (the (gate_finalExit gates) ! k)) (int i))"
    if "finalExit definition = Some exit" "k < length (exit_rules exit)"
  proof -
    from fin that obtain gs where gs: "fin = Some gs"
        "result_all (\<lambda>rule. buildMarketGate (rule_signal rule) frame) (exit_rules exit) = Inr gs"
      by (auto simp: result_map_Inr_iff)
    from read [OF result_all_nth [OF gs(2) that(2)]] gs(1) gates show ?thesis by simp
  qed
  show "readGate (map_of (gate_buy gates) (level_id level)) j = NOT_EVALUABLE"
    if "int (length (frame_dates frame)) \<le> j \<or> j < 0" "level \<in> set (buyLevels definition)"
    using level_gates_get(1) [OF buy assms(2) that(2)] gate_nth(1) assms(4) that(1) gates
    by (fastforce simp: readGate_def)
qed

text \<open>
  C15. The precomputed gates are the evaluation: once the gates of a strategy are built, reading the
  gate of a BUY level, of a SELL level or of a final-exit rule at any session of the frame returns
  what evaluating that signal at that session returns, and reading outside the frame is not
  evaluable.
\<close>

theorem gates_are_evaluation:
  assumes "buildStrategyGates definition frame = Inr gates"
    and "distinct (map level_id (buyLevels definition))" "distinct (map level_id (sellLevels definition))"
    and "i < length (frame_dates frame)"
  shows "(\<forall>level \<in> set (buyLevels definition). evaluateMarketSignal (level_signal level) frame (int i) =
        Inr (readGate (map_of (gate_buy gates) (level_id level)) (int i))) \<and>
    (\<forall>level \<in> set (sellLevels definition). evaluateMarketSignal (level_signal level) frame (int i) =
        Inr (readGate (map_of (gate_sell gates) (level_id level)) (int i))) \<and>
    (\<forall>exit k. finalExit definition = Some exit \<longrightarrow> k < length (exit_rules exit) \<longrightarrow>
      evaluateMarketSignal (rule_signal (exit_rules exit ! k)) frame (int i) =
        Inr (readGate (Some (the (gate_finalExit gates) ! k)) (int i))) \<and>
    (\<forall>level \<in> set (buyLevels definition). \<forall>j. int (length (frame_dates frame)) \<le> j \<or> j < 0 \<longrightarrow>
      readGate (map_of (gate_buy gates) (level_id level)) j = NOT_EVALUABLE)"
  using gates_are_evaluation_facts [OF assms] by blast

theorem gates_are_evaluation_witness:
  "\<exists>gates. buildStrategyGates sample_definition
      \<lparr>frame_security = ''s'', frame_symbol = ''S'', frame_name = ''N'',
        frame_dates = [''2020-01-02''], frame_closes = [Fin 10], frame_columns = [], periodStartIndex = 0\<rparr>
      = Inr gates \<and>
    readGate (map_of (gate_buy gates) ''b1'') 0 = NOT_EVALUABLE"
proof -
  let ?frame = "\<lparr>frame_security = ''s'', frame_symbol = ''S'', frame_name = ''N'',
        frame_dates = [''2020-01-02''], frame_closes = [Fin 10], frame_columns = [], periodStartIndex = 0\<rparr>"
  let ?level = "hd (buyLevels sample_definition)"
  have gates: "buildStrategyGates sample_definition ?frame =
      Inr \<lparr>gate_buy = [(''b1'', [NOT_EVALUABLE])], gate_sell = [], gate_finalExit = None\<rparr>"
    by code_simp
  have d: "distinct (map level_id (buyLevels sample_definition))"
      "distinct (map level_id (sellLevels sample_definition))" "0 < length (frame_dates ?frame)"
      "?level \<in> set (buyLevels sample_definition)"
    by (simp_all add: sample_definition_def)
  from gates_are_evaluation [OF gates d(1-3), THEN conjunct1, rule_format, OF d(4)]
  have "evaluateMarketSignal (level_signal ?level) ?frame 0 = Inr NOT_EVALUABLE"
    by (simp add: sample_definition_def readGate_def)
  with gates show ?thesis by (simp add: readGate_def)
qed

subsection \<open>Closeness is decided as decimals\<close>

text \<open>A rounded result in the range of prices, and any rounded result, as linear bounds.\<close>

lemma powi_53: "(2 :: rat) powi (- 53) = 1 / 9007199254740992"
  by (simp add: power_int_def power_one_over)

lemma relative_bounds:
  fixes r x :: rat
  assumes "\<bar>r - x\<bar> \<le> \<bar>x\<bar> / 9007199254740992" "0 \<le> x"
  shows "r \<le> x + x / 9007199254740992" "x - x / 9007199254740992 \<le> r"
  using assms by (simp_all only: abs_of_nonneg abs_le_iff) linarith+

lemma binary64_price:
  assumes "1 / 1000000000000000000000000000000 \<le> x" "x \<le> 1000000000000000000000000000000"
  obtains r where "binary64 x = Fin r"
    "r \<le> x + x / 9007199254740992" "x - x / 9007199254740992 \<le> r"
proof -
  have x: "0 \<le> x" using assms(1) by (rule order_trans [rotated]) simp
  have "(1000000000000000000000000000000 :: rat) < 2 ^ 1023" by simp
  then have "\<bar>x\<bar> < 2 ^ 1023" using assms(2) x by (simp only: abs_of_nonneg le_less_trans)
  then obtain r where r: "binary64 x = Fin r" using binary64_finite by blast
  have "(2 :: rat) powi (- 1022) \<le> 1 / 1000000000000000000000000000000" by (simp add: power_int_def power_one_over divide_simps)
  then have "2 powi (- 1022) \<le> \<bar>x\<bar>" using assms(1) x by (simp only: abs_of_nonneg order_trans)
  from binary64_error [OF r this] have "\<bar>r - x\<bar> \<le> \<bar>x\<bar> / 9007199254740992"
    unfolding powi_53 by simp
  from r relative_bounds [OF this x] show thesis by (rule that)
qed

lemma binary64_any:
  assumes "\<bar>x\<bar> \<le> 1000000000000000000000000000000"
  obtains r where "binary64 x = Fin r" "\<bar>r - x\<bar> \<le> \<bar>x\<bar> / 9007199254740992 + 1 / 1000000000000000000000000000000000000000000000000000000000000"
proof -
  have "(1000000000000000000000000000000 :: rat) < 2 ^ 1023" by simp
  then have "\<bar>x\<bar> < 2 ^ 1023" using assms by (rule le_less_trans [rotated])
  then obtain r where r: "binary64 x = Fin r" using binary64_finite by blast
  have "(2 :: rat) powi (- 1075) \<le> 1 / 1000000000000000000000000000000000000000000000000000000000000" by (simp add: power_int_def power_one_over divide_simps)
  with binary64_error_any [OF r] have "\<bar>r - x\<bar> \<le> \<bar>x\<bar> / 9007199254740992 + 1 / 1000000000000000000000000000000000000000000000000000000000000"
    unfolding powi_53 by linarith
  with r show thesis by (rule that)
qed

lemma close_to_constants:
  "IS_CLOSE_TO_TOLERANCE = Fin (5764607523034235 / 288230376151711744)"
  "CLOSE_TO_BOUNDARY_SLACK = Fin (4951760157141521 / 4951760157141521099596496896)"
  by code_simp+

text \<open>
  The computed distance and the computed allowance, each within a hundredth of the slack of the
  exact one.
\<close>

lemma allowance_bounds:
  assumes "1 / 1000000000 \<le> \<bar>v\<bar>" "\<bar>v\<bar> \<le> 100000000000000000000"
  obtains r where
    "js_add (js_mul IS_CLOSE_TO_TOLERANCE (js_abs (Fin v)))
       (js_mul (js_mul IS_CLOSE_TO_TOLERANCE (js_abs (Fin v))) CLOSE_TO_BOUNDARY_SLACK) = Fin r"
    "r \<le> 20000000000020010 / 1000000000000000000 * \<bar>v\<bar>" "20000000000019 / 1000000000000000 * \<bar>v\<bar> \<le> r"
proof -
  define w where "w = \<bar>v\<bar>"
  let ?t = "5764607523034235 / 288230376151711744 :: rat"
  let ?s = "4951760157141521 / 4951760157141521099596496896 :: rat"
  have w: "1 / 1000000000 \<le> w" "w \<le> 100000000000000000000" using assms by (simp_all only: w_def)
  obtain a where a: "binary64 (?t * w) = Fin a"
    "a \<le> ?t * w + ?t * w / 9007199254740992" "?t * w - ?t * w / 9007199254740992 \<le> a"
    by (rule binary64_price [of "?t * w"]) (use w in linarith)+
  obtain b where b: "binary64 (a * ?s) = Fin b"
    "b \<le> a * ?s + a * ?s / 9007199254740992" "a * ?s - a * ?s / 9007199254740992 \<le> b"
    by (rule binary64_price [of "a * ?s"]) (use a(2,3) w in linarith)+
  obtain r where r: "binary64 (a + b) = Fin r"
    "r \<le> a + b + (a + b) / 9007199254740992" "a + b - (a + b) / 9007199254740992 \<le> r"
    by (rule binary64_price [of "a + b"]) (use a(2,3) b(2,3) w in linarith)+
  show thesis
  proof (rule that [of r])
    show "js_add (js_mul IS_CLOSE_TO_TOLERANCE (js_abs (Fin v)))
       (js_mul (js_mul IS_CLOSE_TO_TOLERANCE (js_abs (Fin v))) CLOSE_TO_BOUNDARY_SLACK) = Fin r"
      by (simp only: close_to_constants js_abs.simps js_mul.simps js_add.simps a(1) b(1) r(1)
          flip: w_def)
    show "r \<le> 20000000000020010 / 1000000000000000000 * \<bar>v\<bar>"
      unfolding w_def [symmetric] using a(2,3) b(2,3) r(2,3) w by (simp add: field_simps)
    show "20000000000019 / 1000000000000000 * \<bar>v\<bar> \<le> r"
      unfolding w_def [symmetric] using a(2,3) b(2,3) r(2,3) w by (simp add: field_simps)
  qed
qed

lemma distance_bounds:
  assumes "\<bar>m\<bar> \<le> 100000000000000000000" "\<bar>v\<bar> \<le> 100000000000000000000"
  obtains d where "js_abs (js_sub (Fin m) (Fin v)) = Fin \<bar>d\<bar>"
    "\<bar>d - (m - v)\<bar> \<le> \<bar>m - v\<bar> / 9007199254740992 + 1 / 1000000000000000000000000000000000000000000000000000000000000"
proof -
  have "\<bar>m - v\<bar> \<le> 1000000000000000000000000000000" using assms by linarith
  from binary64_any [OF this] obtain d where d: "binary64 (m - v) = Fin d"
    "\<bar>d - (m - v)\<bar> \<le> \<bar>m - v\<bar> / 9007199254740992 + 1 / 1000000000000000000000000000000000000000000000000000000000000" .
  have "js_abs (js_sub (Fin m) (Fin v)) = Fin \<bar>d\<bar>" using d(1) by (simp add: js_sub_def)
  with d(2) show thesis by (rule that [rotated])
qed

lemma price_bounds:
  assumes "\<bar>x\<bar> \<le> 10000000000000000"
  obtains r where "binary64 x = Fin r" "\<bar>r - x\<bar> \<le> \<bar>x\<bar> / 9007199254740992 + 1 / 10 ^ 60"
    "\<bar>r\<bar> \<le> 100000000000000000000"
proof -
  have "\<bar>x\<bar> \<le> 1000000000000000000000000000000" using assms by linarith
  from binary64_any [OF this] obtain r where r: "binary64 x = Fin r"
    "\<bar>r - x\<bar> \<le> \<bar>x\<bar> / 9007199254740992 + 1 / 1000000000000000000000000000000000000000000000000000000000000" .
  have "\<bar>r\<bar> \<le> 100000000000000000000" using r(2) assms by linarith
  with r show thesis by (intro that [of r]) simp_all
qed

text \<open>
  The two decisions as linear arithmetic over the distances: \<open>em\<close>, \<open>ev\<close> and \<open>ed\<close> are the
  rounding errors of the metric, of the value and of their difference.
\<close>

lemma close_arithmetic:
  fixes d v r em ev ed dist dist' M V :: rat
  assumes "dist' \<le> dist + em + ev" "d \<le> dist' + ed" "V \<le> v + ev" "M \<le> dist + V"
    and "em \<le> M / 9007199254740992 + 1 / 10 ^ 60" "ev \<le> V / 9007199254740992 + 1 / 10 ^ 60"
    and "ed \<le> dist' / 9007199254740992 + 1 / 10 ^ 60"
    and "20000000000019 / 1000000000000000 * v \<le> r" "1 / 100000000 \<le> V" "dist \<le> 2 / 100 * V"
  shows "d \<le> r"
  using assms by (simp add: field_simps)

lemma not_close_arithmetic:
  fixes d v r em ev ed dist dist' M V :: rat
  assumes "dist \<le> dist' + em + ev" "dist' \<le> d + ed" "v \<le> V + ev" "M \<le> dist + V"
    and "em \<le> M / 9007199254740992 + 1 / 10 ^ 60" "ev \<le> V / 9007199254740992 + 1 / 10 ^ 60"
    and "ed \<le> dist' / 9007199254740992 + 1 / 10 ^ 60"
    and "r \<le> 20000000000020010 / 1000000000000000000 * v" "1 / 100000000 \<le> V" "V < 490000"
    and "2 / 100 * V + 1 / 100000000 \<le> dist"
  shows "r < d"
  using assms by (simp add: field_simps)

lemma isCloseTo_decides_decimals_facts:
  assumes "1 / 10 ^ 8 \<le> \<bar>V\<bar>" "\<bar>V\<bar> \<le> 10 ^ 15" "\<bar>M\<bar> \<le> 10 ^ 16"
  shows "\<bar>M - V\<bar> \<le> 2 / 100 * \<bar>V\<bar> \<Longrightarrow> isCloseTo (binary64 M) (binary64 V)"
    and "\<bar>V\<bar> < 490000 \<Longrightarrow> 2 / 100 * \<bar>V\<bar> + 1 / 10 ^ 8 \<le> \<bar>M - V\<bar> \<Longrightarrow>
      \<not> isCloseTo (binary64 M) (binary64 V)"
proof -
  have V: "1 / 100000000 \<le> \<bar>V\<bar>" "\<bar>V\<bar> \<le> 1000000000000000" "\<bar>M\<bar> \<le> 10000000000000000"
    using assms by simp_all
  obtain m where m: "binary64 M = Fin m"
    "\<bar>m - M\<bar> \<le> \<bar>M\<bar> / 9007199254740992 + 1 / 10 ^ 60" "\<bar>m\<bar> \<le> 100000000000000000000"
    using price_bounds [OF V(3)] .
  have "\<bar>V\<bar> \<le> 10000000000000000" using V(2) by linarith
  from price_bounds [OF this] obtain v where v: "binary64 V = Fin v"
    "\<bar>v - V\<bar> \<le> \<bar>V\<bar> / 9007199254740992 + 1 / 10 ^ 60" "\<bar>v\<bar> \<le> 100000000000000000000" .
  note mv = m(2) [simplified] v(2) [simplified]
  from distance_bounds [OF m(3) v(3)] obtain d where
    d: "js_abs (js_sub (Fin m) (Fin v)) = Fin \<bar>d\<bar>"
      "\<bar>d - (m - v)\<bar> \<le> \<bar>m - v\<bar> / 9007199254740992
        + 1 / 1000000000000000000000000000000000000000000000000000000000000" .
  have "1 / 1000000000 \<le> \<bar>v\<bar>" using mv V by linarith
  from allowance_bounds [OF this v(3)] obtain r where r:
    "js_add (js_mul IS_CLOSE_TO_TOLERANCE (js_abs (Fin v)))
       (js_mul (js_mul IS_CLOSE_TO_TOLERANCE (js_abs (Fin v))) CLOSE_TO_BOUNDARY_SLACK) = Fin r"
    "r \<le> 20000000000020010 / 1000000000000000000 * \<bar>v\<bar>" "20000000000019 / 1000000000000000 * \<bar>v\<bar> \<le> r" .
  have close: "isCloseTo (binary64 M) (binary64 V) \<longleftrightarrow> \<bar>d\<bar> \<le> r"
    unfolding isCloseTo_def m(1) v(1) Let_def d(1) r(1) by simp
  have tri: "\<bar>m - v\<bar> \<le> \<bar>M - V\<bar> + \<bar>m - M\<bar> + \<bar>v - V\<bar>" "\<bar>d\<bar> \<le> \<bar>m - v\<bar> + \<bar>d - (m - v)\<bar>"
    "\<bar>V\<bar> \<le> \<bar>v\<bar> + \<bar>v - V\<bar>" "\<bar>M\<bar> \<le> \<bar>M - V\<bar> + \<bar>V\<bar>" "\<bar>v\<bar> \<le> \<bar>V\<bar> + \<bar>v - V\<bar>"
    "\<bar>M - V\<bar> \<le> \<bar>m - v\<bar> + \<bar>m - M\<bar> + \<bar>v - V\<bar>" "\<bar>m - v\<bar> \<le> \<bar>d\<bar> + \<bar>d - (m - v)\<bar>"
    by linarith+
  show "isCloseTo (binary64 M) (binary64 V)" if "\<bar>M - V\<bar> \<le> 2 / 100 * \<bar>V\<bar>"
    unfolding close
    by (rule close_arithmetic [OF tri(1-4)]) (use m(2) v(2) d(2) r(3) V that in simp_all)
  show "\<not> isCloseTo (binary64 M) (binary64 V)"
    if "\<bar>V\<bar> < 490000" "2 / 100 * \<bar>V\<bar> + 1 / 10 ^ 8 \<le> \<bar>M - V\<bar>"
    unfolding close not_le
    by (rule not_close_arithmetic [OF tri(6,7,5,4)]) (use m(2) v(2) d(2) r(2) V that in simp_all)
qed




end
