(* ===== verification/Money.thy ===== *)
theory Money
  imports JsNumber "HOL-Library.Log_Nat"
begin

section \<open>The exact decimal ledger\<close>

text \<open>
  \<open>packages/strategy/src/backtest/money.ts\<close>. The ledger computes with \<open>decimal.js\<close>, a library
  outside the repository: its operations are the fields of a record \<open>decimal_lib\<close>, an argument of
  every definition that uses them. A decimal value is written with the constructors of \<open>jsnum\<close>:
  a rational, an infinity or \<open>NaN\<close>. A canonical string of the source has a fixed number of
  fractional digits and determines the value it prints, so \<open>money_string\<close> is that value.

  The locale \<open>decimal_library\<close> collects what the library documents for the configuration of the ledger (50
  significant digits, half away from zero): every operation is correctly rounded, hence exact when
  the exact result fits 50 digits and otherwise within one unit of the 50th digit, comparisons are
  numeric and false on \<open>NaN\<close>, \<open>toDecimalPlaces\<close> rounds to a multiple of the scale, and the
  constructor applied to a number takes the digits the number prints, at most 17 of them. Applied to
  a decimal the constructor copies it, so the quantizers below take a decimal and a caller that
  holds a number converts it with \<open>d_of_number\<close>.
\<close>

type_synonym decimal = jsnum
type_synonym money_string = jsnum

datatype rounding = ROUND_HALF_UP | ROUND_DOWN

record decimal_lib =
  d_of_number :: "jsnum \<Rightarrow> decimal"
  d_plus :: "decimal \<Rightarrow> decimal \<Rightarrow> decimal"
  d_minus :: "decimal \<Rightarrow> decimal \<Rightarrow> decimal"
  d_times :: "decimal \<Rightarrow> decimal \<Rightarrow> decimal"
  d_div :: "decimal \<Rightarrow> decimal \<Rightarrow> decimal"
  d_gt :: "decimal \<Rightarrow> decimal \<Rightarrow> bool"
  d_gte :: "decimal \<Rightarrow> decimal \<Rightarrow> bool"
  d_lt :: "decimal \<Rightarrow> decimal \<Rightarrow> bool"
  d_toDecimalPlaces :: "nat \<Rightarrow> rounding \<Rightarrow> decimal \<Rightarrow> decimal"
  d_toFixed :: "nat \<Rightarrow> decimal \<Rightarrow> money_string"
  d_toNumber :: "decimal \<Rightarrow> jsnum"

subsection \<open>Operations of the ledger\<close>

definition MONEY_SCALE :: nat where "MONEY_SCALE = 6"
definition SHARES_SCALE :: nat where "SHARES_SCALE = 10"
definition PRICE_SCALE :: nat where "PRICE_SCALE = 8"

definition MONEY_ZERO :: "decimal" where "MONEY_ZERO = Fin 0"

text \<open>\<open>new Money(10).pow(-10)\<close>.\<close>

definition SHARES_ULP :: "decimal" where "SHARES_ULP = Fin (1 / 10 ^ SHARES_SCALE)"

definition quantizeMoney :: "decimal_lib \<Rightarrow> decimal \<Rightarrow> decimal" where
  "quantizeMoney D value = d_toDecimalPlaces D MONEY_SCALE ROUND_HALF_UP value"

definition quantizePrice :: "decimal_lib \<Rightarrow> decimal \<Rightarrow> decimal" where
  "quantizePrice D value = d_toDecimalPlaces D PRICE_SCALE ROUND_HALF_UP value"

definition quantizeSharesDown :: "decimal_lib \<Rightarrow> decimal \<Rightarrow> decimal" where
  "quantizeSharesDown D value = d_toDecimalPlaces D SHARES_SCALE ROUND_DOWN value"

definition moneyString :: "decimal_lib \<Rightarrow> decimal \<Rightarrow> money_string" where
  "moneyString D value = d_toFixed D MONEY_SCALE value"

definition sharesString :: "decimal_lib \<Rightarrow> decimal \<Rightarrow> money_string" where
  "sharesString D value = d_toFixed D SHARES_SCALE value"

definition priceString :: "decimal_lib \<Rightarrow> decimal \<Rightarrow> money_string" where
  "priceString D value = d_toFixed D PRICE_SCALE value"

definition toNumber :: "decimal_lib \<Rightarrow> decimal \<Rightarrow> jsnum" where
  "toNumber D value = d_toNumber D value"

definition buyCashOutflow :: "decimal_lib \<Rightarrow> decimal \<Rightarrow> decimal \<Rightarrow> decimal" where
  "buyCashOutflow D amount fees = quantizeMoney D (d_plus D amount fees)"

definition exitCashInflow :: "decimal_lib \<Rightarrow> decimal \<Rightarrow> decimal \<Rightarrow> decimal" where
  "exitCashInflow D proceeds fees = quantizeMoney D (d_minus D proceeds fees)"

definition spendableAfterFees :: "decimal_lib \<Rightarrow> decimal \<Rightarrow> decimal \<Rightarrow> decimal" where
  "spendableAfterFees D cash fees =
     (let spendable = d_minus D cash fees
      in if d_gt D spendable MONEY_ZERO then quantizeMoney D spendable else MONEY_ZERO)"

definition V1_FEE :: "decimal_lib \<Rightarrow> decimal" where
  "V1_FEE D = quantizeMoney D (d_of_number D (Fin 0))"

subsection \<open>Rounding to a scale\<close>

definition at_scale :: "nat \<Rightarrow> rat \<Rightarrow> bool" where
  "at_scale n x \<longleftrightarrow> (\<exists>k :: int. x * 10 ^ n = of_int k)"

fun round_to :: "nat \<Rightarrow> rounding \<Rightarrow> rat \<Rightarrow> rat" where
  "round_to n ROUND_HALF_UP x = sgn x * of_int \<lfloor>\<bar>x\<bar> * 10 ^ n + 1 / 2\<rfloor> / 10 ^ n"
| "round_to n ROUND_DOWN x = sgn x * of_int \<lfloor>\<bar>x\<bar> * 10 ^ n\<rfloor> / 10 ^ n"

lemma at_scale_0 [simp]: "at_scale n 0"
  by (simp add: at_scale_def exI [of _ 0])

lemma at_scale_add: "at_scale n x \<Longrightarrow> at_scale n y \<Longrightarrow> at_scale n (x + y)"
  by (auto simp: at_scale_def distrib_right) (metis of_int_add)

lemma at_scale_diff: "at_scale n x \<Longrightarrow> at_scale n y \<Longrightarrow> at_scale n (x - y)"
  by (auto simp: at_scale_def left_diff_distrib) (metis of_int_diff)

lemma sgn_of_int_scale: "sgn x * of_int k = (of_int (if x > 0 then k else if x < 0 then - k else 0) :: rat)"
  by (simp add: sgn_if)

lemma at_scale_round_to [simp]: "at_scale n (round_to n mode x)"
  by (cases mode) (simp_all add: at_scale_def sgn_of_int_scale)

lemma round_to_nonneg: "0 \<le> x \<Longrightarrow> 0 \<le> round_to n mode x"
  by (cases mode) (auto simp: sgn_if intro!: divide_nonneg_pos)

lemma round_to_0 [simp]: "round_to n mode 0 = 0"
  by (cases mode) simp_all

lemma round_to_id:
  assumes "at_scale n x"
  shows "round_to n mode x = x"
proof -
  from assms obtain k :: int where k: "x * 10 ^ n = of_int k" by (auto simp: at_scale_def)
  have abs: "\<bar>x\<bar> * 10 ^ n = of_int \<bar>k\<bar>" using k by (metis abs_mult abs_of_pos of_int_abs zero_less_power zero_less_numeral)
  have fl: "\<lfloor>of_int \<bar>k\<bar> + 1 / 2 :: rat\<rfloor> = \<bar>k\<bar>" by linarith
  have "sgn x * of_int \<bar>k\<bar> / 10 ^ n = x"
    using abs [symmetric] by (simp add: sgn_if)
  then show ?thesis by (cases mode) (simp_all only: round_to.simps abs fl floor_of_int)
qed

lemma round_to_mono:
  assumes "x \<le> y"
  shows "round_to n mode x \<le> round_to n mode y"
proof -
  have pos: "round_to n mode x \<le> round_to n mode y" if "0 \<le> x" "x \<le> y" for x y
  proof -
    have "\<bar>x\<bar> * 10 ^ n \<le> \<bar>y\<bar> * 10 ^ n" using that by simp
    then have fl: "\<lfloor>\<bar>x\<bar> * 10 ^ n + 1 / 2\<rfloor> \<le> \<lfloor>\<bar>y\<bar> * 10 ^ n + 1 / 2\<rfloor>" "\<lfloor>\<bar>x\<bar> * 10 ^ n\<rfloor> \<le> \<lfloor>\<bar>y\<bar> * 10 ^ n\<rfloor>"
      by (intro floor_mono add_right_mono, simp)+
    show ?thesis
    proof (cases "x = 0")
      case True
      then show ?thesis using round_to_nonneg [of y] that by simp
    next
      case False
      with that have "sgn x = 1" "sgn y = 1" by (simp_all add: sgn_if)
      then show ?thesis using fl by (cases mode) (simp_all add: divide_right_mono)
    qed
  qed
  have neg: "round_to n mode (- z) = - round_to n mode z" for z
    by (cases mode) (simp_all add: sgn_minus)
  show ?thesis
  proof (cases "0 \<le> x")
    case True
    then show ?thesis using pos assms by blast
  next
    case x: False
    show ?thesis
    proof (cases "0 \<le> y")
      case True
      have "round_to n mode x = - round_to n mode (- x)" using neg [of "- x"] by simp
      then show ?thesis using round_to_nonneg [of "- x" n mode] round_to_nonneg [OF True, of n mode] x by simp
    next
      case False
      have "round_to n mode (- y) \<le> round_to n mode (- x)" using pos [of "- y" "- x"] assms False by simp
      then show ?thesis by (simp add: neg)
    qed
  qed
qed

lemma round_to_le: "x \<le> y \<Longrightarrow> at_scale n y \<Longrightarrow> round_to n mode x \<le> y"
  using round_to_mono [of x y n mode] round_to_id [of n y mode] by simp

lemma round_down_le: "0 \<le> x \<Longrightarrow> round_to n ROUND_DOWN x \<le> x"
  by (simp add: sgn_if divide_le_eq)

lemma round_half_up_error: "\<bar>round_to n ROUND_HALF_UP x - x\<bar> \<le> 1 / (2 * 10 ^ n)"
proof -
  define f where "f = \<lfloor>\<bar>x\<bar> * 10 ^ n + 1 / 2\<rfloor>"
  have f: "\<bar>of_int f - \<bar>x\<bar> * 10 ^ n\<bar> \<le> 1 / 2" unfolding f_def by linarith
  have "round_to n ROUND_HALF_UP x - x = sgn x * ((of_int f - \<bar>x\<bar> * 10 ^ n) / 10 ^ n)"
    by (simp add: f_def diff_divide_distrib right_diff_distrib mult_sgn_abs)
  then have "\<bar>round_to n ROUND_HALF_UP x - x\<bar> \<le> \<bar>of_int f - \<bar>x\<bar> * 10 ^ n\<bar> / 10 ^ n"
    by (simp add: abs_mult abs_sgn_eq)
  also have "\<dots> \<le> 1 / 2 / 10 ^ n" using f by (intro divide_right_mono) simp_all
  finally show ?thesis by (simp add: field_simps)
qed

subsection \<open>Significant digits\<close>

definition fits :: "nat \<Rightarrow> rat \<Rightarrow> bool" where
  "fits n x \<longleftrightarrow> (\<exists>m e. x = of_int m * 10 powi e \<and> \<bar>m\<bar> < 10 ^ n)"

definition rounded50 :: "rat \<Rightarrow> rat \<Rightarrow> bool" where
  "rounded50 x r \<longleftrightarrow> \<bar>r - x\<bar> \<le> \<bar>x\<bar> / 10 ^ 49 \<and> fits 50 r \<and> (fits 50 x \<longrightarrow> r = x)"

lemma powi10_pos [simp]: "0 < (10 :: rat) powi e"
  by simp

lemma powi10_add: "(10 :: rat) powi (a + b) = 10 powi a * 10 powi b"
  by (simp add: power_int_add)

lemma powi10_mono: "a \<le> b \<Longrightarrow> (10 :: rat) powi a \<le> 10 powi b"
  by (simp add: power_int_increasing)

lemma powi10_less_cancel: "(10 :: rat) powi a < 10 powi b \<Longrightarrow> a < b"
  by (meson leD leI powi10_mono)

lemma powi10_of_nat: "(10 :: rat) powi (int n) = 10 ^ n"
  by (simp add: power_int_def)

lemma powi10_minus: "(10 :: rat) powi (- int n) = 1 / 10 ^ n"
  by (simp add: power_int_minus powi10_of_nat divide_inverse)

lemma fits_0 [simp]: "fits n 0"
  unfolding fits_def by (intro exI [of _ 0]) simp

lemma fits_mono: "fits n x \<Longrightarrow> n \<le> k \<Longrightarrow> fits k x"
proof -
  assume "fits n x" "n \<le> k"
  then obtain m e where "x = of_int m * 10 powi e" "\<bar>m\<bar> < 10 ^ n" by (auto simp: fits_def)
  moreover have "(10 :: int) ^ n \<le> 10 ^ k" using \<open>n \<le> k\<close> by (simp add: power_increasing)
  ultimately show "fits k x" unfolding fits_def by (intro exI conjI) (assumption, linarith)
qed

lemma fits_scaled: "at_scale n x \<Longrightarrow> \<bar>x\<bar> * 10 ^ n < 10 ^ k \<Longrightarrow> fits k x"
proof -
  assume a: "at_scale n x" and b: "\<bar>x\<bar> * 10 ^ n < 10 ^ k"
  from a obtain m :: int where m: "x * 10 ^ n = of_int m" by (auto simp: at_scale_def)
  have "(of_int \<bar>m\<bar> :: rat) = \<bar>x\<bar> * 10 ^ n" using m by (simp add: abs_mult flip: m)
  then have "(of_int \<bar>m\<bar> :: rat) < of_int (10 ^ k)" using b by simp
  then have "\<bar>m\<bar> < 10 ^ k" by (simp only: of_int_less_iff)
  moreover have "x = of_int m * 10 powi (- int n)" by (simp add: powi10_minus flip: m)
  ultimately show "fits k x" unfolding fits_def by blast
qed

lemma at_scale_powi: "- int n \<le> e \<Longrightarrow> at_scale n (of_int m * 10 powi e)"
proof -
  assume e: "- int n \<le> e"
  have "of_int m * 10 powi e * 10 ^ n = (of_int m * 10 powi (e + int n) :: rat)"
    by (simp add: powi10_add powi10_of_nat)
  also have "\<dots> = of_int (m * 10 ^ nat (e + int n))" using e by (simp add: power_int_def)
  finally show ?thesis unfolding at_scale_def by blast
qed

lemma fits_round_to:
  assumes "fits 50 x"
  shows "fits 50 (round_to n mode x)"
proof -
  from assms obtain m e where x: "x = of_int m * 10 powi e" and m: "\<bar>m\<bar> < 10 ^ 50"
    by (auto simp: fits_def)
  show ?thesis
  proof (cases "- int n \<le> e")
    case True
    with x have "at_scale n x" by (simp only: at_scale_powi)
    then show ?thesis using assms by (simp only: round_to_id)
  next
    case False
    have "\<bar>x\<bar> * 10 ^ n = of_int \<bar>m\<bar> * 10 powi (e + int n)"
      by (simp add: x abs_mult powi10_add powi10_of_nat)
    also have "\<dots> \<le> of_int \<bar>m\<bar> * 10 powi (- 1)"
      using False by (intro mult_left_mono powi10_mono) simp_all
    also have "(of_int \<bar>m\<bar> :: rat) < of_int (10 ^ 50)" using m by (simp only: of_int_less_iff)
    finally have small: "\<bar>x\<bar> * 10 ^ n < 10 ^ 49" by (simp add: power_int_def)
    have "\<bar>round_to n mode x\<bar> * 10 ^ n \<le> \<bar>x\<bar> * 10 ^ n + 1 / 2"
    proof -
      have "of_int \<lfloor>\<bar>x\<bar> * 10 ^ n + 1 / 2\<rfloor> \<le> \<bar>x\<bar> * 10 ^ n + 1 / 2"
        "of_int \<lfloor>\<bar>x\<bar> * 10 ^ n\<rfloor> \<le> \<bar>x\<bar> * 10 ^ n"
        "0 \<le> \<lfloor>\<bar>x\<bar> * 10 ^ n + 1 / 2\<rfloor>" "0 \<le> \<lfloor>\<bar>x\<bar> * 10 ^ n\<rfloor>"
        by (simp_all add: zero_le_floor add_nonneg_nonneg)
      then show ?thesis by (cases mode) (auto simp: abs_mult abs_sgn_eq, linarith)
    qed
    also have "\<dots> < 10 ^ 50" using small by simp
    finally show ?thesis by (intro fits_scaled [of n]) simp_all
  qed
qed

declare round_to.simps [simp del]

lemma rounded50_fits: "rounded50 x r \<Longrightarrow> fits 50 r"
  by (simp add: rounded50_def)

lemma rounded50_exact: "rounded50 x r \<Longrightarrow> fits 50 x \<Longrightarrow> r = x"
  by (simp add: rounded50_def)

subsection \<open>What the library documents\<close>

text \<open>An amount of money: a non-negative value at the money scale that fits the precision.\<close>

definition money :: "decimal \<Rightarrow> bool" where
  "money v \<longleftrightarrow> (\<exists>x. v = Fin x \<and> at_scale 6 x \<and> fits 50 x \<and> 0 \<le> x)"

locale decimal_library =
  fixes D :: decimal_lib
  assumes of_number: "\<exists>r. d_of_number D (Fin x) = Fin r \<and> fits 17 r \<and> sgn r = sgn x \<and>
      (1 \<le> \<bar>x\<bar> * 2 ^ 1022 \<longrightarrow> \<bar>r - x\<bar> \<le> \<bar>x\<bar> / 10 ^ 15)"
    and of_number_inf: "d_of_number D PosInf = PosInf"
    and of_number_nan: "d_of_number D NotANumber = NotANumber"
    and plus: "\<exists>r. d_plus D (Fin x) (Fin y) = Fin r \<and> rounded50 (x + y) r"
    and minus: "\<exists>r. d_minus D (Fin x) (Fin y) = Fin r \<and> rounded50 (x - y) r"
    and times: "\<exists>r. d_times D (Fin x) (Fin y) = Fin r \<and> rounded50 (x * y) r"
    and times_inf: "d_times D PosInf (Fin 0) = NotANumber"
    and division: "y \<noteq> 0 \<Longrightarrow> \<exists>r. d_div D (Fin x) (Fin y) = Fin r \<and> rounded50 (x / y) r"
    and div_zero: "d_div D (Fin x) (Fin 0) = (if x = 0 then NotANumber else signed_infinity (0 < x))"
    and div_nan: "d_div D NotANumber b = NotANumber"
    and gt: "d_gt D a b = js_gt a b"
    and gte: "d_gte D a b = js_ge a b"
    and lt: "d_lt D a b = js_lt a b"
    and places: "d_toDecimalPlaces D n mode (Fin x) = Fin (round_to n mode x)"
    and places_inf: "d_toDecimalPlaces D n mode PosInf = PosInf"
    and places_nan: "d_toDecimalPlaces D n mode NotANumber = NotANumber"
    and fixed: "d_toFixed D n (Fin x) = Fin (round_to n ROUND_HALF_UP x)"
    and to_number: "d_toNumber D (Fin x) = binary64 x"
begin

lemma rounded50_nonneg: "rounded50 x r \<Longrightarrow> 0 \<le> x \<Longrightarrow> 0 \<le> r"
proof -
  assume r: "rounded50 x r" and x: "0 \<le> x"
  have "\<bar>r - x\<bar> \<le> x / 10 ^ 49" using r x by (simp add: rounded50_def)
  moreover have "x / 10 ^ 49 \<le> x" using x by (simp add: divide_le_eq mult_le_cancel_left)
  ultimately show "0 \<le> r" by linarith
qed

lemma quantizeMoney_Fin [simp]: "quantizeMoney D (Fin x) = Fin (round_to 6 ROUND_HALF_UP x)"
  by (simp add: quantizeMoney_def MONEY_SCALE_def places)

lemma quantizePrice_Fin [simp]: "quantizePrice D (Fin x) = Fin (round_to 8 ROUND_HALF_UP x)"
  by (simp add: quantizePrice_def PRICE_SCALE_def places)

lemma quantizeSharesDown_Fin [simp]: "quantizeSharesDown D (Fin x) = Fin (round_to 10 ROUND_DOWN x)"
  by (simp add: quantizeSharesDown_def SHARES_SCALE_def places)

lemma quantizeMoney_money: "money v \<Longrightarrow> quantizeMoney D v = v"
  by (auto simp: money_def round_to_id)

lemma money_zero [simp]: "money MONEY_ZERO"
  by (simp add: money_def MONEY_ZERO_def)

lemma money_quantize:
  assumes "fits 50 x" "0 \<le> x"
  shows "money (quantizeMoney D (Fin x))"
  using assms by (simp add: money_def fits_round_to round_to_nonneg)

lemma money_number: "0 \<le> x \<Longrightarrow> money (quantizeMoney D (d_of_number D (Fin x)))"
proof -
  assume x: "0 \<le> x"
  from of_number [of x] obtain r where r: "d_of_number D (Fin x) = Fin r" "fits 17 r" "sgn r = sgn x" by blast
  then have "0 \<le> r" using x by (simp add: sgn_if split: if_splits)
  then show ?thesis using r fits_mono [OF r(2), of 50] by (simp only: money_quantize)
qed

lemma money_fee [simp]: "V1_FEE D = MONEY_ZERO"
proof -
  from of_number [of 0] obtain r where "d_of_number D (Fin 0) = Fin r" "r = 0"
    by (auto simp: sgn_if split: if_splits)
  then show ?thesis by (simp add: V1_FEE_def MONEY_ZERO_def)
qed

lemma money_add: "money a \<Longrightarrow> money b \<Longrightarrow> money (quantizeMoney D (d_plus D a b))"
proof -
  assume "money a" "money b"
  then obtain x y where xy: "a = Fin x" "b = Fin y" "0 \<le> x + y" by (auto simp: money_def)
  from plus [of x y] obtain r where "d_plus D a b = Fin r" "rounded50 (x + y) r" using xy by auto
  then show ?thesis
    using rounded50_nonneg [OF _ xy(3)] money_quantize [OF rounded50_fits] by (simp only:)
qed

lemma money_fee_neutral:
  assumes "money a"
  shows "buyCashOutflow D a MONEY_ZERO = a" "exitCashInflow D a MONEY_ZERO = a"
    "spendableAfterFees D a MONEY_ZERO = a"
proof -
  from assms obtain x where x: "a = Fin x" "at_scale 6 x" "fits 50 x" "0 \<le> x" by (auto simp: money_def)
  have p: "d_plus D a MONEY_ZERO = a"
    using plus [of x 0] x by (auto simp: MONEY_ZERO_def dest: rounded50_exact)
  have m: "d_minus D a MONEY_ZERO = a"
    using minus [of x 0] x by (auto simp: MONEY_ZERO_def dest: rounded50_exact)
  show "buyCashOutflow D a MONEY_ZERO = a" "exitCashInflow D a MONEY_ZERO = a"
    by (simp_all add: buyCashOutflow_def exitCashInflow_def p m quantizeMoney_money assms)
  show "spendableAfterFees D a MONEY_ZERO = a"
    unfolding spendableAfterFees_def m Let_def quantizeMoney_money [OF assms] gt
    using x by (auto simp: MONEY_ZERO_def)
qed

lemma plus_exact:
  assumes "at_scale n x" "at_scale n y" "\<bar>x + y\<bar> * 10 ^ n < 10 ^ 50"
  shows "d_plus D (Fin x) (Fin y) = Fin (x + y)"
  using plus [of x y] fits_scaled [OF at_scale_add [OF assms(1,2)] assms(3)]
  by (auto dest: rounded50_exact)

lemma minus_exact:
  assumes "at_scale n x" "at_scale n y" "\<bar>x - y\<bar> * 10 ^ n < 10 ^ 50"
  shows "d_minus D (Fin x) (Fin y) = Fin (x - y)"
  using minus [of x y] fits_scaled [OF at_scale_diff [OF assms(1,2)] assms(3)]
  by (auto dest: rounded50_exact)

lemma minus_zero: "fits 50 x \<Longrightarrow> d_minus D (Fin x) MONEY_ZERO = Fin x"
  using minus [of x 0] by (auto simp: MONEY_ZERO_def dest: rounded50_exact)

lemma money_subtract:
  assumes "money a" "money b" "\<not> d_gt D b a"
  shows "money (quantizeMoney D (d_minus D a b))"
proof -
  from assms obtain x y where xy: "a = Fin x" "b = Fin y" "0 \<le> x - y"
    by (auto simp: money_def gt)
  from minus [of x y] obtain r where "d_minus D a b = Fin r" "rounded50 (x - y) r" using xy by auto
  then show ?thesis
    using rounded50_nonneg [OF _ xy(3)] money_quantize [OF rounded50_fits] by (simp only:)
qed

end

subsection \<open>The library itself, exactly rounded\<close>

text \<open>
  An implementation of the documented behaviour: the value rounded to the given number of
  significant digits, half away from zero. It shows that the laws can hold and it is what the
  witnesses evaluate.
\<close>

function decimal_digits :: "int \<Rightarrow> int" where
  "decimal_digits k = (if k < 1 then 0 else 1 + decimal_digits (k div 10))"
  by auto
termination by (relation "measure nat") (auto simp: nat_less_eq_zless)

declare decimal_digits.simps [simp del]

lemma decimal_digits_floorlog: "0 < k \<Longrightarrow> decimal_digits k = int (floorlog 10 (nat k))"
proof (induction k rule: decimal_digits.induct)
  case (1 k)
  show ?case
  proof (cases "k < 10")
    case True
    with 1(2) show ?thesis
      by (simp add: decimal_digits.simps [of k] decimal_digits.simps [of 0] floorlog_def floor_eq_iff log_less_one_cancel_iff)
  next
    case False
    then have "decimal_digits (k div 10) = int (floorlog 10 (nat (k div 10)))" using 1 by simp
    moreover have "floorlog 10 (nat k) = floorlog 10 (nat k div 10) + 1"
      using False by (subst compute_floorlog) simp
    ultimately show ?thesis using 1(2) by (simp add: decimal_digits.simps [of k] nat_div_distrib)
  qed
qed

definition decade :: "rat \<Rightarrow> int" where
  "decade x =
     (case quotient_of \<bar>x\<bar> of (p, q) \<Rightarrow>
        let d = decimal_digits p - decimal_digits q
        in if 10 powi d \<le> \<bar>x\<bar> then d else d - 1)"

definition significant :: "nat \<Rightarrow> rat \<Rightarrow> rat" where
  "significant n x =
     (if x = 0 then 0
      else let u = 10 powi (decade x - int n + 1) in sgn x * of_int \<lfloor>\<bar>x\<bar> / u + 1 / 2\<rfloor> * u)"

fun lift2 :: "(rat \<Rightarrow> rat \<Rightarrow> jsnum) \<Rightarrow> decimal \<Rightarrow> decimal \<Rightarrow> decimal" where
  "lift2 f (Fin x) (Fin y) = f x y"
| "lift2 f _ _ = NotANumber"

fun map_finite :: "(rat \<Rightarrow> rat) \<Rightarrow> decimal \<Rightarrow> decimal" where
  "map_finite f (Fin x) = Fin (f x)"
| "map_finite f v = v"

definition decimal_js :: decimal_lib where
  "decimal_js =
     \<lparr>d_of_number = map_finite (significant 17),
      d_plus = lift2 (\<lambda>x y. Fin (significant 50 (x + y))),
      d_minus = lift2 (\<lambda>x y. Fin (significant 50 (x - y))),
      d_times = lift2 (\<lambda>x y. Fin (significant 50 (x * y))),
      d_div = lift2 (\<lambda>x y. if y = 0 then (if x = 0 then NotANumber else signed_infinity (0 < x))
        else Fin (significant 50 (x / y))),
      d_gt = (\<lambda>a b. js_gt a b), d_gte = (\<lambda>a b. js_ge a b), d_lt = js_lt,
      d_toDecimalPlaces = (\<lambda>n mode. map_finite (round_to n mode)),
      d_toFixed = (\<lambda>n. map_finite (round_to n ROUND_HALF_UP)),
      d_toNumber = (\<lambda>v. case v of Fin x \<Rightarrow> binary64 x | _ \<Rightarrow> v)\<rparr>"

lemma decade_bounds:
  assumes "x \<noteq> 0"
  shows "10 powi decade x \<le> \<bar>x\<bar>" "\<bar>x\<bar> < 10 powi (decade x + 1)"
proof -
  obtain p q where pq: "quotient_of \<bar>x\<bar> = (p, q)" by fastforce
  have q: "0 < q" and x: "\<bar>x\<bar> = of_int p / of_int q"
    using quotient_of_denom_pos [OF pq] quotient_of_div [OF pq] by auto
  have "0 < \<bar>x\<bar>" using assms by simp
  then have p: "0 < p" using q unfolding x by (simp add: zero_less_divide_iff)
  have dig: "10 powi (int (floorlog 10 (nat k)) - 1) \<le> (of_int k :: rat)"
    "(of_int k :: rat) < 10 powi int (floorlog 10 (nat k))" if "0 < k" for k :: int
  proof -
    have b: "10 ^ (floorlog 10 (nat k) - 1) \<le> nat k" "nat k < 10 ^ floorlog 10 (nat k)"
      using floorlog_bounds [of "nat k" 10] that by auto
    have pos: "0 < floorlog 10 (nat k)" using that by (simp add: floorlog_def)
    have k: "(of_int k :: rat) = of_nat (nat k)" using that by simp
    have "(of_nat (10 ^ (floorlog 10 (nat k) - 1)) :: rat) \<le> of_nat (nat k)" using b(1) by (simp only: of_nat_le_iff)
    then show "10 powi (int (floorlog 10 (nat k)) - 1) \<le> (of_int k :: rat)"
      unfolding k using pos by (simp add: power_int_def nat_diff_distrib)
    have "(of_nat (nat k) :: rat) < of_nat (10 ^ floorlog 10 (nat k))" using b(2) by (simp only: of_nat_less_iff)
    then show "(of_int k :: rat) < 10 powi int (floorlog 10 (nat k))"
      unfolding k by (simp add: power_int_def)
  qed
  note P = dig [OF p] and Q = dig [OF q]
  let ?d = "int (floorlog 10 (nat p)) - int (floorlog 10 (nat q))"
  have "\<bar>x\<bar> < 10 powi (?d + 1)"
  proof -
    have "(of_int p :: rat) < 10 powi (?d + 1) * 10 powi (int (floorlog 10 (nat q)) - 1)"
      using P(2) by (simp flip: powi10_add)
    also have "\<dots> \<le> 10 powi (?d + 1) * of_int q" using Q(1) by simp
    finally show ?thesis using q by (simp add: x divide_less_eq)
  qed
  moreover have "10 powi (?d - 1) \<le> \<bar>x\<bar>"
  proof -
    have "10 powi (?d - 1) * (of_int q :: rat) \<le> 10 powi (?d - 1) * 10 powi int (floorlog 10 (nat q))"
      using Q(2) by (intro mult_left_mono) auto
    also have "\<dots> = 10 powi (int (floorlog 10 (nat p)) - 1)"
      by (simp only: powi10_add [symmetric]) simp
    also note P(1)
    finally show ?thesis using q by (simp add: x le_divide_eq)
  qed
  ultimately show "10 powi decade x \<le> \<bar>x\<bar>" "\<bar>x\<bar> < 10 powi (decade x + 1)"
    by (auto simp: decade_def pq Let_def decimal_digits_floorlog p q)
qed

lemma significant_parts:
  assumes "x \<noteq> 0"
  defines "u n \<equiv> 10 powi (decade x - int n + 1)"
  shows "10 ^ n \<le> \<bar>x\<bar> / u (Suc n)" "\<bar>x\<bar> / u (Suc n) < 10 ^ Suc n"
    "significant n x = sgn x * of_int \<lfloor>\<bar>x\<bar> / u n + 1 / 2\<rfloor> * u n"
proof -
  have u: "10 powi decade x = 10 ^ n * u (Suc n)" "10 powi (decade x + 1) = 10 ^ Suc n * u (Suc n)"
    unfolding u_def powi10_of_nat [symmetric] powi10_add [symmetric] by (simp_all add: algebra_simps)
  have "0 < u (Suc n)" by (simp add: u_def)
  then show "10 ^ n \<le> \<bar>x\<bar> / u (Suc n)" "\<bar>x\<bar> / u (Suc n) < 10 ^ Suc n"
    using decade_bounds [OF assms(1)] unfolding u by (simp_all only: le_divide_eq divide_less_eq if_True)
  show "significant n x = sgn x * of_int \<lfloor>\<bar>x\<bar> / u n + 1 / 2\<rfloor> * u n"
    using assms(1) by (simp add: significant_def u_def Let_def)
qed

lemma significant_laws:
  "\<bar>significant (Suc n) x - x\<bar> \<le> \<bar>x\<bar> / 10 ^ n" "fits (Suc n) (significant (Suc n) x)"
  "sgn (significant (Suc n) x) = sgn x" "fits (Suc n) x \<Longrightarrow> significant (Suc n) x = x"
proof -
  have "\<bar>significant (Suc n) x - x\<bar> \<le> \<bar>x\<bar> / 10 ^ n \<and> fits (Suc n) (significant (Suc n) x) \<and>
    sgn (significant (Suc n) x) = sgn x \<and> (fits (Suc n) x \<longrightarrow> significant (Suc n) x = x)"
  proof (cases "x = 0")
    case True
    then show ?thesis by (simp add: significant_def)
  next
    case False
    define u :: rat where "u = 10 powi (decade x - int (Suc n) + 1)"
    define f where "f = \<lfloor>\<bar>x\<bar> / u + 1 / 2\<rfloor>"
    have u: "0 < u" by (simp add: u_def)
    note sig = significant_parts [OF False, of n, folded u_def] significant_parts(3) [OF False, of "Suc n", folded u_def f_def]
    have f: "\<bar>of_int f - \<bar>x\<bar> / u\<bar> \<le> 1 / 2" unfolding f_def by linarith
    have one: "1 \<le> \<bar>x\<bar> / u" using sig(1) by (rule order_trans [rotated]) simp
    have f1: "1 \<le> f" unfolding f_def using one by linarith
    have "significant (Suc n) x - x = sgn x * ((of_int f - \<bar>x\<bar> / u) * u)"
      using u by (simp add: sig(4) left_diff_distrib right_diff_distrib mult_sgn_abs mult.assoc)
    then have err: "\<bar>significant (Suc n) x - x\<bar> \<le> 1 / 2 * u"
      using f u False by (simp add: abs_mult abs_sgn_eq mult_right_mono)
    have "u * 10 ^ n \<le> \<bar>x\<bar>" using sig(1) u by (simp add: le_divide_eq mult.commute)
    then have "u \<le> \<bar>x\<bar> / 10 ^ n" by (simp add: le_divide_eq)
    with err u have 1: "\<bar>significant (Suc n) x - x\<bar> \<le> \<bar>x\<bar> / 10 ^ n" by linarith
    have 2: "fits (Suc n) (significant (Suc n) x)"
    proof (cases "f = 10 ^ Suc n")
      case True
      have "significant (Suc n) x = of_int (if 0 < x then 1 else - 1) * 10 powi (decade x + 1)"
        using False by (simp add: sig(4) True u_def sgn_if power_int_add power_int_diff powi10_of_nat)
      moreover have "\<bar>if 0 < x then 1 else - 1 :: int\<bar> < 10 ^ Suc n"
        using one_less_power [of "10 :: int" "Suc n"] by simp
      ultimately show ?thesis unfolding fits_def by blast
    next
      case neq: False
      have "of_int f \<le> (10 ^ Suc n + 1 / 2 :: rat)" using f sig(2) by linarith
      then have "of_int f < (of_int (10 ^ Suc n + 1) :: rat)" by simp
      then have "f < 10 ^ Suc n" using neq by (simp only: of_int_less_iff)
      then have "\<bar>(if 0 < x then f else - f)\<bar> < 10 ^ Suc n" using f1 by simp
      moreover have "significant (Suc n) x = of_int (if 0 < x then f else - f) * u"
        using False by (simp add: sig(4) sgn_if)
      ultimately show ?thesis unfolding fits_def u_def by blast
    qed
    have 3: "sgn (significant (Suc n) x) = sgn x"
      using f1 u by (simp add: sig(4) sgn_mult sgn_if [of "of_int f"])
    have 4: "significant (Suc n) x = x" if "fits (Suc n) x"
    proof -
      from that obtain m e where m: "x = of_int m * 10 powi e" "\<bar>m\<bar> < 10 ^ Suc n" by (auto simp: fits_def)
      have "(of_int \<bar>m\<bar> :: rat) < of_int (10 ^ Suc n)" using m(2) by (simp only: of_int_less_iff)
      then have "\<bar>x\<bar> < 10 powi (e + int (Suc n))"
        by (simp add: m(1) abs_mult powi10_add powi10_of_nat mult.commute del: of_nat_Suc)
      then have "decade x < e + int (Suc n)"
        using decade_bounds(1) [OF False] by (intro powi10_less_cancel) simp
      then have k: "0 \<le> e - (decade x - int (Suc n) + 1)" by simp
      have "\<bar>x\<bar> / u = of_int \<bar>m\<bar> * 10 powi (e - (decade x - int (Suc n) + 1))"
        by (simp add: m(1) u_def abs_mult power_int_diff)
      also have "\<dots> = of_int (\<bar>m\<bar> * 10 ^ nat (e - (decade x - int (Suc n) + 1)))"
        using k by (simp add: power_int_def)
      finally obtain k :: int where k: "\<bar>x\<bar> / u = of_int k" by blast
      then have "f = k" unfolding f_def by linarith
      then show ?thesis using u by (simp add: sig(4) mult_sgn_abs mult.assoc flip: k)
    qed
    from 1 2 3 4 show ?thesis by blast
  qed
  then show "\<bar>significant (Suc n) x - x\<bar> \<le> \<bar>x\<bar> / 10 ^ n" "fits (Suc n) (significant (Suc n) x)"
  "sgn (significant (Suc n) x) = sgn x" "fits (Suc n) x \<Longrightarrow> significant (Suc n) x = x" by blast+
qed

lemma rounded50_significant: "rounded50 x (significant 50 x)"
  using significant_laws [of 49 x] by (simp add: rounded50_def)

interpretation js_decimals: decimal_library decimal_js
proof
  fix x y :: rat and a b :: decimal and n :: nat and mode :: rounding
  have s17: "\<bar>significant 17 x - x\<bar> \<le> \<bar>x\<bar> / 10 ^ 16" "fits 17 (significant 17 x)" "sgn (significant 17 x) = sgn x"
    using significant_laws [of 16 x] by simp_all
  have "\<bar>x\<bar> / 10 ^ 16 \<le> \<bar>x\<bar> / (10 ^ 15 :: rat)" by (intro divide_left_mono) simp_all
  with s17 show "\<exists>r. d_of_number decimal_js (Fin x) = Fin r \<and> fits 17 r \<and> sgn r = sgn x \<and>
      (1 \<le> \<bar>x\<bar> * 2 ^ 1022 \<longrightarrow> \<bar>r - x\<bar> \<le> \<bar>x\<bar> / 10 ^ 15)"
    by (intro exI [of _ "significant 17 x"]) (simp add: decimal_js_def)
qed (auto simp: decimal_js_def rounded50_significant split: jsnum.split)

end
