(* ===== verification/Positions.thy ===== *)
theory Positions
  imports Predicates Money
begin

section \<open>Positions\<close>

text \<open>
  \<open>packages/strategy/src/position.ts\<close>: the state of one open position, gain and loss, the
  position-dependent predicates, and the buy and sell bookkeeping of the average-cost ledger. The
  two level sets keep the order of insertion.
\<close>

record position_state =
  pos_securityId :: security_id
  pos_symbol :: string
  pos_name :: string
  pos_epoch :: nat
  pos_openedDate :: local_date
  shares :: decimal
  averageCostValue :: decimal
  costTotalValue :: decimal
  buyLevelsSettled :: "string list"
  sellLevelsFired :: "string list"
  previousSignedReturnPercent :: "jsnum option"
  previousValueDate :: "local_date option"
  lastPrice :: jsnum
  lastPriceDate :: local_date
  pos_realizedPnl :: decimal

definition averageCost :: "decimal_lib \<Rightarrow> position_state \<Rightarrow> jsnum" where
  "averageCost D position =
     (if d_gt D (shares position) (Fin 0) then toNumber D (averageCostValue position) else NotANumber)"

definition costTotal :: "position_state \<Rightarrow> decimal" where
  "costTotal position = costTotalValue position"

definition gainPercent :: "jsnum \<Rightarrow> jsnum \<Rightarrow> jsnum" where
  "gainPercent close basis =
     (if \<not> isFinite close \<or> \<not> isFinite basis \<or> js_le basis (Fin 0) then NotANumber
      else js_mul (js_div (js_sub close basis) basis) (Fin 100))"

definition lossPercent :: "jsnum \<Rightarrow> jsnum \<Rightarrow> jsnum" where
  "lossPercent close basis =
     (let gain = gainPercent close basis
      in if isFinite gain then js_max (Fin 0) (js_neg gain) else NotANumber)"

subsection \<open>Position-dependent predicates\<close>

record position_context =
  context_close :: jsnum
  context_position :: position_state
  context_previousDate :: "local_date option"

definition currentSignedReturn :: "decimal_lib \<Rightarrow> position_context \<Rightarrow> jsnum" where
  "currentSignedReturn D ctx = gainPercent (context_close ctx) (averageCost D (context_position ctx))"

definition previousSignedReturn :: "position_context \<Rightarrow> jsnum" where
  "previousSignedReturn ctx =
     (let position = context_position ctx
      in case context_previousDate ctx of
          None \<Rightarrow> NotANumber
        | Some previousDate \<Rightarrow>
            if previousValueDate position \<noteq> Some previousDate then NotANumber
            else case previousSignedReturnPercent position of None \<Rightarrow> NotANumber | Some v \<Rightarrow> v)"

definition metricValue :: "bool \<Rightarrow> jsnum \<Rightarrow> jsnum" where
  "metricValue gain signedReturn =
     (if \<not> isFinite signedReturn then NotANumber
      else if gain then signedReturn else js_max (Fin 0) (js_neg signedReturn))"

fun position_metric_kind :: "strategy_metric \<Rightarrow> bool option" where
  "position_metric_kind GAIN = Some True"
| "position_metric_kind LOSS = Some False"
| "position_metric_kind _ = None"

fun is_series :: "strategy_value \<Rightarrow> bool" where
  "is_series (SERIES _) = True"
| "is_series _ = False"

definition evaluatePositionCondition ::
  "decimal_lib \<Rightarrow> position_context \<Rightarrow> strategy_condition \<Rightarrow> strategy_error + evaluability"
where
  "evaluatePositionCondition D ctx condition =
     (case position_metric_kind (condition_metric condition) of
        None \<Rightarrow> Inr NOT_EVALUABLE
      | Some gain \<Rightarrow>
          if is_series (condition_value condition) then Inr NOT_EVALUABLE
          else evaluateConditionValues (condition_operator condition)
            (metricValue gain (currentSignedReturn D ctx))
            (constant_value (condition_value condition)))"

definition evaluatePositionTrigger ::
  "decimal_lib \<Rightarrow> position_context \<Rightarrow> strategy_trigger \<Rightarrow> strategy_error + evaluability"
where
  "evaluatePositionTrigger D ctx trig =
     (case position_metric_kind (trigger_metric trig) of
        None \<Rightarrow> Inr NOT_EVALUABLE
      | Some gain \<Rightarrow>
          if is_series (trigger_value trig) then Inr NOT_EVALUABLE
          else evaluateTriggerValues (trigger_operator trig)
            (metricValue gain (currentSignedReturn D ctx))
            (constant_value (trigger_value trig))
            (metricValue gain (previousSignedReturn ctx))
            (constant_value (trigger_value trig)))"

fun evaluatePositionPredicate ::
  "decimal_lib \<Rightarrow> position_context \<Rightarrow> predicate \<Rightarrow> strategy_error + evaluability"
where
  "evaluatePositionPredicate D ctx (Condition c) = evaluatePositionCondition D ctx c"
| "evaluatePositionPredicate D ctx (Trigger t) = evaluatePositionTrigger D ctx t"

definition evaluatePositionSignal ::
  "decimal_lib \<Rightarrow> position_context \<Rightarrow> strategy_signal \<Rightarrow> strategy_error + evaluability"
where
  "evaluatePositionSignal D ctx signal =
     result_map evaluabilityAll
       (result_all (evaluatePositionPredicate D ctx)
         (filter (\<lambda>p. isPositionDependentMetric (predicate_metric p)) (signal_predicates signal)))"

subsection \<open>Bookkeeping\<close>

definition applyBuy :: "decimal_lib \<Rightarrow> decimal \<Rightarrow> decimal \<Rightarrow> decimal \<Rightarrow> position_state \<Rightarrow> position_state" where
  "applyBuy D bought amount fees position =
     (let costTotal' = quantizeMoney D (d_plus D (d_plus D (costTotalValue position) amount) fees);
          shares' = d_plus D (shares position) bought
      in position\<lparr>costTotalValue := costTotal', shares := shares',
           averageCostValue := quantizePrice D (d_div D costTotal' shares')\<rparr>)"

record sale =
  sale_realizedPnl :: decimal
  sale_costRemoved :: decimal
  sale_proceeds :: decimal

definition applySell ::
  "decimal_lib \<Rightarrow> decimal \<Rightarrow> decimal \<Rightarrow> decimal \<Rightarrow> position_state \<Rightarrow> position_state \<times> sale"
where
  "applySell D sold price fees position =
     (let closesPosition = d_gte D sold (shares position);
          costRemoved =
            (if closesPosition then costTotalValue position
             else quantizeMoney D (d_times D (averageCostValue position) sold));
          proceeds = quantizeMoney D (d_times D price sold);
          pnl = quantizeMoney D (d_minus D (d_minus D proceeds costRemoved) fees)
      in (position
            \<lparr>shares := if closesPosition then MONEY_ZERO else d_minus D (shares position) sold,
             costTotalValue := if closesPosition then MONEY_ZERO
               else quantizeMoney D (d_minus D (costTotalValue position) costRemoved),
             averageCostValue := if closesPosition then MONEY_ZERO else averageCostValue position,
             pos_realizedPnl := quantizeMoney D (d_plus D (pos_realizedPnl position) pnl)\<rparr>,
          \<lparr>sale_realizedPnl = pnl, sale_costRemoved = costRemoved, sale_proceeds = proceeds\<rparr>))"

subsection \<open>Gain and loss\<close>

lemma gainPercent_nan:
  "\<not> isFinite close \<Longrightarrow> gainPercent close basis = NotANumber"
  "\<not> isFinite basis \<Longrightarrow> gainPercent close basis = NotANumber"
  "gainPercent close NotANumber = NotANumber"
  by (simp_all add: gainPercent_def)

lemma lossPercent_metricValue: "lossPercent close basis = metricValue False (gainPercent close basis)"
  by (simp add: lossPercent_def metricValue_def Let_def)

text \<open>
  C22. The market half and the position half of a signal partition its predicates: the two
  conjunctions together are the conjunction over all of them, each predicate evaluated by the
  evaluator of its kind.
\<close>

theorem signal_halves_partition:
  assumes "evaluateMarketSignal signal frame index = Inr m" "evaluatePositionSignal D ctx signal = Inr p"
  shows "\<exists>vs. result_all (\<lambda>q. if isPositionDependentMetric (predicate_metric q)
      then evaluatePositionPredicate D ctx q else evaluateMarketPredicate frame index q)
      (signal_predicates signal) = Inr vs \<and> evaluabilityAnd m p = evaluabilityAll vs"
proof -
  let ?pos = "\<lambda>q. isPositionDependentMetric (predicate_metric q)"
  let ?f = "evaluateMarketPredicate frame index" and ?g = "evaluatePositionPredicate D ctx"
  have "\<exists>vs. result_all (\<lambda>q. if ?pos q then ?g q else ?f q) qs = Inr vs \<and> mset vs = mset ms + mset ps"
    if "result_all ?f (filter isMarketDerivedPredicate qs) = Inr ms" "result_all ?g (filter ?pos qs) = Inr ps"
    for qs ms ps
    using that
  proof (induction qs arbitrary: ms ps)
    case (Cons q qs)
    show ?case
    proof (cases "?pos q")
      case True
      with Cons.prems obtain v ps' where "?g q = Inr v" "result_all ?g (filter ?pos qs) = Inr ps'" "ps = v # ps'"
        by (auto simp: result_bind_Inr_iff)
      moreover have "result_all ?f (filter isMarketDerivedPredicate qs) = Inr ms"
        using Cons.prems(1) True by (simp add: isMarketDerivedPredicate_def [abs_def])
      ultimately show ?thesis using Cons.IH [of ms ps'] True by auto
    next
      case False
      with Cons.prems obtain v ms' where "?f q = Inr v"
          "result_all ?f (filter isMarketDerivedPredicate qs) = Inr ms'" "ms = v # ms'"
        by (auto simp: result_bind_Inr_iff isMarketDerivedPredicate_def [abs_def])
      then show ?thesis using Cons.IH [of ms' ps] Cons.prems(2) False by auto
    qed
  qed simp
  moreover from assms obtain ms ps where
    "result_all ?f (filter isMarketDerivedPredicate (signal_predicates signal)) = Inr ms"
    "m = evaluabilityAll ms"
    "result_all ?g (filter ?pos (signal_predicates signal)) = Inr ps" "p = evaluabilityAll ps"
    by (auto simp: evaluateMarketSignal_def evaluatePositionSignal_def result_map_Inr_iff)
  ultimately obtain vs where vs: "result_all (\<lambda>q. if ?pos q then ?g q else ?f q) (signal_predicates signal) = Inr vs"
    "mset vs = mset ms + mset ps" by blast
  have "set vs = set ms \<union> set ps" using arg_cong [OF vs(2), of set_mset] by simp
  then have "evaluabilityAll vs = evaluabilityAnd m p"
    unfolding \<open>m = _\<close> \<open>p = _\<close> evaluabilityAnd_min evaluabilityAll_Min
    by (simp add: Min_Un [symmetric] flip: Un_insert_left)
  with vs(1) show ?thesis by auto
qed

theorem signal_halves_partition_witness:
  "let signal = \<lparr>conditions =
        [\<lparr>condition_id = ''c1'', condition_metric = PRICE None, condition_operator = IS_ABOVE,
          condition_value = NUMBER (Fin 5)\<rparr>,
         \<lparr>condition_id = ''c2'', condition_metric = GAIN, condition_operator = IS_ABOVE,
          condition_value = PERCENT (Fin 30)\<rparr>], trigger = None\<rparr>;
      frame = \<lparr>frame_security = ''s'', frame_symbol = ''S'', frame_name = ''N'',
        frame_dates = [''2020-01-02''], frame_closes = [Fin 10], frame_columns = [], periodStartIndex = 0\<rparr>;
      ctx = \<lparr>context_close = Fin 10, context_position =
        \<lparr>pos_securityId = ''s'', pos_symbol = ''S'', pos_name = ''N'', pos_epoch = 2,
         pos_openedDate = ''2020-01-01'', shares = Fin 1, averageCostValue = Fin 8,
         costTotalValue = Fin 8, buyLevelsSettled = [], sellLevelsFired = [],
         previousSignedReturnPercent = None, previousValueDate = None, lastPrice = Fin 8,
         lastPriceDate = ''2020-01-01'', pos_realizedPnl = Fin 0\<rparr>, context_previousDate = None\<rparr>
    in \<exists>vs. result_all (\<lambda>q. if isPositionDependentMetric (predicate_metric q)
        then evaluatePositionPredicate decimal_js ctx q else evaluateMarketPredicate frame 0 q)
        (signal_predicates signal) = Inr vs \<and> FALSE = evaluabilityAll vs"
proof -
  let ?signal = "\<lparr>conditions =
        [\<lparr>condition_id = ''c1'', condition_metric = PRICE None, condition_operator = IS_ABOVE,
          condition_value = NUMBER (Fin 5)\<rparr>,
         \<lparr>condition_id = ''c2'', condition_metric = GAIN, condition_operator = IS_ABOVE,
          condition_value = PERCENT (Fin 30)\<rparr>], trigger = None\<rparr>"
  let ?frame = "\<lparr>frame_security = ''s'', frame_symbol = ''S'', frame_name = ''N'',
        frame_dates = [''2020-01-02''], frame_closes = [Fin 10], frame_columns = [], periodStartIndex = 0\<rparr>"
  let ?ctx = "\<lparr>context_close = Fin 10, context_position =
        \<lparr>pos_securityId = ''s'', pos_symbol = ''S'', pos_name = ''N'', pos_epoch = 2,
         pos_openedDate = ''2020-01-01'', shares = Fin 1, averageCostValue = Fin 8,
         costTotalValue = Fin 8, buyLevelsSettled = [], sellLevelsFired = [],
         previousSignedReturnPercent = None, previousValueDate = None, lastPrice = Fin 8,
         lastPriceDate = ''2020-01-01'', pos_realizedPnl = Fin 0\<rparr>, context_previousDate = None\<rparr>"
  have m: "evaluateMarketSignal ?signal ?frame 0 = Inr TRUE" by code_simp
  have p: "evaluatePositionSignal decimal_js ?ctx ?signal = Inr FALSE" by code_simp
  from signal_halves_partition [OF m p] show ?thesis by (simp add: evaluabilityAnd_def Let_def)
qed

subsection \<open>The average-cost ledger\<close>

text \<open>A position whose books are amounts the ledger holds exactly.\<close>

definition exact_amount :: "nat \<Rightarrow> decimal \<Rightarrow> rat \<Rightarrow> bool" where
  "exact_amount n v x \<longleftrightarrow> v = Fin x \<and> at_scale n x \<and> \<bar>x\<bar> < 10 ^ 35"

lemma exact_amount_sum:
  assumes "\<bar>x\<bar> < 10 ^ 35" "\<bar>y\<bar> < 10 ^ 35" "n \<le> 10"
  shows "\<bar>x + y\<bar> * 10 ^ n < (10 :: rat) ^ 50" "\<bar>x - y\<bar> * 10 ^ n < (10 :: rat) ^ 50"
proof -
  have "(10 :: rat) ^ n \<le> 10 ^ 10" using assms(3) by (intro power_increasing) simp_all
  moreover have "\<bar>x + y\<bar> \<le> 2 * 10 ^ 35" "\<bar>x - y\<bar> \<le> 2 * 10 ^ 35" using assms(1,2) by linarith+
  ultimately have "\<bar>x + y\<bar> * 10 ^ n \<le> 2 * 10 ^ 35 * 10 ^ 10" "\<bar>x - y\<bar> * 10 ^ n \<le> 2 * 10 ^ 35 * 10 ^ 10"
    by (intro mult_mono; simp)+
  then show "\<bar>x + y\<bar> * 10 ^ n < (10 :: rat) ^ 50" "\<bar>x - y\<bar> * 10 ^ n < (10 :: rat) ^ 50" by simp_all
qed

lemma sale_keeps_books_facts:
  assumes "decimal_library D"
    and "exact_amount 10 (shares p) held" "exact_amount 6 (costTotalValue p) cost"
    and "exact_amount 6 (pos_realizedPnl p) realized" "exact_amount 10 sold s"
    and "applySell D sold price (V1_FEE D) p = (p', sale)"
    and "exact_amount 6 (sale_proceeds sale) proceeds" "exact_amount 6 (sale_costRemoved sale) removed"
    and "exact_amount 6 (sale_realizedPnl sale) pnl"
  shows "pnl = proceeds - removed" "pos_realizedPnl p' = Fin (realized + pnl)"
    and "costTotalValue p' = Fin (cost - removed)"
    and "s < held \<Longrightarrow> shares p' = Fin (held - s)"
    and "held \<le> s \<Longrightarrow> shares p' = Fin 0 \<and> removed = cost"
proof -
  note L = decimal_library.minus_exact [OF assms(1)] decimal_library.plus_exact [OF assms(1)]
  note am = assms(2-5,7-9) [unfolded exact_amount_def]
  have fee: "V1_FEE D = MONEY_ZERO" by (rule decimal_library.money_fee [OF assms(1)])
  have gte: "d_gte D sold (shares p) \<longleftrightarrow> held \<le> s"
    using am by (simp add: decimal_library.gte [OF assms(1)])
  have q: "quantizeMoney D (Fin x) = Fin x" if "at_scale 6 x" for x
    using that by (simp add: decimal_library.quantizeMoney_Fin [OF assms(1)] round_to_id)
  define r where "r = sale_costRemoved sale"
  have sale: "sale_realizedPnl sale = quantizeMoney D (d_minus D (d_minus D (sale_proceeds sale) r) (V1_FEE D))"
    "sale_costRemoved sale = (if held \<le> s then costTotalValue p else r)"
    "pos_realizedPnl p' = quantizeMoney D (d_plus D (pos_realizedPnl p) (sale_realizedPnl sale))"
    "costTotalValue p' = (if held \<le> s then MONEY_ZERO else quantizeMoney D (d_minus D (costTotalValue p) r))"
    "shares p' = (if held \<le> s then MONEY_ZERO else d_minus D (shares p) sold)"
    using assms(6) by (auto simp: applySell_def Let_def gte r_def split: if_splits)
  have "d_minus D (sale_proceeds sale) r = Fin (proceeds - removed)"
    using am exact_amount_sum(2) [of proceeds removed 6] by (simp add: r_def L(1) [of 6])
  moreover have "at_scale 6 (proceeds - removed)" using am by (simp add: at_scale_diff)
  moreover have "d_minus D (Fin (proceeds - removed)) MONEY_ZERO = Fin (proceeds - removed)"
    using am exact_amount_sum(2) [of proceeds removed 6] L(1) [of 6 "proceeds - removed" 0]
    by (simp add: MONEY_ZERO_def at_scale_diff)
  ultimately have "sale_realizedPnl sale = Fin (proceeds - removed)" using sale(1) fee q by simp
  then show pnl: "pnl = proceeds - removed" using am by simp
  have "d_plus D (pos_realizedPnl p) (sale_realizedPnl sale) = Fin (realized + pnl)"
    using am exact_amount_sum(1) [of realized pnl 6] by (simp add: L(2) [of 6])
  then show "pos_realizedPnl p' = Fin (realized + pnl)"
    using am sale(3) q [of "realized + pnl"] by (simp add: at_scale_add)
  show "costTotalValue p' = Fin (cost - removed)"
  proof (cases "held \<le> s")
    case True
    then show ?thesis using sale(2,4) am by (simp add: MONEY_ZERO_def)
  next
    case False
    have "d_minus D (costTotalValue p) r = Fin (cost - removed)"
      using am exact_amount_sum(2) [of cost removed 6] by (simp add: r_def L(1) [of 6])
    then show ?thesis using False sale(4) am q [of "cost - removed"] by (simp add: at_scale_diff)
  qed
  show "shares p' = Fin (held - s)" if "s < held"
    using that sale(5) am exact_amount_sum(2) [of held s 10] by (simp add: L(1) [of 10])
  show "shares p' = Fin 0 \<and> removed = cost" if "held \<le> s"
    using that sale(2,5) am by (simp add: MONEY_ZERO_def)
qed

text \<open>
  C16. Selling keeps the books: shares removed and kept add up to the shares held, the cost removed
  and the cost kept add up to the cost carried, the realized result is the proceeds less the cost
  removed and is added to the position's total; selling everything leaves no shares and no cost.
\<close>

theorem sale_keeps_books:
  assumes "decimal_library D"
    and "exact_amount 10 (shares p) held" "exact_amount 6 (costTotalValue p) cost"
    and "exact_amount 6 (pos_realizedPnl p) realized" "exact_amount 10 sold s"
    and "applySell D sold price (V1_FEE D) p = (p', sale)"
    and "exact_amount 6 (sale_proceeds sale) proceeds" "exact_amount 6 (sale_costRemoved sale) removed"
    and "exact_amount 6 (sale_realizedPnl sale) pnl"
  shows "pnl = proceeds - removed \<and> pos_realizedPnl p' = Fin (realized + pnl) \<and>
    costTotalValue p' = Fin (cost - removed) \<and>
    (s < held \<longrightarrow> shares p' = Fin (held - s)) \<and>
    (held \<le> s \<longrightarrow> shares p' = Fin 0 \<and> removed = cost)"
  using sale_keeps_books_facts [OF assms] by blast

theorem sale_keeps_books_witness:
  "let p = \<lparr>pos_securityId = ''s'', pos_symbol = ''S'', pos_name = ''N'', pos_epoch = 2,
         pos_openedDate = ''2020-01-01'', shares = Fin 3, averageCostValue = Fin 8,
         costTotalValue = Fin 24, buyLevelsSettled = [], sellLevelsFired = [],
         previousSignedReturnPercent = None, previousValueDate = None, lastPrice = Fin 8,
         lastPriceDate = ''2020-01-01'', pos_realizedPnl = Fin 0\<rparr>
   in costTotalValue (fst (applySell decimal_js (Fin 1) (Fin 9) (V1_FEE decimal_js) p)) = Fin (24 - 8)"
proof -
  let ?p = "\<lparr>pos_securityId = ''s'', pos_symbol = ''S'', pos_name = ''N'', pos_epoch = 2,
         pos_openedDate = ''2020-01-01'', shares = Fin 3, averageCostValue = Fin 8,
         costTotalValue = Fin 24, buyLevelsSettled = [], sellLevelsFired = [],
         previousSignedReturnPercent = None, previousValueDate = None, lastPrice = Fin 8,
         lastPriceDate = ''2020-01-01'', pos_realizedPnl = Fin 0\<rparr>"
  let ?r = "applySell decimal_js (Fin 1) (Fin 9) (V1_FEE decimal_js) ?p"
  have ops: "d_times decimal_js (Fin 8) (Fin 1) = Fin 8" "d_times decimal_js (Fin 9) (Fin 1) = Fin 9"
    "d_minus decimal_js (Fin 9) (Fin 8) = Fin 1" "d_minus decimal_js (Fin 1) (Fin 0) = Fin 1"
    "quantizeMoney decimal_js (Fin 9) = Fin 9" "quantizeMoney decimal_js (Fin 8) = Fin 8"
    "quantizeMoney decimal_js (Fin 1) = Fin 1"
    by code_simp+
  have v: "sale_proceeds (snd ?r) = Fin 9" "sale_costRemoved (snd ?r) = Fin 8" "sale_realizedPnl (snd ?r) = Fin 1"
    by (simp_all add: applySell_def js_decimals.money_fee MONEY_ZERO_def js_decimals.gte Let_def ops
        del: js_decimals.quantizeMoney_Fin)
  have scale: "at_scale n (of_int k)" for n and k :: int
    unfolding at_scale_def by (intro exI [of _ "k * 10 ^ n"]) simp
  have am: "exact_amount n (Fin (of_int k)) (of_int k)" if "\<bar>k\<bar> < 10 ^ 35" for n and k :: int
  proof -
    have "(of_int \<bar>k\<bar> :: rat) < of_int (10 ^ 35)" using that by (simp only: of_int_less_iff)
    then show ?thesis using scale [of n k] by (simp add: exact_amount_def)
  qed
  have "costTotalValue (fst ?r) = Fin (24 - 8)"
    by (rule sale_keeps_books [THEN conjunct2, THEN conjunct2, THEN conjunct1, OF js_decimals.decimal_library_axioms, of ?p 3 24 0 "Fin 1" 1 "Fin 9" _ "snd ?r" 9 8 1])
      (use am [of 3 10] am [of 24 6] am [of 0 6] am [of 1 10] am [of 9 6] am [of 8 6] am [of 1 6] v in simp_all)
  then show ?thesis by (simp add: Let_def)
qed

end
