(* ===== verification/Calendar.thy ===== *)
theory Calendar
  imports Predicates
begin

section \<open>Execution calendar, windows and context rows\<close>

text \<open>
  \<open>packages/strategy/src/backtest/calendar.ts\<close> and \<open>window.ts\<close>: the dates a backtest simulates,
  the dates it receives contributions on, the calendar object with its searches, the yearly
  execution windows and the row that carries a frame's last session into the next window.
\<close>

subsection \<open>The execution calendar\<close>

definition buildExecutionCalendar :: "local_date \<Rightarrow> local_date \<Rightarrow> local_date list \<Rightarrow> local_date list" where
  "buildExecutionCalendar startDate endDate dates =
     sorted_unique (filter (\<lambda>candidate. startDate \<le> candidate \<and> candidate \<le> endDate) dates)"

fun contribution_loop :: "bool \<Rightarrow> string option \<Rightarrow> local_date list \<Rightarrow> local_date list" where
  "contribution_loop first previousMonth [] = []"
| "contribution_loop first previousMonth (date # dates) =
     (let month = take 7 date
      in if Some month \<noteq> previousMonth
         then (if first then contribution_loop False (Some month) dates
               else date # contribution_loop False (Some month) dates)
         else contribution_loop False previousMonth dates)"

definition buildContributionDates :: "local_date list \<Rightarrow> local_date list" where
  "buildContributionDates calendar = contribution_loop True None calendar"

record execution_calendar =
  calendar_dates :: "local_date list"
  calendar_index :: "(local_date \<times> int) list"

definition new_ExecutionCalendar :: "local_date list \<Rightarrow> execution_calendar" where
  "new_ExecutionCalendar dates =
     (let dates' = sorted_unique dates
      in \<lparr>calendar_dates = dates',
          calendar_index = zip dates' (map int [0..<length dates'])\<rparr>)"

definition restricted :: "local_date \<Rightarrow> local_date \<Rightarrow> local_date list \<Rightarrow> execution_calendar" where
  "restricted startDate endDate dates =
     new_ExecutionCalendar (buildExecutionCalendar startDate endDate dates)"

definition calendar_length :: "execution_calendar \<Rightarrow> nat" where
  "calendar_length calendar = length (calendar_dates calendar)"

text \<open>An array read is \<open>undefined\<close> outside the array.\<close>

definition calendar_at :: "execution_calendar \<Rightarrow> int \<Rightarrow> local_date option" where
  "calendar_at calendar position =
     (if 0 \<le> position \<and> position < int (length (calendar_dates calendar))
      then Some (calendar_dates calendar ! nat position) else None)"

definition calendar_first :: "execution_calendar \<Rightarrow> local_date option" where
  "calendar_first calendar = calendar_at calendar 0"

definition calendar_last :: "execution_calendar \<Rightarrow> local_date option" where
  "calendar_last calendar = calendar_at calendar (int (calendar_length calendar) - 1)"

definition calendar_has :: "execution_calendar \<Rightarrow> local_date \<Rightarrow> bool" where
  "calendar_has calendar date \<longleftrightarrow> map_of (calendar_index calendar) date \<noteq> None"

definition positionOf :: "execution_calendar \<Rightarrow> local_date \<Rightarrow> int" where
  "positionOf calendar date =
     (case map_of (calendar_index calendar) date of None \<Rightarrow> - 1 | Some position \<Rightarrow> position)"

function lower_bound :: "local_date list \<Rightarrow> local_date \<Rightarrow> int \<Rightarrow> int \<Rightarrow> int" where
  "lower_bound dates date low high =
     (if low < high then
        (let middle = (low + high) div 2
         in if dates ! nat middle < date then lower_bound dates date (middle + 1) high
            else lower_bound dates date low middle)
      else low)"
  by auto
termination by (relation "measure (\<lambda>(_, _, low, high). nat (high - low))") auto

declare lower_bound.simps [simp del]

definition onOrAfter :: "execution_calendar \<Rightarrow> local_date \<Rightarrow> local_date option" where
  "onOrAfter calendar date =
     calendar_at calendar
       (lower_bound (calendar_dates calendar) date 0 (int (calendar_length calendar)))"

definition onOrBefore :: "execution_calendar \<Rightarrow> local_date \<Rightarrow> local_date option" where
  "onOrBefore calendar date =
     (let following = onOrAfter calendar date
      in if following = Some date then Some date
         else
           (let position = (case following of
                None \<Rightarrow> int (calendar_length calendar) | Some d \<Rightarrow> positionOf calendar d)
            in calendar_at calendar (position - 1)))"

datatype calendar_error = NotAnExecutionDate local_date

definition advance :: "execution_calendar \<Rightarrow> local_date \<Rightarrow> int \<Rightarrow> calendar_error + local_date option" where
  "advance calendar date offset =
     (let position = positionOf calendar date
      in if position < 0 then Inl (NotAnExecutionDate date) else Inr (calendar_at calendar (position + offset)))"

definition within_year :: "nat \<Rightarrow> local_date option \<Rightarrow> local_date option" where
  "within_year year candidate =
     (case candidate of
        None \<Rightarrow> None
      | Some date \<Rightarrow> if startsWith date (string_of_nat year @ ''-'') then candidate else None)"

definition firstOfYear :: "execution_calendar \<Rightarrow> nat \<Rightarrow> local_date option" where
  "firstOfYear calendar year = within_year year (onOrAfter calendar (string_of_nat year @ ''-01-01''))"

definition lastOfYear :: "execution_calendar \<Rightarrow> nat \<Rightarrow> local_date option" where
  "lastOfYear calendar year = within_year year (onOrBefore calendar (string_of_nat year @ ''-12-31''))"

subsection \<open>Execution windows\<close>

record execution_window =
  window_year :: string
  window_index :: nat
  window_from :: local_date
  window_to :: local_date
  window_dates :: "local_date list"

text \<open>\<open>current\<close> is the window pushed last; its dates grow in place.\<close>

definition plan_step ::
  "local_date \<Rightarrow> local_date \<Rightarrow> execution_window list \<Rightarrow> local_date \<Rightarrow> execution_window list"
where
  "plan_step startDate endDate windows date =
     (let year = take 4 date
      in if windows \<noteq> [] \<and> window_year (last windows) = year
         then butlast windows
           @ [(last windows)\<lparr>window_dates := window_dates (last windows) @ [date]\<rparr>]
         else windows
           @ [\<lparr>window_year = year, window_index = length windows,
               window_from = maxDate startDate (year @ ''-01-01''),
               window_to = minDate endDate (year @ ''-12-31''),
               window_dates = [date]\<rparr>])"

definition planExecutionWindows ::
  "local_date list \<Rightarrow> local_date \<Rightarrow> local_date \<Rightarrow> execution_window list"
where
  "planExecutionWindows calendar startDate endDate = foldl (plan_step startDate endDate) [] calendar"

subsection \<open>Context rows\<close>

record context_row =
  row_date :: local_date
  row_close :: jsnum
  row_values :: "(operand_key \<times> jsnum) list"

definition evaluationFrameContextRow :: "evaluation_frame \<Rightarrow> context_row option" where
  "evaluationFrameContextRow frame =
     (let index = int (length (frame_dates frame)) - 1
      in if frame_dates frame = [] then None
         else Some
           \<lparr>row_date = last (frame_dates frame),
            row_close = nth_or_nan (frame_closes frame) index,
            row_values = map (\<lambda>p. (fst p, nth_or_nan (snd p) index)) (frame_columns frame)\<rparr>)"

definition value_or_nan :: "jsnum option \<Rightarrow> jsnum" where
  "value_or_nan v = (case v of None \<Rightarrow> NotANumber | Some x \<Rightarrow> x)"

definition read_from :: "nat \<Rightarrow> nat \<Rightarrow> jsnum list \<Rightarrow> jsnum list" where
  "read_from start stop column = map (\<lambda>i. nth_or_nan column (int i)) [start..<stop]"

fun first_not_before :: "local_date \<Rightarrow> nat \<Rightarrow> local_date list \<Rightarrow> nat" where
  "first_not_before boundary index [] = index"
| "first_not_before boundary index (d # ds) =
     (if d \<ge> boundary then index else first_not_before boundary (index + 1) ds)"

definition withLeadingContextRow ::
  "evaluation_frame \<Rightarrow> context_row option \<Rightarrow> frame_error + evaluation_frame"
where
  "withLeadingContextRow frame context =
     (case context of
        None \<Rightarrow> Inr frame
      | Some row \<Rightarrow>
          (let start = length (takeWhile (\<lambda>d. d \<le> row_date row) (frame_dates frame));
               stop = length (frame_dates frame);
               dates = row_date row # drop start (frame_dates frame);
               closes = row_close row # read_from start stop (frame_closes frame);
               columns = map (\<lambda>p. (fst p,
                 value_or_nan (map_of (row_values row) (fst p)) # read_from start stop (snd p)))
                 (frame_columns frame);
               startIndex = periodStartIndex frame;
               period =
                 (if 0 \<le> startIndex \<and> startIndex < int stop
                  then first_not_before (frame_dates frame ! nat startIndex) 0 dates
                  else length dates)
           in createEvaluationFrame (frame_security frame) (frame_symbol frame) (frame_name frame)
                dates closes (Some columns) (int period)))"

subsection \<open>The calendar object\<close>

interpretation sorted_axis: ascending_axis "sorted_unique dates" for dates :: "'a::linorder list"
  by unfold_locales simp

definition calendar_ok :: "execution_calendar \<Rightarrow> bool" where
  "calendar_ok calendar \<longleftrightarrow>
     ascending (calendar_dates calendar) \<and>
     calendar_index calendar = zip (calendar_dates calendar) (map int [0..<length (calendar_dates calendar)])"

lemma new_ExecutionCalendar_ok [simp]:
  "calendar_ok (new_ExecutionCalendar dates)"
  "calendar_dates (new_ExecutionCalendar dates) = sorted_unique dates"
  by (simp_all add: calendar_ok_def new_ExecutionCalendar_def Let_def)

lemma positionOf_nth:
  assumes "calendar_ok c" "i < length (calendar_dates c)"
  shows "positionOf c (calendar_dates c ! i) = int i"
proof -
  have "map_of (calendar_index c) (calendar_dates c ! i) = Some (map int [0..<length (calendar_dates c)] ! i)"
    using assms ascending_distinct [of "calendar_dates c"]
    by (simp add: calendar_ok_def map_of_zip_nth)
  then show ?thesis using assms(2) by (simp add: positionOf_def)
qed

lemma positionOf_missing:
  assumes "calendar_ok c" "date \<notin> set (calendar_dates c)"
  shows "positionOf c date = - 1"
proof -
  have "map_of (calendar_index c) date = None"
    using assms by (auto simp: calendar_ok_def map_of_eq_None_iff dest: set_zip_leftD)
  then show ?thesis by (simp add: positionOf_def)
qed

lemma lower_bound_result:
  "ascending dates \<Longrightarrow> 0 \<le> low \<Longrightarrow> low \<le> high \<Longrightarrow> high \<le> int (length dates) \<Longrightarrow>
   (\<forall>i < nat low. dates ! i < date) \<Longrightarrow>
   (\<forall>i. high \<le> int i \<longrightarrow> i < length dates \<longrightarrow> date \<le> dates ! i) \<Longrightarrow>
   r = lower_bound dates date low high \<Longrightarrow>
   0 \<le> r \<and> r \<le> int (length dates) \<and> (\<forall>i < nat r. dates ! i < date) \<and>
     (\<forall>i. r \<le> int i \<longrightarrow> i < length dates \<longrightarrow> date \<le> dates ! i)"
proof (induction dates date low high rule: lower_bound.induct)
  case (1 dates date low high)
  show ?case
  proof (cases "low < high")
    case False
    then have "r = low" using 1(9) by (subst (asm) lower_bound.simps) simp
    then show ?thesis using 1(4-8) False by auto
  next
    case True
    let ?m = "(low + high) div 2"
    have m: "low \<le> ?m" "?m < high" "0 \<le> ?m" "nat ?m < length dates" using True 1(4,6) by auto
    show ?thesis
    proof (cases "dates ! nat ?m < date")
      case lt: True
      have step: "lower_bound dates date low high = lower_bound dates date (?m + 1) high"
        using True lt by (subst lower_bound.simps) (simp add: Let_def)
      have "\<forall>i < nat (?m + 1). dates ! i < date"
      proof (intro allI impI)
        fix i assume "i < nat (?m + 1)"
        then have "dates ! i \<le> dates ! nat ?m" using m by (intro ascending_nth_mono [OF 1(3)]) auto
        then show "dates ! i < date" using lt by (rule le_less_trans)
      qed
      from 1(1) [OF True refl lt 1(3) _ _ 1(6) this 1(8)] show ?thesis using m 1(9) step by simp
    next
      case ge: False
      have step: "lower_bound dates date low high = lower_bound dates date low ?m"
        using True ge by (subst lower_bound.simps) (simp add: Let_def)
      have "\<forall>i. ?m \<le> int i \<longrightarrow> i < length dates \<longrightarrow> date \<le> dates ! i"
      proof (intro allI impI)
        fix i assume "?m \<le> int i" "i < length dates"
        then have "dates ! nat ?m \<le> dates ! i" by (intro ascending_nth_mono [OF 1(3)]) auto
        with ge show "date \<le> dates ! i" by simp
      qed
      from 1(2) [OF True refl ge 1(3) 1(4) _ _ 1(7) this] show ?thesis using m 1(4,6,9) step by simp
    qed
  qed
qed

text \<open>The loop stops at the least index whose date is not before the one searched for.\<close>

lemma lower_bound_spec:
  assumes "ascending dates" "r = lower_bound dates date 0 (int (length dates))"
  shows "0 \<le> r" "r \<le> int (length dates)" "i < nat r \<Longrightarrow> dates ! i < date"
    "nat r \<le> i \<Longrightarrow> i < length dates \<Longrightarrow> date \<le> dates ! i"
  using lower_bound_result [OF assms(1) _ _ _ _ _ assms(2)] by auto

lemma onOrAfter_cases:
  assumes "calendar_ok c"
  shows "(\<exists>i < length (calendar_dates c). onOrAfter c date = Some (calendar_dates c ! i) \<and>
           date \<le> calendar_dates c ! i \<and> (\<forall>k < i. calendar_dates c ! k < date)) \<or>
         onOrAfter c date = None \<and> (\<forall>d \<in> set (calendar_dates c). d < date)"
proof -
  let ?ds = "calendar_dates c"
  define r where "r = lower_bound ?ds date 0 (int (length ?ds))"
  have asc: "ascending ?ds" using assms by (simp add: calendar_ok_def)
  note spec = lower_bound_spec [OF asc r_def]
  have eq: "onOrAfter c date = calendar_at c r"
    by (simp add: onOrAfter_def r_def calendar_length_def)
  show ?thesis
  proof (cases "nat r < length ?ds")
    case True
    then have "onOrAfter c date = Some (?ds ! nat r)" using spec(1) eq by (simp add: calendar_at_def)
    moreover have "date \<le> ?ds ! nat r" using True spec(4) by blast
    ultimately show ?thesis using True spec(3) by blast
  next
    case False
    then have "onOrAfter c date = None" using spec(1) eq by (simp add: calendar_at_def)
    moreover have "d < date" if "d \<in> set ?ds" for d
      using that False spec(3) by (auto simp: in_set_conv_nth)
    ultimately show ?thesis by blast
  qed
qed

lemma Min_nth:
  assumes "ascending ds" "i < length ds" "(date :: 'a::linorder) \<le> ds ! i" "\<forall>k < i. ds ! k < date"
  shows "Min {d \<in> set ds. date \<le> d} = ds ! i"
proof (rule Min_eqI)
  fix y assume "y \<in> {d \<in> set ds. date \<le> d}"
  then obtain j where j: "j < length ds" "y = ds ! j" "date \<le> ds ! j" by (auto simp: in_set_conv_nth)
  then have "i \<le> j" using assms(4) by (meson leD not_le)
  then show "ds ! i \<le> y" using ascending_nth_mono [OF assms(1) _ j(1)] j(2) by blast
qed (use assms in auto)

lemma onOrAfter_Min:
  assumes "calendar_ok c"
  shows "onOrAfter c date =
    (if {d \<in> set (calendar_dates c). date \<le> d} = {} then None
     else Some (Min {d \<in> set (calendar_dates c). date \<le> d}))"
  using onOrAfter_cases [OF assms, of date]
proof (elim disjE exE conjE)
  fix i assume i: "i < length (calendar_dates c)" "onOrAfter c date = Some (calendar_dates c ! i)"
    "date \<le> calendar_dates c ! i" "\<forall>k < i. calendar_dates c ! k < date"
  have "calendar_dates c ! i \<in> {d \<in> set (calendar_dates c). date \<le> d}" using i by simp
  then have "{d \<in> set (calendar_dates c). date \<le> d} \<noteq> {}" by blast
  then show ?thesis using i Min_nth [of "calendar_dates c" i date] assms
    by (simp only: calendar_ok_def if_False)
qed auto

lemma Max_nth:
  assumes "ascending ds" "i \<le> length ds" "0 < i" "\<forall>k < i. ds ! k < (date :: 'a::linorder)"
    "\<forall>k. i \<le> k \<longrightarrow> k < length ds \<longrightarrow> date < ds ! k"
  shows "Max {d \<in> set ds. d \<le> date} = ds ! (i - 1)"
proof (rule Max_eqI)
  fix y assume "y \<in> {d \<in> set ds. d \<le> date}"
  then obtain j where j: "j < length ds" "y = ds ! j" "ds ! j \<le> date" by (auto simp: in_set_conv_nth)
  then have "j \<le> i - 1" using assms(5) by (cases "i \<le> j") auto
  then show "y \<le> ds ! (i - 1)" using ascending_nth_mono [OF assms(1), of j "i - 1"] assms(2,3) j(2) by simp
next
  show "ds ! (i - 1) \<in> {d \<in> set ds. d \<le> date}" using assms(2-4) by (simp add: less_imp_le)
qed simp

lemma calendar_before_Max:
  assumes asc: "ascending (calendar_dates c)" and i: "i \<le> length (calendar_dates c)"
    "\<forall>k < i. calendar_dates c ! k < date"
    "\<forall>k. i \<le> k \<longrightarrow> k < length (calendar_dates c) \<longrightarrow> date < calendar_dates c ! k"
  shows "calendar_at c (int i - 1) =
    (if {d \<in> set (calendar_dates c). d \<le> date} = {} then None
     else Some (Max {d \<in> set (calendar_dates c). d \<le> date}))"
proof (cases "i = 0")
  case True
  then have "{d \<in> set (calendar_dates c). d \<le> date} = {}" using i(3) by (fastforce simp: in_set_conv_nth)
  then show ?thesis using True by (simp add: calendar_at_def)
next
  case False
  then have "calendar_dates c ! (i - 1) \<in> {d \<in> set (calendar_dates c). d \<le> date}"
    using i by (simp add: less_imp_le)
  moreover have "calendar_at c (int i - 1) = Some (calendar_dates c ! (i - 1))"
    using False i(1) by (simp add: calendar_at_def nat_diff_distrib)
  ultimately show ?thesis using Max_nth [OF asc i(1) _ i(2,3)] False by auto
qed

lemma onOrBefore_Max:
  assumes ok: "calendar_ok c"
  shows "onOrBefore c date =
    (if {d \<in> set (calendar_dates c). d \<le> date} = {} then None
     else Some (Max {d \<in> set (calendar_dates c). d \<le> date}))"
proof -
  let ?ds = "calendar_dates c"
  have asc: "ascending ?ds" using ok by (simp add: calendar_ok_def)
  consider (hit) i where "i < length ?ds" "onOrAfter c date = Some (?ds ! i)" "date \<le> ?ds ! i"
      "\<forall>k < i. ?ds ! k < date"
    | (miss) "onOrAfter c date = None" "\<forall>d \<in> set ?ds. d < date"
    using onOrAfter_cases [OF ok, of date] that by (elim disjE exE conjE)
  then show ?thesis
  proof cases
    case hit
    show ?thesis
    proof (cases "?ds ! i = date")
      case True
      then have "Max {d \<in> set ?ds. d \<le> date} = date" "date \<in> {d \<in> set ?ds. d \<le> date}"
        using hit(1) by (auto intro: Max_eqI)
      then show ?thesis using True hit(2) by (auto simp: onOrBefore_def Let_def)
    next
      case False
      then have "date < ?ds ! k" if "i \<le> k" "k < length ?ds" for k
        using ascending_nth_mono [OF asc that] hit(3) by simp
      then have "calendar_at c (int i - 1) = (if {d \<in> set ?ds. d \<le> date} = {} then None
          else Some (Max {d \<in> set ?ds. d \<le> date}))"
        using hit(1,4) by (intro calendar_before_Max [OF asc]) auto
      then show ?thesis using False hit(2) positionOf_nth [OF ok hit(1)] by (simp add: onOrBefore_def Let_def)
    qed
  next
    case miss
    have "calendar_at c (int (length ?ds) - 1) = (if {d \<in> set ?ds. d \<le> date} = {} then None
        else Some (Max {d \<in> set ?ds. d \<le> date}))"
      using miss(2) by (intro calendar_before_Max [OF asc]) auto
    then show ?thesis using miss(1) by (simp add: onOrBefore_def Let_def calendar_length_def)
  qed
qed

lemma advance_nth:
  assumes "calendar_ok c"
  shows "i < length (calendar_dates c) \<Longrightarrow>
      advance c (calendar_dates c ! i) k = Inr (calendar_at c (int i + k))"
    "date \<notin> set (calendar_dates c) \<Longrightarrow> advance c date k = Inl (NotAnExecutionDate date)"
  using positionOf_nth [OF assms] positionOf_missing [OF assms] by (auto simp: advance_def Let_def)

lemma calendar_search_correct_facts:
  shows "onOrAfter (new_ExecutionCalendar dates) date =
      (if {d \<in> set dates. date \<le> d} = {} then None else Some (Min {d \<in> set dates. date \<le> d}))"
    and "onOrBefore (new_ExecutionCalendar dates) date =
      (if {d \<in> set dates. d \<le> date} = {} then None else Some (Max {d \<in> set dates. d \<le> date}))"
    and "advance (new_ExecutionCalendar dates) date 0 =
      (if date \<in> set dates then Inr (Some date) else Inl (NotAnExecutionDate date))"
proof -
  let ?c = "new_ExecutionCalendar dates"
  have ok: "calendar_ok ?c" and ds: "set (calendar_dates ?c) = set dates" by simp_all
  show "onOrAfter ?c date =
      (if {d \<in> set dates. date \<le> d} = {} then None else Some (Min {d \<in> set dates. date \<le> d}))"
    using onOrAfter_Min [OF ok, of date] unfolding ds .
  show "onOrBefore ?c date =
      (if {d \<in> set dates. d \<le> date} = {} then None else Some (Max {d \<in> set dates. d \<le> date}))"
    using onOrBefore_Max [OF ok, of date] unfolding ds .
  show "advance ?c date 0 = (if date \<in> set dates then Inr (Some date) else Inl (NotAnExecutionDate date))"
  proof (cases "date \<in> set dates")
    case True
    then obtain i where "i < length (calendar_dates ?c)" "date = calendar_dates ?c ! i"
      unfolding ds [symmetric] by (metis in_set_conv_nth)
    then show ?thesis using True advance_nth(1) [OF ok, of i 0] by (simp add: calendar_at_def)
  next
    case False
    then show ?thesis using advance_nth(2) [OF ok, of date 0] by simp
  qed
qed


subsection \<open>Contribution dates\<close>

lemma take_mono: "(xs :: 'a::linorder list) \<le> ys \<Longrightarrow> take n xs \<le> take n ys"
proof (induction xs arbitrary: ys n)
  case (Cons x xs)
  then show ?case by (cases ys; cases n) auto
qed simp

lemma ascending_take_mono:
  "ascending dates \<Longrightarrow> sorted (map (take n) (dates :: local_date list))"
  by (induction dates) (auto intro: take_mono less_imp_le)

lemma contribution_loop_set:
  assumes "sorted (map (take 7) dates)" "ascending dates" "\<forall>d \<in> set dates. m \<le> take 7 d"
  shows "set (contribution_loop False (Some m) dates) =
    {d \<in> set dates. take 7 d \<noteq> m \<and> (\<forall>e \<in> set dates. take 7 e = take 7 d \<longrightarrow> d \<le> e)}"
  using assms
proof (induction dates arbitrary: m)
  case (Cons date dates)
  let ?m = "take 7 date"
  have later: "\<forall>d \<in> set dates. ?m \<le> take 7 d" "\<forall>d \<in> set dates. date < d" using Cons.prems by auto
  show ?case
  proof (cases "?m = m")
    case True
    then show ?thesis using Cons.IH [of m] Cons.prems by auto
  next
    case False
    then have "m < ?m" using Cons.prems(3) by (simp add: order.not_eq_order_implies_strict)
    then have "take 7 d \<noteq> m" if "d \<in> set dates" for d using later(1) that by fastforce
    then show ?thesis using False Cons.IH [of ?m] Cons.prems later by auto
  qed
qed simp

lemma contribution_loop_ascending:
  "ascending dates \<Longrightarrow> ascending (contribution_loop first m dates)"
  "set (contribution_loop first m dates) \<subseteq> set dates"
proof (induction first m dates rule: contribution_loop.induct)
  case (2 first previousMonth date dates)
  { case 1 then show ?case using 2 by (auto simp: Let_def) }
  { case 2 then show ?case using "2.IH" by (auto simp: Let_def) }
qed auto

lemma contribution_dates_exact_facts:
  assumes "ascending calendar" "calendar \<noteq> []"
  shows "set (buildContributionDates calendar) =
    {d \<in> set calendar. take 7 d \<noteq> take 7 (hd calendar) \<and>
       (\<forall>e \<in> set calendar. take 7 e = take 7 d \<longrightarrow> d \<le> e)}"
    and "distinct (buildContributionDates calendar)"
proof -
  obtain date dates where c: "calendar = date # dates" using assms(2) by (cases calendar) auto
  have sorted: "sorted (map (take 7) dates)" "ascending dates" "\<forall>d \<in> set dates. take 7 date \<le> take 7 d"
    using ascending_take_mono [OF assms(1), of 7] assms(1) by (simp_all add: c)
  show "set (buildContributionDates calendar) = {d \<in> set calendar. take 7 d \<noteq> take 7 (hd calendar) \<and>
       (\<forall>e \<in> set calendar. take 7 e = take 7 d \<longrightarrow> d \<le> e)}"
    using contribution_loop_set [OF sorted] by (auto simp: c buildContributionDates_def Let_def)
  show "distinct (buildContributionDates calendar)"
    unfolding buildContributionDates_def
    by (rule ascending_distinct [OF contribution_loop_ascending(1) [OF assms(1)]])
qed

text \<open>
  C24. Contributions arrive on the first execution date of every month after the starting month:
  of an ascending calendar these are exactly the dates that no earlier date of their month precedes,
  other than the calendar's first month.
\<close>

theorem contribution_dates_exact:
  assumes "ascending calendar" "calendar \<noteq> []"
  shows "distinct (buildContributionDates calendar) \<and>
    set (buildContributionDates calendar) =
      {d \<in> set calendar. take 7 d \<noteq> take 7 (hd calendar) \<and>
         (\<forall>e \<in> set calendar. take 7 e = take 7 d \<longrightarrow> d \<le> e)}"
  using contribution_dates_exact_facts [OF assms] by blast

theorem contribution_dates_exact_witness:
  "set (buildContributionDates [''2020-01-30'', ''2020-01-31'', ''2020-02-03'', ''2020-02-04'']) = {''2020-02-03''}"
  by (subst contribution_dates_exact [THEN conjunct2]) auto

subsection \<open>Windows partition the calendar\<close>

text \<open>What the planner has established after a prefix of the calendar.\<close>

definition windows_of :: "local_date \<Rightarrow> local_date \<Rightarrow> local_date list \<Rightarrow> execution_window list \<Rightarrow> bool" where
  "windows_of startDate endDate dates windows \<longleftrightarrow>
     concat (map window_dates windows) = dates \<and>
     map window_index windows = [0..<length windows] \<and>
     (\<forall>w \<in> set windows. window_dates w \<noteq> [] \<and> (\<forall>d \<in> set (window_dates w). take 4 d = window_year w) \<and>
        window_from w = maxDate startDate (window_year w @ ''-01-01'') \<and>
        window_to w = minDate endDate (window_year w @ ''-12-31'')) \<and>
     (windows = [] \<longleftrightarrow> dates = []) \<and>
     (windows \<noteq> [] \<longrightarrow> window_year (last windows) = take 4 (last dates))"

lemma plan_step_windows:
  assumes "windows_of a b dates windows"
  shows "windows_of a b (dates @ [date]) (plan_step a b windows date)"
proof (cases "windows \<noteq> [] \<and> window_year (last windows) = take 4 date")
  case True
  then obtain ws w where ws: "windows = ws @ [w]" by (metis append_butlast_last_id)
  with True assms show ?thesis by (auto simp: windows_of_def plan_step_def Let_def)
next
  case False
  with assms show ?thesis by (auto simp: windows_of_def plan_step_def Let_def)
qed

lemma planExecutionWindows_of: "windows_of a b calendar (planExecutionWindows calendar a b)"
proof (induction calendar rule: rev_induct)
  case Nil
  show ?case by (simp add: planExecutionWindows_def windows_of_def)
next
  case (snoc date calendar)
  then show ?case using plan_step_windows by (simp add: planExecutionWindows_def)
qed

lemma windows_ofD:
  assumes "windows_of a b dates windows" "w \<in> set windows"
  shows "window_dates w \<noteq> []" "d \<in> set (window_dates w) \<Longrightarrow> d \<in> set dates"
    "d \<in> set (window_dates w) \<Longrightarrow> take 4 d = window_year w"
    "window_from w = maxDate a (window_year w @ ''-01-01'')"
    "window_to w = minDate b (window_year w @ ''-12-31'')"
proof -
  have c: "concat (map window_dates windows) = dates" using assms(1) by (simp add: windows_of_def)
  then have "set dates = (\<Union>w \<in> set windows. set (window_dates w))" by auto
  then show "d \<in> set (window_dates w) \<Longrightarrow> d \<in> set dates" using assms(2) by blast
qed (use assms in \<open>auto simp: windows_of_def\<close>)

lemma window_member:
  assumes "w \<in> set (planExecutionWindows calendar startDate endDate)"
  obtains d where "d \<in> set (window_dates w)" "d \<in> set calendar" "take 4 d = window_year w"
proof -
  note of = windows_ofD [OF planExecutionWindows_of assms]
  from of(1) have "hd (window_dates w) \<in> set (window_dates w)" by simp
  then show ?thesis using that of(2,3) by blast
qed

lemma plan_years:
  assumes "sorted (map (take 4) calendar)"
  shows "ascending (map window_year (planExecutionWindows calendar a b))"
  using assms
proof (induction calendar rule: rev_induct)
  case Nil
  show ?case by (simp add: planExecutionWindows_def)
next
  case (snoc date calendar)
  let ?ws = "planExecutionWindows calendar a b"
  have step: "planExecutionWindows (calendar @ [date]) a b = plan_step a b ?ws date"
    by (simp add: planExecutionWindows_def)
  have asc: "ascending (map window_year ?ws)" using snoc by (simp add: sorted_append)
  have year: "window_year w \<le> take 4 date" if w: "w \<in> set ?ws" for w
  proof -
    have "\<forall>d \<in> set calendar. take 4 d \<le> take 4 date" using snoc.prems by (simp add: sorted_append)
    moreover obtain d where "d \<in> set calendar" "take 4 d = window_year w"
      using window_member [OF w] by blast
    ultimately show ?thesis by metis
  qed
  show ?case
  proof (cases "?ws \<noteq> [] \<and> window_year (last ?ws) = take 4 date")
    case True
    then obtain ws w where ws: "?ws = ws @ [w]" by (metis append_butlast_last_id)
    with True asc show ?thesis by (simp add: step plan_step_def Let_def)
  next
    case False
    have "window_year w < take 4 date" if "w \<in> set ?ws" for w
    proof -
      have ne: "?ws \<noteq> []" using that by auto
      have "window_year w \<le> window_year (last ?ws)"
        using asc that ne by (cases ?ws rule: rev_cases) (auto simp: ascending_append less_imp_le)
      moreover have "window_year (last ?ws) < take 4 date" using False ne year [of "last ?ws"] by fastforce
      ultimately show ?thesis by simp
    qed
    moreover have "plan_step a b ?ws date = ?ws @ [\<lparr>window_year = take 4 date, window_index = length ?ws,
        window_from = maxDate a (take 4 date @ ''-01-01''), window_to = minDate b (take 4 date @ ''-12-31''),
        window_dates = [date]\<rparr>]"
      using False unfolding plan_step_def Let_def by (rule if_not_P)
    ultimately show ?thesis using asc by (simp add: step ascending_append)
  qed
qed

lemma list_le_append: "length xs = length ys \<Longrightarrow> xs @ us \<le> ys @ vs \<longleftrightarrow> xs < ys \<or> xs = ys \<and> us \<le> (vs :: 'a::linorder list)"
  using list_less_append [of ys xs vs us] by (auto simp: not_less [symmetric])

lemma year_bounds:
  assumes "isLocalDate date"
  shows "take 4 date @ ''-01-01'' \<le> date" "date \<le> take 4 date @ ''-12-31''" "length (take 4 date) = 4"
proof -
  obtain c where c: "date_civil c" "date = iso_prefix c" using assms by (rule isLocalDateE)
  obtain y m d where [simp]: "c = (y, m, d)" by (cases c)
  have b: "1 \<le> m" "m \<le> 12" "1 \<le> d" "d \<le> 31" "0 \<le> y" "y \<le> 9999"
    using c(1) days_in_month_bounds [of y m] by auto
  have ends: "''-01-01'' = ''-'' @ pad2 1 @ ''-'' @ pad2 1" "''-12-31'' = ''-'' @ pad2 12 @ ''-'' @ pad2 31"
    by code_simp+
  have date: "date = pad4 y @ ''-'' @ pad2 m @ ''-'' @ pad2 d"
    using c iso_prefix_date [of y m d] by simp
  then have year: "take 4 date = pad4 y" by simp
  have le: "pad2 i \<le> pad2 j \<longleftrightarrow> i \<le> j" if "0 \<le> i" "i < 100" "0 \<le> j" "j < 100" for i j
    using that pad2_less [of j i] by (simp add: not_less [symmetric])
  show "take 4 date @ ''-01-01'' \<le> date"
    unfolding year ends unfolding date using b le by (auto simp: list_le_append)
  show "date \<le> take 4 date @ ''-12-31''"
    unfolding year ends unfolding date using b le by (auto simp: list_le_append)
  show "length (take 4 date) = 4" by (simp add: year)
qed

lemma windows_partition_calendar_facts:
  fixes calendar startDate endDate
  defines "windows \<equiv> planExecutionWindows calendar startDate endDate"
  assumes asc: "ascending calendar"
    and dates: "\<forall>d \<in> set calendar. isLocalDate d \<and> startDate \<le> d \<and> d \<le> endDate"
  shows "concat (map window_dates windows) = calendar"
    and "i < length windows \<Longrightarrow> window_index (windows ! i) = i \<and> window_dates (windows ! i) \<noteq> []"
    and "w \<in> set windows \<Longrightarrow> d \<in> set (window_dates w) \<Longrightarrow>
      take 4 d = window_year w \<and> window_from w \<le> d \<and> d \<le> window_to w"
    and "i < j \<Longrightarrow> j < length windows \<Longrightarrow> window_to (windows ! i) < window_from (windows ! j)"
proof -
  note of = planExecutionWindows_of [of startDate endDate calendar, folded windows_def, unfolded windows_of_def]
  show "concat (map window_dates windows) = calendar" using of by blast
  show "i < length windows \<Longrightarrow> window_index (windows ! i) = i \<and> window_dates (windows ! i) \<noteq> []"
    using of nth_map [of i windows window_index] nth_mem [of i windows] by auto
  show "take 4 d = window_year w \<and> window_from w \<le> d \<and> d \<le> window_to w"
    if w: "w \<in> set windows" and d: "d \<in> set (window_dates w)"
  proof -
    note wD = windows_ofD [OF planExecutionWindows_of w [unfolded windows_def]]
    have "d \<in> set calendar" and y: "take 4 d = window_year w" using wD(2,3) d by blast+
    then have "startDate \<le> d" "d \<le> endDate" "isLocalDate d" using dates by blast+
    then show ?thesis using year_bounds(1,2) [of d] y unfolding wD(4,5) maxDate_def minDate_def by simp
  qed
  show "window_to (windows ! i) < window_from (windows ! j)" if ij: "i < j" "j < length windows"
  proof -
    have mem: "windows ! i \<in> set windows" "windows ! j \<in> set windows" using ij by simp_all
    have len: "length (window_year w) = 4" if "w \<in> set windows" for w
      using that dates year_bounds(3) unfolding windows_def by (metis window_member)
    have "window_year (windows ! i) < window_year (windows ! j)"
      using sorted_wrt_nth_less [OF plan_years [OF ascending_take_mono [OF asc], of startDate endDate] ij(1)] ij
      unfolding windows_def by simp
    then have "window_year (windows ! i) @ ''-12-31'' < window_year (windows ! j) @ ''-01-01''"
      using len mem by (simp add: list_less_append)
    moreover have "window_to (windows ! i) \<le> window_year (windows ! i) @ ''-12-31''"
      using windows_ofD(5) [OF planExecutionWindows_of mem(1) [unfolded windows_def]]
      unfolding windows_def minDate_def by (simp add: less_imp_le)
    moreover have "window_year (windows ! j) @ ''-01-01'' \<le> window_from (windows ! j)"
      using windows_ofD(4) [OF planExecutionWindows_of mem(2) [unfolded windows_def]]
      unfolding windows_def maxDate_def by (simp add: less_imp_le)
    ultimately show ?thesis by (meson le_less_trans less_le_trans)
  qed
qed

text \<open>
  C17. The execution windows partition the calendar: their dates, in order, are the calendar; window
  \<open>i\<close> is numbered \<open>i\<close> and holds dates of one year that lie within its bounds; and the bounds of an
  earlier window end before those of a later one begin.
\<close>

theorem windows_partition_calendar:
  fixes calendar startDate endDate
  defines "windows \<equiv> planExecutionWindows calendar startDate endDate"
  assumes "ascending calendar"
    and "\<forall>d \<in> set calendar. isLocalDate d \<and> startDate \<le> d \<and> d \<le> endDate"
  shows "concat (map window_dates windows) = calendar \<and>
    (\<forall>i < length windows. window_index (windows ! i) = i \<and> window_dates (windows ! i) \<noteq> []) \<and>
    (\<forall>w \<in> set windows. \<forall>d \<in> set (window_dates w).
      take 4 d = window_year w \<and> window_from w \<le> d \<and> d \<le> window_to w) \<and>
    (\<forall>i j. i < j \<longrightarrow> j < length windows \<longrightarrow> window_to (windows ! i) < window_from (windows ! j))"
  unfolding windows_def using windows_partition_calendar_facts [OF assms(2,3)] by blast

theorem windows_partition_calendar_witness:
  "concat (map window_dates (planExecutionWindows [''2020-12-30'', ''2021-01-04''] ''2020-12-30'' ''2021-06-30''))
     = [''2020-12-30'', ''2021-01-04'']"
proof (rule windows_partition_calendar [THEN conjunct1])
  show "ascending [''2020-12-30'', ''2021-01-04'' :: local_date]" by code_simp
  show "\<forall>d \<in> set [''2020-12-30'', ''2021-01-04'']. isLocalDate d \<and> ''2020-12-30'' \<le> d \<and> d \<le> ''2021-06-30''"
    by code_simp
qed

subsection \<open>A windowed frame continues the whole-period frame\<close>

text \<open>The frame that starts at session \<open>a\<close> of another, as the next window's materialization is.\<close>

definition slice_frame :: "nat \<Rightarrow> evaluation_frame \<Rightarrow> evaluation_frame" where
  "slice_frame a frame =
     frame\<lparr>frame_dates := drop a (frame_dates frame), frame_closes := drop a (frame_closes frame),
       frame_columns := map (\<lambda>p. (fst p, drop a (snd p))) (frame_columns frame)\<rparr>"

lemma slice_frame_simps [simp]:
  "frame_security (slice_frame a frame) = frame_security frame"
  "frame_symbol (slice_frame a frame) = frame_symbol frame"
  "frame_name (slice_frame a frame) = frame_name frame"
  "frame_dates (slice_frame a frame) = drop a (frame_dates frame)"
  "frame_closes (slice_frame a frame) = drop a (frame_closes frame)"
  "frame_columns (slice_frame a frame) = map (\<lambda>p. (fst p, drop a (snd p))) (frame_columns frame)"
  by (simp_all add: slice_frame_def)

lemma length_read_from [simp]: "length (read_from start stop column) = stop - start"
  by (simp add: read_from_def)

lemma read_from_drop: "length column = stop \<Longrightarrow> read_from start stop column = drop start column"
  by (rule nth_equalityI) (auto simp: read_from_def nth_or_nan_def nat_add_distrib)

lemma readOperand_slice:
  assumes "0 \<le> k" "m \<le> length (frame_dates frame)"
    "length (frame_closes frame) = length (frame_dates frame)"
    "\<forall>p \<in> set (frame_columns frame). length (snd p) = length (frame_dates frame)"
  shows "readOperand (slice_frame m frame) key k = readOperand frame key (int m + k)"
proof -
  have nth: "nth_or_nan (drop m column) k = nth_or_nan column (int m + k)"
    if "length column = length (frame_dates frame)" for column
    using assms(1,2) that by (auto simp: nth_or_nan_def nat_add_distrib)
  have col: "map_of (map (\<lambda>p. (fst p, drop m (snd p))) cs) key = map_option (drop m) (map_of cs key)" for cs
    by (rule map_of_map_values [of "\<lambda>k. drop m"])
  have len: "length column = length (frame_dates frame)" if "map_of (frame_columns frame) key = Some column" for column
    using assms(4) map_of_SomeD [OF that] by auto
  show ?thesis
    using assms(1-3) nth len by (auto simp: readOperand_def slice_frame_def col split: option.split)
qed

lemma length_takeWhile_ascending:
  assumes "ascending ds" "0 < n" "n \<le> length ds" "a \<le> n"
  shows "length (takeWhile (\<lambda>d. d \<le> ds ! (n - 1)) (drop a ds)) = n - a"
proof -
  have "takeWhile (\<lambda>d. d \<le> ds ! (n - 1)) (drop a ds) = take (n - a) (drop a ds)"
  proof (rule takeWhile_eq_take_P_nth)
    fix i assume "i < n - a" "i < length (drop a ds)"
    then show "drop a ds ! i \<le> ds ! (n - 1)" using assms by (auto intro!: ascending_nth_mono)
  next
    assume "n - a < length (drop a ds)"
    then show "\<not> drop a ds ! (n - a) \<le> ds ! (n - 1)"
      using assms ascending_nth_less [of ds "n - 1" n] by (auto simp: not_le)
  qed
  then show ?thesis using assms(3) by simp
qed

lemma Cons_nth_drop: "0 < n \<Longrightarrow> n \<le> length xs \<Longrightarrow> xs ! (n - 1) # drop n xs = drop (n - 1) xs"
  using Cons_nth_drop_Suc [of "n - 1" xs] by simp

lemma context_row_truncate:
  assumes "frame_ok frame" "0 < n" "n \<le> length (frame_dates frame)"
  shows "evaluationFrameContextRow (truncate_frame n frame) =
    Some \<lparr>row_date = frame_dates frame ! (n - 1), row_close = frame_closes frame ! (n - 1),
      row_values = map (\<lambda>p. (fst p, snd p ! (n - 1))) (frame_columns frame)\<rparr>"
proof -
  have lens: "length (frame_closes frame) = length (frame_dates frame)"
    "\<forall>p \<in> set (frame_columns frame). length (snd p) = length (frame_dates frame)"
    using assms(1) by (auto simp: frame_ok_def)
  have "nth_or_nan (take n column) (int n - 1) = column ! (n - 1)"
    if "length column = length (frame_dates frame)" for column
    using assms(2,3) that by (auto simp: nth_or_nan_def nat_diff_distrib)
  moreover have "last (take n (frame_dates frame)) = frame_dates frame ! (n - 1)"
    using assms(2,3) last_conv_nth [of "take n (frame_dates frame)"] by (cases "frame_dates frame") auto
  ultimately show ?thesis
    using assms(2,3) lens by (auto simp: evaluationFrameContextRow_def truncate_frame_def Let_def min_absorb1)
qed

lemma withLeadingContextRow_slice:
  assumes "frame_ok frame" "js_map_ok (frame_columns frame)"
    and "0 < n" "n \<le> length (frame_dates frame)" "a \<le> n"
  obtains p where "withLeadingContextRow (slice_frame a frame)
      (evaluationFrameContextRow (truncate_frame n frame)) =
    Inr ((slice_frame (n - 1) frame)\<lparr>periodStartIndex := p\<rparr>)"
proof -
  let ?ds = "frame_dates frame" and ?cs = "frame_columns frame"
  have asc: "ascending ?ds" and lc: "length (frame_closes frame) = length ?ds"
    and lk: "\<And>p. p \<in> set ?cs \<Longrightarrow> length (snd p) = length ?ds"
    using assms(1) by (auto simp: frame_ok_def)
  note start = length_takeWhile_ascending [OF asc assms(3-5)]
  have rest: "xs ! (n - 1) # read_from (n - a) (length ?ds - a) (drop a xs) = drop (n - 1) xs"
    if "length xs = length ?ds" for xs
    using that assms(3-5) Cons_nth_drop [of n xs] by (simp add: read_from_drop)
  have dates: "?ds ! (n - 1) # drop (n - a) (drop a ?ds) = drop (n - 1) ?ds"
    using assms(3-5) Cons_nth_drop [of n ?ds] by simp
  have row: "value_or_nan (map_of (map (\<lambda>p. (fst p, snd p ! (n - 1))) ?cs) (fst p)) = snd p ! (n - 1)"
    if "p \<in> set ?cs" for p
  proof -
    have "map_of ?cs (fst p) = Some (snd p)" using that assms(2) by (simp add: js_map_get_iff)
    then show ?thesis using map_of_map_values [of "\<lambda>k v. v ! (n - 1)" ?cs "fst p"] by (simp add: value_or_nan_def)
  qed
  have columns: "map (\<lambda>p. (fst p, value_or_nan (map_of (map (\<lambda>p. (fst p, snd p ! (n - 1))) ?cs) (fst p))
        # read_from (n - a) (length ?ds - a) (snd p))) (map (\<lambda>p. (fst p, drop a (snd p))) ?cs) =
      map (\<lambda>p. (fst p, drop (n - 1) (snd p))) ?cs"
    using row rest lk by simp
  have good: "first_unordered 1 (drop (n - 1) ?ds) = None"
    "first_bad_column (length ?ds - (n - 1)) (map (\<lambda>p. (fst p, drop (n - 1) (snd p))) ?cs) = None"
    using asc lk by (auto simp: first_unordered_None first_bad_column_None sorted_wrt_drop)
  have "\<exists>p. withLeadingContextRow (slice_frame a frame) (evaluationFrameContextRow (truncate_frame n frame)) =
    createEvaluationFrame (frame_security frame) (frame_symbol frame) (frame_name frame) (drop (n - 1) ?ds)
      (drop (n - 1) (frame_closes frame)) (Some (map (\<lambda>p. (fst p, drop (n - 1) (snd p))) ?cs)) p"
    unfolding context_row_truncate [OF assms(1,3,4)] withLeadingContextRow_def option.case Let_def
    by (simp only: slice_frame_simps context_row.simps start dates rest [OF lc] columns length_drop) blast
  then obtain p where p: "withLeadingContextRow (slice_frame a frame) (evaluationFrameContextRow (truncate_frame n frame)) =
    createEvaluationFrame (frame_security frame) (frame_symbol frame) (frame_name frame) (drop (n - 1) ?ds)
      (drop (n - 1) (frame_closes frame)) (Some (map (\<lambda>p. (fst p, drop (n - 1) (snd p))) ?cs)) p" by blast
  show ?thesis
  proof (rule that)
    show "withLeadingContextRow (slice_frame a frame) (evaluationFrameContextRow (truncate_frame n frame)) =
      Inr ((slice_frame (n - 1) frame)\<lparr>periodStartIndex := p\<rparr>)"
      unfolding p unfolding createEvaluationFrame_def slice_frame_def using good lc
      by (simp only: length_drop option.case Let_def) simp
  qed
qed

lemma evaluateMarketPredicate_slice:
  assumes "frame_ok frame" "m \<le> length (frame_dates frame)" "1 \<le> k \<or> m = 0 \<and> 0 \<le> k"
  shows "evaluateMarketPredicate ((slice_frame m frame)\<lparr>periodStartIndex := p\<rparr>) k q =
    evaluateMarketPredicate frame (int m + k) q"
proof -
  let ?w = "(slice_frame m frame)\<lparr>periodStartIndex := p\<rparr>"
  have same: "readOperand ?w key k = readOperand (slice_frame m frame) key k" for key k
    by (simp add: readOperand_def)
  have read: "readOperand ?w key k = readOperand frame key (int m + k)" if "0 \<le> k" for key k
    unfolding same using assms(1)
    by (intro readOperand_slice [OF that assms(2)]) (auto simp: frame_ok_def)
  have resolve: "resolveValue v s ?w k = resolveValue v s frame (int m + k)" if "0 \<le> k" for v s k
    using read [OF that] by (auto simp: resolveValue_def split: strategy_value.split option.split)
  have k: "0 \<le> k" using assms(3) by auto
  note now = k [THEN read] k [THEN resolve]
  show ?thesis
  proof (cases "1 \<le> k")
    case True
    then have "0 \<le> k - 1" by simp
    note before = this [THEN read] this [THEN resolve]
    have shift: "int m + (k - 1) = int m + k - 1" "\<not> k \<le> 0" "\<not> int m + k \<le> 0" using True by simp_all
    show ?thesis
      by (cases q; cases "metricOperand (predicate_metric q)")
        (simp_all add: evaluateMarketCondition_def evaluateMarketTrigger_def now before shift Let_def
          split: option.split)
  next
    case False
    then have "k = 0" "m = 0" using assms(3) by auto
    then show ?thesis
      using now by (cases q; cases "metricOperand (predicate_metric q)")
        (simp_all add: evaluateMarketCondition_def evaluateMarketTrigger_def Let_def split: option.split)
  qed
qed

text \<open>
  C13. Windowed evaluation is whole-period evaluation: cut a frame into windows, prepend to the next
  window the context row of the sessions seen so far, and every market decision after the context
  row is the decision of the uncut frame at the same session, even if the window repeats sessions.
\<close>

theorem windowed_signal_agrees:
  assumes ok: "frame_ok frame" "js_map_ok (frame_columns frame)"
    and n: "0 < n" "n \<le> length (frame_dates frame)" "a \<le> n"
  shows "\<exists>windowed. withLeadingContextRow (slice_frame a frame)
        (evaluationFrameContextRow (truncate_frame n frame)) = Inr windowed \<and>
      frame_dates windowed = drop (n - 1) (frame_dates frame) \<and>
      (\<forall>k \<ge> 1. evaluateMarketSignal signal windowed k = evaluateMarketSignal signal frame (int (n - 1) + k))"
proof -
  obtain p where w: "withLeadingContextRow (slice_frame a frame)
      (evaluationFrameContextRow (truncate_frame n frame)) =
    Inr ((slice_frame (n - 1) frame)\<lparr>periodStartIndex := p\<rparr>)"
    using withLeadingContextRow_slice [OF ok n] .
  define m where "m = n - 1"
  let ?w = "(slice_frame m frame)\<lparr>periodStartIndex := p\<rparr>"
  have bound: "m \<le> length (frame_dates frame)" using n by (simp add: m_def)
  have "evaluateMarketPredicate ?w k q = evaluateMarketPredicate frame (int m + k) q" if "1 \<le> k" for k q
    using evaluateMarketPredicate_slice [OF ok(1) bound] that by blast
  then have "\<forall>k \<ge> 1. evaluateMarketSignal signal ?w k = evaluateMarketSignal signal frame (int m + k)"
    unfolding evaluateMarketSignal_def by (metis (no_types, lifting) ext)
  then show ?thesis using w unfolding m_def by (auto simp: slice_frame_def)
qed

definition sample_frame :: evaluation_frame where
  "sample_frame = \<lparr>frame_security = ''s'', frame_symbol = ''S'', frame_name = ''N'',
     frame_dates = [''2020-12-30'', ''2020-12-31'', ''2021-01-04'', ''2021-01-05''],
     frame_closes = [Fin 10, Fin 11, Fin 12, Fin 13],
     frame_columns = [(''series:RSI_14D'', [Fin 29, Fin 31, Fin 20, Fin 32])], periodStartIndex = 0\<rparr>"

theorem windowed_signal_agrees_witness:
  "\<exists>windowed. withLeadingContextRow (slice_frame 2 sample_frame)
      (evaluationFrameContextRow (truncate_frame 2 sample_frame)) = Inr windowed \<and>
    evaluateMarketSignal (level_signal (hd (buyLevels sample_definition))) windowed 1 =
      evaluateMarketSignal (level_signal (hd (buyLevels sample_definition))) sample_frame 2"
  using windowed_signal_agrees [of sample_frame 2 2 "level_signal (hd (buyLevels sample_definition))"]
  by (force simp: sample_frame_def frame_ok_def js_map_ok_def)

end
