(* ===== verification/JsMath.thy ===== *)
theory JsMath
  imports JsNumber
begin

section \<open>Rounding functions and exact results\<close>

text \<open>
  The parts of \<open>Math\<close> and \<open>Number\<close> several components use, and the cases where a binary64
  result is known: it keeps the sign, stays between zero and a small integer, and is exact on the integers up to
  \<open>2 ^ 53\<close>.
\<close>

fun js_round :: "jsnum \<Rightarrow> jsnum" where
  "js_round (Fin x) = Fin (of_int \<lfloor>x + 1 / 2\<rfloor>)"
| "js_round a = a"

fun js_trunc :: "jsnum \<Rightarrow> jsnum" where
  "js_trunc (Fin x) = Fin (of_int (if 0 \<le> x then \<lfloor>x\<rfloor> else \<lceil>x\<rceil>))"
| "js_trunc a = a"

fun js_isInteger :: "jsnum \<Rightarrow> bool" where
  "js_isInteger (Fin x) \<longleftrightarrow> x = of_int \<lfloor>x\<rfloor>"
| "js_isInteger _ \<longleftrightarrow> False"

lemma round_at_nonneg: "0 \<le> x \<Longrightarrow> 0 \<le> round_at e x"
proof -
  assume "0 \<le> x"
  then have "of_int 0 \<le> x / 2 powi e" by simp
  from round_half_even_mono [OF this] have "0 \<le> round_half_even (x / 2 powi e)"
    using round_half_even_int [of 0] by simp
  then show "0 \<le> round_at e x" by (simp add: round_at_def)
qed

lemma binary64_nonneg:
  assumes "0 \<le> x"
  shows "binary64 x = PosInf \<or> (\<exists>r. binary64 x = Fin r \<and> 0 \<le> r)"
  using round_at_nonneg [OF assms] by (auto simp: binary64_def Let_def)

lemma round_at_le_int:
  assumes "x \<le> of_int n" "e \<le> 0"
  shows "round_at e x \<le> of_int n"
proof -
  have p: "(2 :: rat) powi (- e) = of_int (2 ^ nat (- e))" using assms(2) by (simp only: powi_nat)
  have "x / 2 powi e \<le> of_int n * 2 powi (- e)"
    using assms(1) by (simp add: divide_le_eq mult.assoc flip: powi_add_2)
  also have "\<dots> = of_int (n * 2 ^ nat (- e))" by (simp only: p of_int_mult)
  finally have "x / 2 powi e \<le> of_int (n * 2 ^ nat (- e))" .
  from round_half_even_mono [OF this]
  have "round_half_even (x / 2 powi e) \<le> n * 2 ^ nat (- e)" unfolding round_half_even_int .
  then have "(of_int (round_half_even (x / 2 powi e)) :: rat) \<le> of_int (n * 2 ^ nat (- e))"
    by (simp only: of_int_le_iff)
  also have "\<dots> = of_int n * 2 powi (- e)" by (simp only: p of_int_mult)
  finally have "round_at e x \<le> of_int n * 2 powi (- e) * 2 powi e"
    unfolding round_at_def by (rule mult_right_mono) simp
  then show ?thesis by (simp add: mult.assoc flip: powi_add_2)
qed

text \<open>A number between zero and a small integer rounds into the same interval.\<close>

lemma binary64_between:
  assumes "0 \<le> x" "x \<le> of_int n" "n \<le> 2 ^ 52"
  obtains r where "binary64 x = Fin r" "0 \<le> r" "r \<le> of_int n"
proof (cases "x = 0")
  case True
  then show ?thesis using that [of 0] assms(1,2) by (simp add: binary64_def)
next
  case False
  have n: "(of_int n :: rat) \<le> 2 ^ 52"
    using assms(3) by (metis of_int_le_iff of_int_numeral of_int_power)
  have p52: "(2 :: rat) powi 52 = 2 ^ 52" by (simp add: power_int_def)
  have "(2 :: rat) powi binade x \<le> 2 powi 52"
    unfolding p52 using binade_bounds(1) [OF False] assms(1,2) n by simp
  then have "binade x \<le> 52" by (rule powi_le_cancel)
  then have e: "binary64_exponent x \<le> 0" by (simp add: binary64_exponent_def)
  have "\<bar>x\<bar> < 2 ^ 1023"
  proof -
    have "(2 :: rat) ^ 52 < 2 ^ 1023" by simp
    then show ?thesis using assms(1,2) n by linarith
  qed
  then show ?thesis
    using that [OF binary64_finite] False round_at_nonneg [OF assms(1)] round_at_le_int [OF assms(2) e] by simp
qed

lemma round_at_exact: "x / 2 powi e = of_int n \<Longrightarrow> round_at e x = x"
  by (simp add: round_at_def) (simp add: divide_eq_eq)

lemma binary64_int:
  assumes "\<bar>n\<bar> \<le> 2 ^ 53"
  shows "binary64 (of_int n) = Fin (of_int n)"
proof (cases "n = 0")
  case False
  let ?x = "of_int n :: rat"
  have x: "?x \<noteq> 0" using False by simp
  have le: "\<bar>?x\<bar> \<le> 2 ^ 53" using assms by (simp flip: of_int_abs)
  then have big: "\<bar>?x\<bar> < 2 ^ 1023" by (rule le_less_trans) simp
  have exact: "round_at (binary64_exponent ?x) ?x = ?x"
  proof (cases "binade ?x \<le> 52")
    case True
    then have "binary64_exponent ?x \<le> 0" by (simp add: binary64_exponent_def)
    then have "?x / 2 powi (binary64_exponent ?x) = of_int (n * 2 ^ nat (- binary64_exponent ?x))"
      using powi_nat [of "- binary64_exponent ?x"] by (simp add: power_int_minus field_simps)
    then show ?thesis by (rule round_at_exact)
  next
    case False
    then have "(2 :: rat) powi 53 \<le> 2 powi binade ?x" by (intro powi_mono_2) simp
    moreover have p53: "(2 :: rat) powi 53 = 2 ^ 53" by (simp add: power_int_def)
    moreover have "(2 :: rat) powi binade ?x \<le> 2 powi 53"
      unfolding p53 using binade_bounds(1) [OF x] le by (rule order_trans)
    ultimately have b: "binade ?x = 53" using powi_le_cancel by (metis eq_iff)
    moreover have "\<bar>?x\<bar> = 2 ^ 53" using binade_bounds(1) [OF x] le p53 unfolding b by simp
    ultimately have "binary64_exponent ?x = 1" "?x = 2 ^ 53 \<or> ?x = - (2 ^ 53)"
      by (auto simp: binary64_exponent_def)
    then have "?x / 2 powi (binary64_exponent ?x) = of_int (2 ^ 52) \<or>
        ?x / 2 powi (binary64_exponent ?x) = of_int (- (2 ^ 52))" by auto
    then show ?thesis using round_at_exact by blast
  qed
  then show ?thesis using binary64_finite [OF big] x by simp
qed (simp add: binary64_def)

lemma binary64_nat: "n \<le> 2 ^ 53 \<Longrightarrow> binary64 (of_nat n) = Fin (of_nat n)"
  using binary64_int [of "int n"] by (simp flip: of_nat_le_iff)

end
