(* ===== verification/Metrics.thy ===== *)
theory Metrics
  imports JsMath Money LocalDates
begin

section \<open>Return metrics, the benchmark and the comparison scenarios\<close>

text \<open>
  \<open>packages/strategy/src/backtest/metrics.ts\<close>, \<open>benchmark.ts\<close> and \<open>comparison.ts\<close>: the chained return
  index, the drawdown accumulator, the annualized growth rate, curve downsampling, the cursor that
  carries a benchmark close forward and the two funded comparison scenarios. \<open>Math.pow\<close> is
  implementation-approximated by the language standard, so it is an argument of \<open>cagrPercent\<close>.
\<close>

subsection \<open>Return index and drawdown\<close>

definition indexToPercent :: "jsnum \<Rightarrow> jsnum" where
  "indexToPercent index = js_mul (js_sub index (Fin 1)) (Fin 100)"

definition chainReturnIndex :: "jsnum \<Rightarrow> jsnum \<Rightarrow> jsnum \<Rightarrow> jsnum \<Rightarrow> jsnum" where
  "chainReturnIndex previousIndex previousValue contribution currentValue =
     (let invested = js_add previousValue contribution
      in if \<not> js_gt invested (Fin 0) \<or> \<not> isFinite currentValue then previousIndex
         else js_mul previousIndex (js_div currentValue invested))"

record drawdown_tracker =
  peak :: jsnum
  worst :: jsnum

definition new_DrawdownTracker :: drawdown_tracker where
  "new_DrawdownTracker = \<lparr>peak = NegInf, worst = Fin 0\<rparr>"

definition observe :: "drawdown_tracker \<Rightarrow> jsnum \<Rightarrow> drawdown_tracker" where
  "observe tracker index =
     (if \<not> isFinite index \<or> js_le index (Fin 0) then tracker
      else if js_gt index (peak tracker) then tracker\<lparr>peak := index\<rparr>
      else
        (let drawdown = js_mul (js_sub (Fin 1) (js_div index (peak tracker))) (Fin 100)
         in if js_gt drawdown (worst tracker) then tracker\<lparr>worst := drawdown\<rparr> else tracker))"

definition maxDrawdownPercent :: "drawdown_tracker \<Rightarrow> jsnum" where
  "maxDrawdownPercent tracker = worst tracker"

definition alphaPercent :: "jsnum \<Rightarrow> jsnum option \<Rightarrow> jsnum option" where
  "alphaPercent portfolioReturnPercent benchmarkReturnPercent =
     map_option (\<lambda>b. js_sub portfolioReturnPercent b) benchmarkReturnPercent"

subsection \<open>Annualized growth\<close>

text \<open>Days since 1970-01-01 in the proleptic Gregorian calendar; \<open>Date.parse\<close> at midnight UTC.\<close>

fun epoch_day :: "civil \<Rightarrow> int" where
  "epoch_day (y, m, d) =
     365 * (y - 1) + (y - 1) div 4 - (y - 1) div 100 + (y - 1) div 400
     + sum_list (map (days_in_month y) [1..m - 1]) + d - 1 - 719162"

definition parse_ms :: "string \<Rightarrow> jsnum" where
  "parse_ms date =
     (case parse_utc date of None \<Rightarrow> NotANumber | Some c \<Rightarrow> Fin (of_int (epoch_day c * 86400000)))"

definition DAYS_PER_YEAR :: jsnum where
  "DAYS_PER_YEAR = Fin (36525 / 100)"

definition cagrPercent :: "(jsnum \<Rightarrow> jsnum \<Rightarrow> jsnum) \<Rightarrow> jsnum \<Rightarrow> string \<Rightarrow> string \<Rightarrow> jsnum option" where
  "cagrPercent js_pow finalIndex firstDate lastDate =
     (let start = parse_ms firstDate; stop = parse_ms lastDate
      in if \<not> isFinite start \<or> \<not> isFinite stop \<or> js_le stop start then None
         else if \<not> js_gt finalIndex (Fin 0) then None
         else (let years = js_div (js_div (js_sub stop start) (Fin 86400000)) DAYS_PER_YEAR
           in if js_le years (Fin 0) then None
              else Some (js_mul (js_sub (js_pow finalIndex (js_div (Fin 1) years)) (Fin 1)) (Fin 100))))"

subsection \<open>Downsampling\<close>

text \<open>An array read by a number: \<open>undefined\<close> unless it is an index of the array.\<close>

fun read_at :: "'a list \<Rightarrow> jsnum \<Rightarrow> 'a option" where
  "read_at xs (Fin k) =
     (if k = of_int \<lfloor>k\<rfloor> \<and> 0 \<le> k \<and> k < of_nat (length xs) then Some (xs ! nat \<lfloor>k\<rfloor>) else None)"
| "read_at xs _ = None"

definition downsample :: "'a list \<Rightarrow> int \<Rightarrow> 'a list" where
  "downsample points maxPoints =
     (if int (length points) \<le> maxPoints \<or> maxPoints < 2 then points
      else
        (let stride = js_div (Fin (of_int (int (length points) - 1))) (Fin (of_int (maxPoints - 1)));
             kept = List.map_filter
               (\<lambda>step. read_at points (js_round (js_mul (Fin (of_nat step)) stride)))
               [0..<nat (maxPoints - 1)]
         in kept @ [last points]))"

subsection \<open>The benchmark cursor\<close>

record benchmark_series =
  benchmarkId :: string
  benchmark_code :: string
  benchmark_name :: string
  benchmark_dates :: "local_date list"
  benchmark_closes :: "jsnum list"

record benchmark_cursor =
  cursor_series :: "benchmark_series option"
  cursor_position :: int
  cursor_base :: "jsnum option"

definition new_BenchmarkCursor :: "benchmark_series option \<Rightarrow> benchmark_cursor" where
  "new_BenchmarkCursor series = \<lparr>cursor_series = series, cursor_position = - 1, cursor_base = None\<rparr>"

function advance_while :: "local_date list \<Rightarrow> local_date \<Rightarrow> int \<Rightarrow> int" where
  "advance_while dates date position =
     (if position + 1 < int (length dates) \<and> dates ! nat (position + 1) \<le> date
      then advance_while dates date (position + 1) else position)"
  by auto
termination by (relation "measure (\<lambda>(dates, _, position). nat (int (length dates) - position))") auto

declare advance_while.simps [simp del]

definition usable_close :: "jsnum list \<Rightarrow> int \<Rightarrow> jsnum option" where
  "usable_close closes position =
     (if 0 \<le> position \<and> position < int (length closes)
         \<and> isFinite (closes ! nat position) \<and> js_gt (closes ! nat position) (Fin 0)
      then Some (closes ! nat position) else None)"

definition benchmark_closeAt :: "benchmark_cursor \<Rightarrow> local_date \<Rightarrow> benchmark_cursor \<times> jsnum option" where
  "benchmark_closeAt cursor date =
     (case cursor_series cursor of
        None \<Rightarrow> (cursor, None)
      | Some series \<Rightarrow>
          (let position = advance_while (benchmark_dates series) date (cursor_position cursor)
           in (cursor\<lparr>cursor_position := position\<rparr>,
               if position < 0 then None else usable_close (benchmark_closes series) position)))"

definition indexFor :: "benchmark_cursor \<Rightarrow> jsnum option \<Rightarrow> benchmark_cursor \<times> jsnum option" where
  "indexFor cursor close =
     (case close of
        None \<Rightarrow> (cursor, None)
      | Some close \<Rightarrow>
          (let base = (case cursor_base cursor of None \<Rightarrow> close | Some base \<Rightarrow> base)
           in (cursor\<lparr>cursor_base := Some base\<rparr>, Some (js_div close base))))"

definition indexAt :: "benchmark_cursor \<Rightarrow> local_date \<Rightarrow> benchmark_cursor \<times> jsnum option" where
  "indexAt cursor date =
     (case benchmark_closeAt cursor date of (cursor', close) \<Rightarrow> indexFor cursor' close)"

subsection \<open>Comparison scenarios\<close>

record comparison_scenarios =
  scenario_shares :: decimal
  scenario_pending :: decimal
  scenario_baseline :: decimal

definition new_ComparisonScenarios :: comparison_scenarios where
  "new_ComparisonScenarios =
     \<lparr>scenario_shares = MONEY_ZERO, scenario_pending = MONEY_ZERO, scenario_baseline = MONEY_ZERO\<rparr>"

definition fund :: "decimal_lib \<Rightarrow> comparison_scenarios \<Rightarrow> jsnum \<Rightarrow> comparison_scenarios" where
  "fund D scenarios amount =
     (if \<not> isFinite amount \<or> js_le amount (Fin 0) then scenarios
      else
        (let deposit = quantizeMoney D (d_of_number D amount)
         in scenarios
            \<lparr>scenario_baseline := quantizeMoney D (d_plus D (scenario_baseline scenarios) deposit),
             scenario_pending := quantizeMoney D (d_plus D (scenario_pending scenarios) deposit)\<rparr>))"

definition markBenchmark ::
  "decimal_lib \<Rightarrow> comparison_scenarios \<Rightarrow> jsnum option \<Rightarrow> comparison_scenarios \<times> decimal option"
where
  "markBenchmark D scenarios close =
     (case close of
        None \<Rightarrow> (scenarios, None)
      | Some close \<Rightarrow>
          (let price = quantizePrice D (d_of_number D close);
               scenarios' =
                 (if d_gt D (scenario_pending scenarios) MONEY_ZERO \<and> d_gt D price MONEY_ZERO
                  then scenarios
                    \<lparr>scenario_shares := d_plus D (scenario_shares scenarios)
                       (d_div D (scenario_pending scenarios) price),
                     scenario_pending := MONEY_ZERO\<rparr>
                  else scenarios)
           in (scenarios', Some (quantizeMoney D (d_times D (scenario_shares scenarios') price)))))"

definition benchmarkShares :: "decimal_lib \<Rightarrow> comparison_scenarios \<Rightarrow> jsnum" where
  "benchmarkShares D scenarios = toNumber D (scenario_shares scenarios)"

definition pendingCapital :: "decimal_lib \<Rightarrow> comparison_scenarios \<Rightarrow> jsnum" where
  "pendingCapital D scenarios = toNumber D (scenario_pending scenarios)"

subsection \<open>Drawdown stays a percentage\<close>

text \<open>The indexes the tracker accepts, and what holds of it between observations.\<close>

fun accepted :: "jsnum \<Rightarrow> rat option" where
  "accepted (Fin x) = (if 0 < x then Some x else None)"
| "accepted _ = None"

definition drawdown_ok :: "drawdown_tracker \<Rightarrow> bool" where
  "drawdown_ok tracker \<longleftrightarrow>
     (peak tracker = NegInf \<or> (\<exists>p. peak tracker = Fin p \<and> 0 < p)) \<and>
     (\<exists>w. worst tracker = Fin w \<and> 0 \<le> w \<and> w \<le> 100)"

lemma drawdown_percent:
  assumes "0 < x" "x \<le> p"
  obtains w where "js_mul (js_sub (Fin 1) (js_div (Fin x) (Fin p))) (Fin 100) = Fin w" "0 \<le> w" "w \<le> 100"
proof -
  have "0 \<le> x / p" "x / p \<le> of_int 1" using assms by (simp_all add: divide_le_eq)
  then obtain q where q: "binary64 (x / p) = Fin q" "0 \<le> q" "q \<le> of_int 1"
    by (rule binary64_between) simp_all
  then have "0 \<le> 1 - q" "1 - q \<le> of_int 1" by simp_all
  then obtain d where d: "binary64 (1 - q) = Fin d" "0 \<le> d" "d \<le> of_int 1"
    by (rule binary64_between) simp_all
  then have "0 \<le> d * 100" "d * 100 \<le> of_int 100" by simp_all
  then obtain w where "binary64 (d * 100) = Fin w" "0 \<le> w" "w \<le> of_int 100"
    by (rule binary64_between) simp_all
  then show ?thesis using that [of w] q(1) d(1) assms by (simp add: js_sub_def)
qed

lemma observe_ok: "drawdown_ok tracker \<Longrightarrow> drawdown_ok (observe tracker index)"
proof (cases index)
  case (Fin x)
  assume ok: "drawdown_ok tracker"
  show ?thesis
  proof (cases "0 < x \<and> (\<exists>p. peak tracker = Fin p \<and> x \<le> p)")
    case True
    then obtain p w where p: "peak tracker = Fin p" "x \<le> p"
      and w: "js_mul (js_sub (Fin 1) (js_div (Fin x) (Fin p))) (Fin 100) = Fin w" "0 \<le> w" "w \<le> 100"
      using drawdown_percent by metis
    then show ?thesis using ok True Fin by (auto simp: observe_def drawdown_ok_def Let_def)
  next
    case False
    then show ?thesis using ok Fin by (auto simp: observe_def drawdown_ok_def)
  qed
qed (simp_all add: observe_def)

interpretation drawdown: invariant_loop observe drawdown_ok
  by unfold_locales (rule observe_ok)

definition running_peak :: "jsnum list \<Rightarrow> jsnum" where
  "running_peak indexes =
     (let xs = List.map_filter accepted indexes in if xs = [] then NegInf else Fin (Max (set xs)))"

lemma map_filter_append: "List.map_filter f (xs @ ys) = List.map_filter f xs @ List.map_filter f ys"
  by (simp add: List.map_filter_def)

lemma peak_observe:
  "0 < a \<Longrightarrow> peak (observe t (Fin a)) = (if js_gt (Fin a) (peak t) then Fin a else peak t)"
  by (simp add: observe_def Let_def)

lemma observe_peak: "peak (foldl observe new_DrawdownTracker xs) = running_peak xs"
proof (induction xs rule: rev_induct)
  case Nil
  show ?case by (simp add: new_DrawdownTracker_def running_peak_def List.map_filter_def)
next
  case (snoc x xs)
  let ?t = "foldl observe new_DrawdownTracker xs"
  let ?as = "List.map_filter accepted xs"
  show ?case
  proof (cases "accepted x")
    case None
    then have "observe ?t x = ?t" by (cases x) (auto simp: observe_def split: if_splits)
    then show ?thesis using None snoc by (simp add: running_peak_def map_filter_append List.map_filter_def)
  next
    case (Some a)
    then have x: "x = Fin a" "0 < a" by (cases x; simp split: if_splits)+
    have as: "List.map_filter accepted (xs @ [x]) = ?as @ [a]"
      using Some by (simp add: map_filter_append List.map_filter_def)
    show ?thesis
    proof (cases "?as = []")
      case True
      then show ?thesis using snoc x as by (simp add: peak_observe running_peak_def)
    next
      case False
      then have "peak ?t = Fin (Max (set ?as))" using snoc by (simp add: running_peak_def)
      then show ?thesis using False x as by (simp add: peak_observe running_peak_def Let_def max_def not_le del: Max_less_iff)
    qed
  qed
qed

text \<open>
  C33. The drawdown accumulator reports a percentage: whatever index series it observes, gaps and
  infinities included, the worst drawdown is a number between 0 and 100, and the peak it measures
  from is the largest positive finite index observed so far.
\<close>

theorem drawdown_bounded:
  "peak (foldl observe new_DrawdownTracker xs) = running_peak xs \<and>
   (\<exists>w. maxDrawdownPercent (foldl observe new_DrawdownTracker xs) = Fin w \<and> 0 \<le> w \<and> w \<le> 100)"
proof -
  have "drawdown_ok new_DrawdownTracker" by (simp add: drawdown_ok_def new_DrawdownTracker_def)
  then have "drawdown_ok (foldl observe new_DrawdownTracker xs)" by (rule drawdown.foldl_inv)
  then show ?thesis using observe_peak by (simp add: drawdown_ok_def maxDrawdownPercent_def)
qed

subsection \<open>The benchmark close is carried forward\<close>

definition dates_through :: "local_date list \<Rightarrow> local_date \<Rightarrow> nat" where
  "dates_through dates date = length (filter (\<lambda>d. d \<le> date) dates)"

definition carried_close :: "benchmark_series \<Rightarrow> local_date \<Rightarrow> jsnum option" where
  "carried_close series date =
     (let n = dates_through (benchmark_dates series) date
      in if n = 0 then None else usable_close (benchmark_closes series) (int n - 1))"

lemma dates_through_nth:
  assumes "ascending dates" "i < length dates"
  shows "dates ! i \<le> date \<longleftrightarrow> i < dates_through dates date"
  using assms
proof (induction dates arbitrary: i)
  case (Cons d ds)
  have none: "filter (\<lambda>e. e \<le> date) ds = []" if "\<not> d \<le> date"
    using that Cons.prems(1) by (fastforce simp: filter_empty_conv)
  show ?case
  proof (cases i)
    case 0
    then show ?thesis using none by (auto simp: dates_through_def)
  next
    case (Suc k)
    then have "ds ! k \<le> date \<longleftrightarrow> k < dates_through ds date" using Cons by simp
    moreover have "d < ds ! k" using Cons.prems Suc by simp
    ultimately show ?thesis using Suc none by (auto simp: dates_through_def)
  qed
qed simp

lemma advance_while_reaches:
  "ascending dates \<Longrightarrow> - 1 \<le> position \<Longrightarrow> position + 1 \<le> int (dates_through dates date) \<Longrightarrow>
    advance_while dates date position = int (dates_through dates date) - 1"
proof (induction dates date position rule: advance_while.induct)
  case (1 dates date position)
  have le: "dates_through dates date \<le> length dates" by (simp add: dates_through_def)
  show ?case
  proof (cases "position + 1 = int (dates_through dates date)")
    case True
    have "\<not> (position + 1 < int (length dates) \<and> dates ! nat (position + 1) \<le> date)"
      using dates_through_nth [of dates "nat (position + 1)" date] True 1(2) by auto
    then show ?thesis using True by (subst advance_while.simps) auto
  next
    case False
    then have c: "position + 1 < int (length dates) \<and> dates ! nat (position + 1) \<le> date"
      using dates_through_nth [of dates "nat (position + 1)" date] 1(2-4) le by auto
    then have "advance_while dates date position = advance_while dates date (position + 1)"
      by (subst advance_while.simps) simp
    then show ?thesis using 1(1) [OF c] 1(2-4) False by simp
  qed
qed

lemma dates_through_mono: "date \<le> date' \<Longrightarrow> dates_through dates date \<le> dates_through dates date'"
  unfolding dates_through_def by (induction dates) auto

definition query :: "benchmark_cursor \<Rightarrow> local_date \<Rightarrow> benchmark_cursor" where
  "query cursor date = fst (benchmark_closeAt cursor date)"

lemma query_Some:
  "cursor_series c = Some series \<Longrightarrow>
     query c date = c\<lparr>cursor_position := advance_while (benchmark_dates series) date (cursor_position c)\<rparr>"
  by (simp add: query_def benchmark_closeAt_def Let_def)

lemma queries_position:
  assumes "ascending (benchmark_dates series)" "sorted (qs @ [date])"
  shows "cursor_series (foldl query (new_BenchmarkCursor (Some series)) qs) = Some series \<and>
    - 1 \<le> cursor_position (foldl query (new_BenchmarkCursor (Some series)) qs) \<and>
    cursor_position (foldl query (new_BenchmarkCursor (Some series)) qs) + 1
      \<le> int (dates_through (benchmark_dates series) date)"
  using assms(2)
proof (induction qs arbitrary: date rule: rev_induct)
  case Nil
  show ?case by (simp add: new_BenchmarkCursor_def)
next
  case (snoc q qs)
  let ?c = "foldl query (new_BenchmarkCursor (Some series)) qs"
  have "sorted (qs @ [q])" and le: "q \<le> date" using snoc.prems by (simp_all add: sorted_append)
  from snoc.IH [OF this(1)] have ih: "cursor_series ?c = Some series" "- 1 \<le> cursor_position ?c"
    "cursor_position ?c + 1 \<le> int (dates_through (benchmark_dates series) q)" by auto
  then show ?case
    using advance_while_reaches [OF assms(1) ih(2,3)] dates_through_mono [OF le, of "benchmark_dates series"]
    by (simp add: query_Some)
qed

text \<open>
  C34. The benchmark cursor carries the last close forward: asked for dates in order, it answers each
  with the close of the last series date at or before it, and with none when there is no such date
  or its close is not a positive number, whatever was asked before.
\<close>

theorem benchmark_carries_forward:
  assumes "ascending (benchmark_dates series)" "sorted (qs @ [date])"
  shows "snd (benchmark_closeAt (foldl query (new_BenchmarkCursor (Some series)) qs) date) =
    carried_close series date"
proof -
  let ?c = "foldl query (new_BenchmarkCursor (Some series)) qs"
  have c: "cursor_series ?c = Some series" "- 1 \<le> cursor_position ?c"
    "cursor_position ?c + 1 \<le> int (dates_through (benchmark_dates series) date)"
    using queries_position [OF assms] by auto
  show ?thesis
    using c(1) advance_while_reaches [OF assms(1) c(2,3)]
    by (simp add: benchmark_closeAt_def carried_close_def Let_def)
qed

theorem benchmark_carries_forward_witness:
  "let series = \<lparr>benchmarkId = ''b'', benchmark_code = ''SPY'', benchmark_name = ''S'',
      benchmark_dates = [''2020-01-02'', ''2020-01-06''], benchmark_closes = [Fin 320, Fin 324]\<rparr>
   in snd (benchmark_closeAt (foldl query (new_BenchmarkCursor (Some series)) [''2020-01-02'']) ''2020-01-03'') =
     Some (Fin 320)"
proof -
  let ?series = "\<lparr>benchmarkId = ''b'', benchmark_code = ''SPY'', benchmark_name = ''S'',
      benchmark_dates = [''2020-01-02'', ''2020-01-06''], benchmark_closes = [Fin 320, Fin 324]\<rparr>"
  have "carried_close ?series ''2020-01-03'' = Some (Fin 320)" by code_simp
  then show ?thesis
    using benchmark_carries_forward [of ?series "[''2020-01-02'']" "''2020-01-03''"] by simp
qed

end
