(* ===== verification/Simulation.thy ===== *)
theory Simulation
  imports BuyWindows Positions Calendar Metrics
begin

section \<open>The portfolio simulation\<close>

text \<open>
  \<open>packages/strategy/src/backtest/simulation.ts\<close>, \<open>simulate.ts\<close> and the records of \<open>types.ts\<close>. The private
  fields of the class are the fields of the record \<open>simulation\<close>; a method that mutates them returns
  the updated record, and a method that throws returns \<open>Inl\<close> of the error. A throw ends the run: what
  a caller could still do with a simulation that has thrown is not modelled.

  The positions map is an association list in insertion order. A loop that walks position objects
  while it mutates and deletes them walks their keys and reads the current entry; the per-window
  map from security to runtime is looked up in the list of runtimes, whose objects it shares.

  Each phase of \<open>simulateDate\<close> is a definition of its own, composed in the order of the source. The
  diagnostics observer, which receives copies of what the state already holds, is not modelled.
\<close>

subsection \<open>Input\<close>

record security_setup =
  setup_securityId :: security_id
  setup_symbol :: string
  setup_name :: string
  setup_buyWindows :: buy_window_configuration

record simulation_input =
  in_definition :: strategy_definition
  in_securities :: "security_setup list"
  in_benchmark :: "benchmark_series option"
  in_executionCalendar :: "local_date list"
  in_startDate :: local_date
  in_endDate :: local_date
  in_initialCapital :: jsnum
  in_monthlyContribution :: jsnum
  in_maximumPositions :: jsnum

record simulation_options =
  checkpointEveryDays :: int
  maxCurvePoints :: int
  recentTradeCount :: nat
  onCheckpoint :: bool

definition DEFAULT_OPTIONS :: simulation_options where
  "DEFAULT_OPTIONS =
     \<lparr>checkpointEveryDays = 5, maxCurvePoints = 360, recentTradeCount = 10, onCheckpoint = False\<rparr>"

datatype simulation_error =
  MaximumPositionsInvalid
| InitialCapitalInvalid
| MonthlyContributionInvalid
| PeriodReversed
| NoSecurities
| NoBuyLevel
| NoExecutionCalendar
| NoEligibleDay
| WindowOutOfOrder
| WholePeriodStarted
| WindowsRemain nat nat
| FrameCount nat nat
| FrameMismatch nat
| DateOutOfOrder local_date nat
| FrameFailure frame_error
| StrategyFailure strategy_error
| NeverReturns

definition assertInput :: "simulation_input \<Rightarrow> simulation_error option" where
  "assertInput input =
     (if \<not> js_isInteger (in_maximumPositions input) \<or> js_le (in_maximumPositions input) (Fin 0)
      then Some MaximumPositionsInvalid
      else if \<not> isFinite (in_initialCapital input) \<or> js_le (in_initialCapital input) (Fin 0)
      then Some InitialCapitalInvalid
      else if \<not> isFinite (in_monthlyContribution input) \<or> js_lt (in_monthlyContribution input) (Fin 0)
      then Some MonthlyContributionInvalid
      else if in_startDate input > in_endDate input then Some PeriodReversed
      else if in_securities input = [] then Some NoSecurities
      else if buyLevels (in_definition input) = [] then Some NoBuyLevel
      else None)"

subsection \<open>Output rows\<close>

datatype trade_action = BUY | SELL | FINAL_EXIT
datatype trade_source = STRATEGY | END_OF_BACKTEST

record trade =
  trade_sequence :: nat
  trade_date :: local_date
  trade_securityId :: security_id
  trade_symbol :: string
  trade_name :: string
  trade_action :: trade_action
  trade_source :: trade_source
  trade_levelId :: "string option"
  trade_exitRuleId :: "string option"
  trade_levelPercentage :: "nat option"
  trade_shares :: money_string
  trade_price :: money_string
  trade_amount :: money_string
  trade_fees :: money_string
  trade_realizedPnl :: "money_string option"
  trade_realizedPnlPercent :: "jsnum option"
  trade_cashAfter :: money_string
  trade_sharesAfter :: money_string
  trade_averageCostAfter :: "money_string option"

record equity_point =
  equity_date :: local_date
  equity_cash :: money_string
  equity_positionsValue :: money_string
  equity_totalValue :: money_string
  equity_investedCapital :: money_string
  equity_returnIndex :: jsnum
  equity_benchmarkIndex :: "jsnum option"
  equity_benchmarkValue :: "money_string option"
  equity_cashBaselineValue :: money_string
  equity_openPositions :: nat

record curve_point =
  curve_date :: local_date
  curve_portfolioReturnPercent :: jsnum
  curve_benchmarkReturnPercent :: "jsnum option"
  curve_strategyValue :: jsnum
  curve_benchmarkValue :: "jsnum option"
  curve_cashBaselineValue :: jsnum

record checkpoint_holding =
  holding_securityId :: security_id
  holding_symbol :: string
  holding_name :: string
  holding_shares :: jsnum
  holding_averageCost :: jsnum
  holding_lastPrice :: jsnum
  holding_lastPriceDate :: local_date
  holding_marketValue :: jsnum
  holding_unrealizedPnlPercent :: jsnum
  holding_allocationPercent :: jsnum

record checkpoint =
  check_simulatedThrough :: local_date
  check_milestone :: "string option"
  check_completedDays :: nat
  check_totalDays :: nat
  check_cash :: jsnum
  check_positionsValue :: jsnum
  check_totalValue :: jsnum
  check_investedCapital :: jsnum
  check_netProfit :: jsnum
  check_portfolioReturnPercent :: jsnum
  check_benchmarkReturnPercent :: "jsnum option"
  check_alphaPercent :: "jsnum option"
  check_portfolioCagrPercent :: "jsnum option"
  check_maxDrawdownPercent :: jsnum
  check_benchmarkValue :: "jsnum option"
  check_cashBaselineValue :: jsnum
  check_tradeCount :: nat
  check_openPositions :: nat
  check_curve :: "curve_point list"
  check_holdings :: "checkpoint_holding list"
  check_recentTrades :: "trade list"

subsection \<open>State\<close>

record security_runtime =
  runtime_setup :: security_setup
  runtime_frame :: evaluation_frame
  runtime_gates :: strategy_gates
  runtime_cursor :: int

type_synonym positions_map = "(security_id \<times> position_state) list"

text \<open>\<open>checkpoints\<close> is what the \<open>onCheckpoint\<close> callback has received.\<close>

record simulation =
  sim_input :: simulation_input
  sim_windows :: "execution_window list"
  sim_calendar :: "local_date list"
  sim_contributionDates :: "local_date list"
  sim_fullPositionFraction :: jsnum
  sim_benchmark :: benchmark_cursor
  sim_scenarios :: comparison_scenarios
  sim_positions :: positions_map
  sim_epochs :: "(security_id \<times> nat) list"
  sim_trades :: "trade list"
  sim_equity :: "equity_point list"
  sim_curve :: "curve_point list"
  sim_drawdown :: drawdown_tracker
  sim_benchmarkDrawdown :: drawdown_tracker
  sim_contextRows :: "(security_id \<times> context_row) list"
  sim_runtimes :: "security_runtime list"
  sim_cash :: decimal
  sim_investedCapital :: decimal
  sim_returnIndex :: jsnum
  sim_previousTotalValue :: jsnum
  sim_realizedPnl :: decimal
  sim_sequence :: nat
  sim_completedDays :: nat
  sim_nextWindowIndex :: nat
  sim_checkpoints :: "checkpoint list"

definition new_BacktestSimulation :: "decimal_lib \<Rightarrow> simulation_input \<Rightarrow> simulation_error + simulation" where
  "new_BacktestSimulation D input =
     (case assertInput input of
        Some e \<Rightarrow> Inl e
      | None \<Rightarrow>
          if in_executionCalendar input = [] then Inl NoExecutionCalendar
          else
            (let calendar = buildExecutionCalendar (in_startDate input) (in_endDate input)
                   (in_executionCalendar input)
             in if calendar = [] then Inl NoEligibleDay
                else Inr
                  \<lparr>sim_input = input,
                   sim_windows = planExecutionWindows calendar (in_startDate input) (in_endDate input),
                   sim_calendar = calendar,
                   sim_contributionDates = buildContributionDates calendar,
                   sim_fullPositionFraction = js_div (Fin 1) (in_maximumPositions input),
                   sim_benchmark = new_BenchmarkCursor (in_benchmark input),
                   sim_scenarios = fund D new_ComparisonScenarios (in_initialCapital input),
                   sim_positions = [], sim_epochs = [], sim_trades = [], sim_equity = [], sim_curve = [],
                   sim_drawdown = new_DrawdownTracker, sim_benchmarkDrawdown = new_DrawdownTracker,
                   sim_contextRows = [], sim_runtimes = [],
                   sim_cash = quantizeMoney D (d_of_number D (in_initialCapital input)),
                   sim_investedCapital = quantizeMoney D (d_of_number D (in_initialCapital input)),
                   sim_returnIndex = Fin 1,
                   sim_previousTotalValue = in_initialCapital input,
                   sim_realizedPnl = MONEY_ZERO, sim_sequence = 0, sim_completedDays = 0,
                   sim_nextWindowIndex = 0, sim_checkpoints = []\<rparr>))"

subsection \<open>Reading the state\<close>

definition comparePositions :: "position_state \<Rightarrow> position_state \<Rightarrow> int" where
  "comparePositions left right =
     (if pos_symbol left \<noteq> pos_symbol right
      then (if pos_symbol left < pos_symbol right then - 1 else 1)
      else if pos_securityId left < pos_securityId right then - 1 else 1)"

definition sortedPositions :: "positions_map \<Rightarrow> position_state list" where
  "sortedPositions positions = js_sort comparePositions (map snd positions)"

definition marketValue :: "decimal_lib \<Rightarrow> position_state \<Rightarrow> decimal" where
  "marketValue D position =
     quantizeMoney D (d_times D (shares position) (quantizePrice D (d_of_number D (lastPrice position))))"

definition positionsValue :: "decimal_lib \<Rightarrow> positions_map \<Rightarrow> decimal" where
  "positionsValue D positions =
     quantizeMoney D (foldl (\<lambda>total p. d_plus D total (marketValue D (snd p))) MONEY_ZERO positions)"

definition advanceCursor :: "security_runtime \<Rightarrow> local_date \<Rightarrow> int" where
  "advanceCursor runtime date =
     advance_while (frame_dates (runtime_frame runtime)) date (runtime_cursor runtime)"

definition frameIndexAt :: "security_runtime \<Rightarrow> local_date \<Rightarrow> int" where
  "frameIndexAt runtime date =
     (let dates = frame_dates (runtime_frame runtime); cursor = runtime_cursor runtime
      in if 0 \<le> cursor \<and> cursor < int (length dates) \<and> dates ! nat cursor = date then cursor else - 1)"

definition closeAt :: "security_runtime \<Rightarrow> local_date \<Rightarrow> jsnum option" where
  "closeAt runtime date =
     (let index = frameIndexAt runtime date
      in if index < 0 then None else usable_close (frame_closes (runtime_frame runtime)) index)"

text \<open>\<open>new Map(runtimes.map(...))\<close> keeps the last entry of an id.\<close>

definition runtime_by_id :: "simulation \<Rightarrow> security_id \<Rightarrow> security_runtime option" where
  "runtime_by_id sim securityId =
     map_of (rev (map (\<lambda>r. (setup_securityId (runtime_setup r), r)) (sim_runtimes sim))) securityId"

definition set_add :: "'a \<Rightarrow> 'a list \<Rightarrow> 'a list" where
  "set_add x xs = (if x \<in> set xs then xs else xs @ [x])"

definition recordTrade :: "simulation \<Rightarrow> trade \<Rightarrow> simulation" where
  "recordTrade sim row =
     sim\<lparr>sim_sequence := sim_sequence sim + 1,
         sim_trades := sim_trades sim @ [row\<lparr>trade_sequence := sim_sequence sim + 1\<rparr>]\<rparr>"

subsection \<open>Windows\<close>

fun open_runtimes ::
  "strategy_definition \<Rightarrow> (security_id \<times> context_row) list \<Rightarrow> nat \<Rightarrow> security_setup list
   \<Rightarrow> evaluation_frame list \<Rightarrow> simulation_error + security_runtime list"
where
  "open_runtimes definition rows index (setup # setups) (frame # frames) =
     (if frame_security frame \<noteq> setup_securityId setup then Inl (FrameMismatch index)
      else case withLeadingContextRow frame (map_of rows (setup_securityId setup)) of
          Inl e \<Rightarrow> Inl (FrameFailure e)
        | Inr windowed \<Rightarrow>
            (case buildStrategyGates definition windowed of
               Inl e \<Rightarrow> Inl (StrategyFailure e)
             | Inr gates \<Rightarrow>
                 result_bind (open_runtimes definition rows (index + 1) setups frames) (\<lambda>runtimes.
                   Inr (\<lparr>runtime_setup = setup, runtime_frame = windowed, runtime_gates = gates,
                     runtime_cursor = 0\<rparr> # runtimes))))"
| "open_runtimes definition rows index _ _ = Inr []"

definition openWindow :: "evaluation_frame list \<Rightarrow> simulation \<Rightarrow> simulation_error + simulation" where
  "openWindow frames sim =
     (let setups = in_securities (sim_input sim)
      in if length frames \<noteq> length setups then Inl (FrameCount (length setups) (length frames))
         else result_map (\<lambda>runtimes. sim\<lparr>sim_runtimes := runtimes\<rparr>)
           (open_runtimes (in_definition (sim_input sim)) (sim_contextRows sim) 0 setups frames))"

definition keep_context_row ::
  "(security_id \<times> context_row) list \<Rightarrow> security_runtime \<Rightarrow> (security_id \<times> context_row) list"
where
  "keep_context_row rows runtime =
     (case evaluationFrameContextRow (runtime_frame runtime) of
        None \<Rightarrow> rows
      | Some row \<Rightarrow> js_map_set (setup_securityId (runtime_setup runtime)) row rows)"

definition closeWindow :: "simulation \<Rightarrow> simulation" where
  "closeWindow sim =
     sim\<lparr>sim_contextRows := foldl keep_context_row (sim_contextRows sim) (sim_runtimes sim),
         sim_runtimes := []\<rparr>"

end
