(* ===== verification/SimulationDay.thy ===== *)
theory SimulationDay
  imports Simulation
begin

section \<open>One simulated date\<close>

text \<open>
  \<open>simulateDate\<close> of \<open>simulation.ts\<close>, phase by phase: the monthly contribution, the valuation of the
  holdings, exits, entries, the terminal liquidation, the values a later crossing compares with, and
  the equity point with its checkpoint.
\<close>

subsection \<open>Contribution and valuation\<close>

definition contribution_on :: "simulation \<Rightarrow> local_date \<Rightarrow> jsnum" where
  "contribution_on sim date =
     (let monthly = in_monthlyContribution (sim_input sim)
      in if js_gt monthly (Fin 0) \<and> date \<in> set (sim_contributionDates sim) then monthly else Fin 0)"

definition apply_contribution :: "decimal_lib \<Rightarrow> jsnum \<Rightarrow> simulation \<Rightarrow> simulation" where
  "apply_contribution D contribution sim =
     (if js_gt contribution (Fin 0) then
        (let deposit = quantizeMoney D (d_of_number D contribution)
         in sim\<lparr>sim_cash := quantizeMoney D (d_plus D (sim_cash sim) deposit),
                sim_investedCapital := quantizeMoney D (d_plus D (sim_investedCapital sim) deposit),
                sim_scenarios := fund D (sim_scenarios sim) contribution\<rparr>)
      else sim)"

definition mark_position :: "simulation \<Rightarrow> local_date \<Rightarrow> position_state \<Rightarrow> position_state" where
  "mark_position sim date position =
     (case runtime_by_id sim (pos_securityId position) of
        None \<Rightarrow> position
      | Some runtime \<Rightarrow>
          (case closeAt runtime date of
             None \<Rightarrow> position
           | Some close \<Rightarrow> position\<lparr>lastPrice := close, lastPriceDate := date\<rparr>))"

definition value_holdings :: "local_date \<Rightarrow> simulation \<Rightarrow> simulation" where
  "value_holdings date sim =
     (let sim = sim\<lparr>sim_runtimes :=
            map (\<lambda>r. r\<lparr>runtime_cursor := advanceCursor r date\<rparr>) (sim_runtimes sim)\<rparr>
      in sim\<lparr>sim_positions := map (\<lambda>p. (fst p, mark_position sim date (snd p))) (sim_positions sim)\<rparr>)"

subsection \<open>Booking a sale\<close>

text \<open>What every sale does to the ledger, and the columns every sale row has in common.\<close>

definition book_sale ::
  "decimal_lib \<Rightarrow> decimal \<Rightarrow> decimal \<Rightarrow> position_state \<Rightarrow> simulation
   \<Rightarrow> position_state \<times> sale \<times> simulation"
where
  "book_sale D sold price position sim =
     (let (position', sale) = applySell D sold price (V1_FEE D) position
      in (position', sale,
          sim\<lparr>sim_cash := quantizeMoney D
                (d_plus D (sim_cash sim) (exitCashInflow D (sale_proceeds sale) (V1_FEE D))),
              sim_realizedPnl := quantizeMoney D
                (d_plus D (sim_realizedPnl sim) (sale_realizedPnl sale))\<rparr>))"

definition sale_percent :: "decimal_lib \<Rightarrow> sale \<Rightarrow> jsnum option" where
  "sale_percent D sale =
     (if d_gt D (sale_costRemoved sale) MONEY_ZERO
      then Some (js_mul (js_div (toNumber D (sale_realizedPnl sale)) (toNumber D (sale_costRemoved sale)))
        (Fin 100))
      else None)"

definition sale_row ::
  "decimal_lib \<Rightarrow> local_date \<Rightarrow> trade_action \<Rightarrow> trade_source \<Rightarrow> string option \<Rightarrow> string option
   \<Rightarrow> nat option \<Rightarrow> decimal \<Rightarrow> decimal \<Rightarrow> position_state \<Rightarrow> sale \<Rightarrow> decimal \<Rightarrow> decimal
   \<Rightarrow> money_string option \<Rightarrow> trade"
where
  "sale_row D date action source levelId ruleId levelPercentage sold price position sale cash sharesAfter averageCostAfter =
     \<lparr>trade_sequence = 0, trade_date = date, trade_securityId = pos_securityId position,
      trade_symbol = pos_symbol position, trade_name = pos_name position,
      trade_action = action, trade_source = source, trade_levelId = levelId,
      trade_exitRuleId = ruleId, trade_levelPercentage = levelPercentage,
      trade_shares = sharesString D sold, trade_price = priceString D price,
      trade_amount = moneyString D (sale_proceeds sale), trade_fees = moneyString D (V1_FEE D),
      trade_realizedPnl = Some (moneyString D (sale_realizedPnl sale)),
      trade_realizedPnlPercent = sale_percent D sale,
      trade_cashAfter = moneyString D cash, trade_sharesAfter = sharesString D sharesAfter,
      trade_averageCostAfter = averageCostAfter\<rparr>"

text \<open>A sale of everything: the position leaves the map.\<close>

definition close_position ::
  "decimal_lib \<Rightarrow> local_date \<Rightarrow> trade_action \<Rightarrow> trade_source \<Rightarrow> string option \<Rightarrow> string option
   \<Rightarrow> decimal \<Rightarrow> position_state \<Rightarrow> simulation \<Rightarrow> simulation"
where
  "close_position D date action source levelId ruleId price position sim =
     (let sold = shares position;
          (_, sale, sim') = book_sale D sold price position sim;
          sim' = recordTrade sim' (sale_row D date action source levelId ruleId None sold price position sale
            (sim_cash sim') MONEY_ZERO None)
      in sim'\<lparr>sim_positions := js_map_delete (pos_securityId position) (sim_positions sim')\<rparr>)"

subsection \<open>Exits\<close>

definition strategy_result :: "strategy_error + 'a \<Rightarrow> simulation_error + 'a" where
  "strategy_result r = (case r of Inl e \<Rightarrow> Inl (StrategyFailure e) | Inr x \<Rightarrow> Inr x)"

definition rule_gate :: "strategy_gates \<Rightarrow> nat \<Rightarrow> market_gate option" where
  "rule_gate gates k =
     (case gate_finalExit gates of
        None \<Rightarrow> None
      | Some rules \<Rightarrow> if k < length rules then Some (rules ! k) else None)"

definition exit_rule_results ::
  "decimal_lib \<Rightarrow> strategy_gates \<Rightarrow> strategy_final_exit \<Rightarrow> int \<Rightarrow> position_context
   \<Rightarrow> strategy_error + evaluability list"
where
  "exit_rule_results D gates exit index ctx =
     result_all (\<lambda>(k, rule). result_map (evaluabilityAnd (readGate (rule_gate gates k) index))
         (evaluatePositionSignal D ctx (rule_signal rule)))
       (List.enumerate 0 (exit_rules exit))"

text \<open>\<open>None\<close> when the position stays; otherwise the exit and the id of the first rule that matched.\<close>

definition exit_decision ::
  "decimal_lib \<Rightarrow> strategy_definition \<Rightarrow> strategy_gates \<Rightarrow> int \<Rightarrow> position_context
   \<Rightarrow> simulation_error + (strategy_final_exit \<times> string option) option"
where
  "exit_decision D definition gates index ctx =
     (case finalExit definition of
        None \<Rightarrow> Inr None
      | Some exit \<Rightarrow>
          strategy_result (result_map (\<lambda>results.
            if evaluabilityAny results = TRUE
            then Some (exit, map_option (\<lambda>p. rule_id (fst p))
              (List.find (\<lambda>p. snd p = TRUE) (zip (exit_rules exit) results)))
            else None)
            (exit_rule_results D gates exit index ctx)))"

definition sell_level_shares :: "decimal_lib \<Rightarrow> position_state \<Rightarrow> strategy_level \<Rightarrow> decimal" where
  "sell_level_shares D position level =
     quantizeSharesDown D (d_div D
       (d_times D (shares position) (d_of_number D (Fin (of_nat (percentage level)))))
       (d_of_number D (Fin 100)))"

definition sell_at_level ::
  "decimal_lib \<Rightarrow> local_date \<Rightarrow> strategy_level \<Rightarrow> decimal \<Rightarrow> decimal \<Rightarrow> position_state \<Rightarrow> simulation \<Rightarrow> simulation"
where
  "sell_at_level D date level sold price position sim =
     (let (sold_position, sale, sim') = book_sale D sold price position sim;
          position' = sold_position\<lparr>sellLevelsFired := set_add (level_id level) (sellLevelsFired sold_position)\<rparr>;
          remains = d_gt D (shares position') MONEY_ZERO;
          sim' = recordTrade sim' (sale_row D date SELL STRATEGY (Some (level_id level)) None
            (Some (percentage level)) sold price position' sale (sim_cash sim') (shares position')
            (if remains then Some (priceString D (averageCostValue position')) else None))
      in sim'\<lparr>sim_positions :=
           (if remains then js_map_set (pos_securityId position) position' (sim_positions sim')
            else js_map_delete (pos_securityId position) (sim_positions sim'))\<rparr>)"

fun sell_levels ::
  "decimal_lib \<Rightarrow> local_date \<Rightarrow> strategy_gates \<Rightarrow> int \<Rightarrow> jsnum \<Rightarrow> local_date option \<Rightarrow> security_id
   \<Rightarrow> strategy_level list \<Rightarrow> simulation \<Rightarrow> simulation_error + simulation"
where
  "sell_levels D date gates index close previousDate securityId [] sim = Inr sim"
| "sell_levels D date gates index close previousDate securityId (level # levels) sim =
     (case map_of (sim_positions sim) securityId of
        None \<Rightarrow> Inr sim
      | Some position \<Rightarrow>
          if \<not> d_gt D (shares position) MONEY_ZERO \<or> level_id level \<in> set (sellLevelsFired position)
          then sell_levels D date gates index close previousDate securityId levels sim
          else
            (case evaluatePositionSignal D
                \<lparr>context_close = close, context_position = position, context_previousDate = previousDate\<rparr>
                (level_signal level) of
               Inl e \<Rightarrow> Inl (StrategyFailure e)
             | Inr mine \<Rightarrow>
                 (let result = evaluabilityAnd (readGate (map_of (gate_sell gates) (level_id level)) index) mine;
                      sold = sell_level_shares D position level
                  in sell_levels D date gates index close previousDate securityId levels
                       (if result = TRUE \<and> d_gt D sold MONEY_ZERO
                        then sell_at_level D date level sold (quantizePrice D (d_of_number D close)) position sim
                        else sim))))"

definition exit_position ::
  "decimal_lib \<Rightarrow> local_date \<Rightarrow> security_id \<Rightarrow> simulation \<Rightarrow> simulation_error + simulation"
where
  "exit_position D date securityId sim =
     (case (map_of (sim_positions sim) securityId, runtime_by_id sim securityId) of
        (Some position, Some runtime) \<Rightarrow>
          (let index = frameIndexAt runtime date; frame = runtime_frame runtime
           in if index < 0 then Inr sim
              else case usable_close (frame_closes frame) index of
                  None \<Rightarrow> Inr sim
                | Some close \<Rightarrow>
                    (let previousDate = (if 0 < index then Some (frame_dates frame ! nat (index - 1)) else None);
                         definition = in_definition (sim_input sim)
                     in result_bind (exit_decision D definition (runtime_gates runtime) index
                          \<lparr>context_close = close, context_position = position,
                           context_previousDate = previousDate\<rparr>) (\<lambda>decision.
                        case decision of
                          Some (exit, ruleId) \<Rightarrow>
                            Inr (close_position D date FINAL_EXIT STRATEGY (Some (exit_id exit)) ruleId
                              (quantizePrice D (d_of_number D close)) position sim)
                        | None \<Rightarrow>
                            sell_levels D date (runtime_gates runtime) index close previousDate securityId
                              (sellLevels definition) sim)))
      | _ \<Rightarrow> Inr sim)"

definition exits :: "decimal_lib \<Rightarrow> local_date \<Rightarrow> simulation \<Rightarrow> simulation_error + simulation" where
  "exits D date sim =
     result_fold (exit_position D date) (map pos_securityId (sortedPositions (sim_positions sim))) sim"

subsection \<open>Entries\<close>

record buy_candidate =
  candidate_runtime :: security_runtime
  candidate_frameIndex :: int
  candidate_levelId :: string
  candidate_percentage :: nat
  candidate_isTopUp :: bool
  candidate_isContributionTopUp :: bool

text \<open>The best level so far: its id, its percentage and whether it had settled.\<close>

definition better_level ::
  "strategy_gates \<Rightarrow> int \<Rightarrow> position_state option \<Rightarrow> bool \<Rightarrow> (string \<times> nat \<times> bool) option
   \<Rightarrow> strategy_level \<Rightarrow> (string \<times> nat \<times> bool) option"
where
  "better_level gates index position depositedToday best level =
     (let settled = (case position of None \<Rightarrow> False | Some p \<Rightarrow> level_id level \<in> set (buyLevelsSettled p))
      in if settled \<and> \<not> depositedToday then best
         else if readGate (map_of (gate_buy gates) (level_id level)) index \<noteq> TRUE then best
         else case best of
             None \<Rightarrow> Some (level_id level, percentage level, settled)
           | Some (_, most, _) \<Rightarrow>
               if percentage level > most then Some (level_id level, percentage level, settled) else best)"

definition candidate_for ::
  "simulation \<Rightarrow> local_date \<Rightarrow> bool \<Rightarrow> security_id list \<Rightarrow> security_runtime \<Rightarrow> buy_candidate option"
where
  "candidate_for sim date depositedToday openAtDayStart runtime =
     (let index = frameIndexAt runtime date;
          setup = runtime_setup runtime;
          position = map_of (sim_positions sim) (setup_securityId setup)
      in if index < 0 \<or> \<not> isBuyWindowEligible (setup_buyWindows setup) date then None
         else if position = None \<and> setup_securityId setup \<in> set openAtDayStart then None
         else map_option (\<lambda>(levelId, most, settled).
             \<lparr>candidate_runtime = runtime, candidate_frameIndex = index, candidate_levelId = levelId,
              candidate_percentage = most, candidate_isTopUp = position \<noteq> None,
              candidate_isContributionTopUp = settled\<rparr>)
           (foldl (better_level (runtime_gates runtime) index position depositedToday) None
             (buyLevels (in_definition (sim_input sim)))))"

definition compareCandidates :: "buy_candidate \<Rightarrow> buy_candidate \<Rightarrow> int" where
  "compareCandidates left right =
     (let ls = runtime_setup (candidate_runtime left); rs = runtime_setup (candidate_runtime right)
      in if candidate_isTopUp left \<noteq> candidate_isTopUp right
         then (if candidate_isTopUp left then - 1 else 1)
         else if candidate_percentage left \<noteq> candidate_percentage right
         then int (candidate_percentage right) - int (candidate_percentage left)
         else if setup_symbol ls \<noteq> setup_symbol rs
         then (if setup_symbol ls < setup_symbol rs then - 1 else 1)
         else if setup_securityId ls < setup_securityId rs then - 1 else 1)"

text \<open>The defensive loop; \<open>None\<close> when it never returns.\<close>

partial_function (option) retreat ::
  "decimal_lib \<Rightarrow> decimal \<Rightarrow> decimal \<Rightarrow> decimal \<Rightarrow> decimal \<Rightarrow> (decimal \<times> decimal) option"
where
  "retreat D available price bought amount =
     (if d_gt D amount available \<and> d_gt D bought MONEY_ZERO
      then retreat D available price (d_minus D bought SHARES_ULP)
        (quantizeMoney D (d_times D (d_minus D bought SHARES_ULP) price))
      else Some (bought, amount))"

lemmas [code] = retreat.simps

definition buy_spend ::
  "decimal_lib \<Rightarrow> jsnum \<Rightarrow> nat \<Rightarrow> position_state option \<Rightarrow> jsnum \<Rightarrow> decimal \<Rightarrow> decimal"
where
  "buy_spend D fullPositionBudget most position close available =
     (let target = js_div (js_mul fullPositionBudget (Fin (of_nat most))) (Fin 100);
          currentValue = (case position of None \<Rightarrow> Fin 0 | Some p \<Rightarrow> js_mul (toNumber D (shares p)) close);
          shortfall = js_max (js_sub target currentValue) (Fin 0);
          spend = quantizeMoney D (d_of_number D shortfall)
      in if d_gt D spend available then available else spend)"

text \<open>The shares and the amount of one purchase.\<close>

definition buy_order ::
  "decimal_lib \<Rightarrow> decimal \<Rightarrow> decimal \<Rightarrow> decimal \<Rightarrow> (decimal \<times> decimal) option"
where
  "buy_order D available spend price =
     (let bought = quantizeSharesDown D (d_div D spend price)
      in retreat D available price bought (quantizeMoney D (d_times D bought price)))"

definition open_position :: "simulation \<Rightarrow> local_date \<Rightarrow> security_setup \<Rightarrow> jsnum \<Rightarrow> simulation \<times> position_state" where
  "open_position sim date setup close =
     (let id = setup_securityId setup;
          epoch = (case map_of (sim_epochs sim) id of None \<Rightarrow> 0 | Some n \<Rightarrow> n) + 1
      in (sim\<lparr>sim_epochs := js_map_set id epoch (sim_epochs sim)\<rparr>,
          \<lparr>pos_securityId = id, pos_symbol = setup_symbol setup, pos_name = setup_name setup,
           pos_epoch = epoch, pos_openedDate = date, shares = MONEY_ZERO, averageCostValue = MONEY_ZERO,
           costTotalValue = MONEY_ZERO, buyLevelsSettled = [], sellLevelsFired = [],
           previousSignedReturnPercent = None, previousValueDate = None,
           lastPrice = close, lastPriceDate = date, pos_realizedPnl = MONEY_ZERO\<rparr>))"

definition settle_levels :: "strategy_level list \<Rightarrow> nat \<Rightarrow> position_state \<Rightarrow> position_state" where
  "settle_levels levels most position =
     position\<lparr>buyLevelsSettled :=
       foldl (\<lambda>settled level. if percentage level \<le> most then set_add (level_id level) settled else settled)
         (buyLevelsSettled position) levels\<rparr>"

definition fill_buy ::
  "decimal_lib \<Rightarrow> local_date \<Rightarrow> buy_candidate \<Rightarrow> jsnum \<Rightarrow> decimal \<Rightarrow> decimal \<Rightarrow> decimal \<Rightarrow> position_state
   \<Rightarrow> simulation \<Rightarrow> simulation"
where
  "fill_buy D date candidate close price bought amount position sim =
     (let position' = (applyBuy D bought amount (V1_FEE D) position)\<lparr>lastPrice := close, lastPriceDate := date\<rparr>;
          cash = quantizeMoney D (d_minus D (sim_cash sim) (buyCashOutflow D amount (V1_FEE D)))
      in recordTrade
           (sim\<lparr>sim_cash := cash,
                sim_positions := js_map_set (pos_securityId position) position' (sim_positions sim)\<rparr>)
           \<lparr>trade_sequence = 0, trade_date = date, trade_securityId = pos_securityId position,
            trade_symbol = pos_symbol position, trade_name = pos_name position,
            trade_action = BUY, trade_source = STRATEGY,
            trade_levelId = Some (candidate_levelId candidate), trade_exitRuleId = None,
            trade_levelPercentage = Some (candidate_percentage candidate),
            trade_shares = sharesString D bought, trade_price = priceString D price,
            trade_amount = moneyString D amount, trade_fees = moneyString D (V1_FEE D),
            trade_realizedPnl = None, trade_realizedPnlPercent = None,
            trade_cashAfter = moneyString D cash, trade_sharesAfter = sharesString D (shares position'),
            trade_averageCostAfter = Some (priceString D (averageCostValue position'))\<rparr>)"

definition buy_candidate_step ::
  "decimal_lib \<Rightarrow> local_date \<Rightarrow> jsnum \<Rightarrow> buy_candidate \<Rightarrow> simulation \<Rightarrow> simulation_error + simulation"
where
  "buy_candidate_step D date fullPositionBudget candidate sim =
     (let runtime = candidate_runtime candidate; setup = runtime_setup runtime;
          known = map_of (sim_positions sim) (setup_securityId setup)
      in case usable_close (frame_closes (runtime_frame runtime)) (candidate_frameIndex candidate) of
           None \<Rightarrow> Inr sim
         | Some close \<Rightarrow>
             if candidate_isContributionTopUp candidate \<and> known = None then Inr sim
             else if known = None
                 \<and> js_ge (Fin (of_nat (length (sim_positions sim)))) (in_maximumPositions (sim_input sim))
             then Inr sim
             else
               (let available = spendableAfterFees D (sim_cash sim) (V1_FEE D);
                    spend = buy_spend D fullPositionBudget (candidate_percentage candidate) known close available;
                    price = quantizePrice D (d_of_number D close)
                in case buy_order D available spend price of
                     None \<Rightarrow> Inl NeverReturns
                   | Some (bought, amount) \<Rightarrow>
                       (let buyable = d_gt D bought MONEY_ZERO \<and> d_gt D amount MONEY_ZERO
                        in if known = None \<and> \<not> buyable then Inr sim
                           else
                             (let (sim', position) = (case known of
                                    Some p \<Rightarrow> (sim, p)
                                  | None \<Rightarrow> open_position sim date setup close);
                                  position = settle_levels (buyLevels (in_definition (sim_input sim)))
                                    (candidate_percentage candidate) position
                              in Inr (if buyable
                                  then fill_buy D date candidate close price bought amount position sim'
                                  else sim'\<lparr>sim_positions :=
                                    js_map_set (setup_securityId setup) position (sim_positions sim')\<rparr>)))))"

definition entries ::
  "decimal_lib \<Rightarrow> local_date \<Rightarrow> bool \<Rightarrow> security_id list \<Rightarrow> simulation \<Rightarrow> simulation_error + simulation"
where
  "entries D date depositedToday openAtDayStart sim =
     (let candidates = List.map_filter (candidate_for sim date depositedToday openAtDayStart) (sim_runtimes sim);
          portfolioValue = js_add (toNumber D (sim_cash sim)) (toNumber D (positionsValue D (sim_positions sim)));
          fullPositionBudget = js_mul portfolioValue (sim_fullPositionFraction sim)
      in result_fold (buy_candidate_step D date fullPositionBudget) (js_sort compareCandidates candidates) sim)"

subsection \<open>Terminal liquidation\<close>

definition liquidate_position :: "decimal_lib \<Rightarrow> local_date \<Rightarrow> simulation \<Rightarrow> security_id \<Rightarrow> simulation" where
  "liquidate_position D date sim securityId =
     (case map_of (sim_positions sim) securityId of
        None \<Rightarrow> sim
      | Some position \<Rightarrow>
          if \<not> d_gt D (shares position) MONEY_ZERO
          then sim\<lparr>sim_positions := js_map_delete securityId (sim_positions sim)\<rparr>
          else close_position D date SELL END_OF_BACKTEST None None
            (quantizePrice D (d_of_number D (lastPrice position))) position sim)"

definition liquidateRemainingPositions :: "decimal_lib \<Rightarrow> local_date \<Rightarrow> simulation \<Rightarrow> simulation" where
  "liquidateRemainingPositions D date sim =
     foldl (liquidate_position D date) sim (map pos_securityId (sortedPositions (sim_positions sim)))"

subsection \<open>The values a crossing compares with\<close>

definition remember_position ::
  "decimal_lib \<Rightarrow> simulation \<Rightarrow> local_date \<Rightarrow> position_state \<Rightarrow> position_state"
where
  "remember_position D sim date position =
     (case runtime_by_id sim (pos_securityId position) of
        None \<Rightarrow> position
      | Some runtime \<Rightarrow>
          (case closeAt runtime date of
             None \<Rightarrow> position
           | Some close \<Rightarrow> position
               \<lparr>previousSignedReturnPercent := Some (gainPercent close (averageCost D position)),
                previousValueDate := Some date\<rparr>))"

definition remember_returns :: "decimal_lib \<Rightarrow> local_date \<Rightarrow> simulation \<Rightarrow> simulation" where
  "remember_returns D date sim =
     sim\<lparr>sim_positions := map (\<lambda>p. (fst p, remember_position D sim date (snd p))) (sim_positions sim)\<rparr>"

end
