(* ===== verification/SimulationRun.thy ===== *)
theory SimulationRun
  imports SimulationDay
begin

section \<open>Recording a day, consuming windows and finishing a run\<close>

text \<open>
  The end of \<open>simulateDate\<close>, the checkpoints, \<open>consumeWindow\<close>, \<open>consumeWholePeriod\<close>, \<open>finish\<close> and
  \<open>simulateBacktest\<close>. \<open>Math.pow\<close> is the argument \<open>js_pow\<close> of what computes a growth rate.
\<close>

subsection \<open>Checkpoints\<close>

definition checkpoint_holding_of :: "decimal_lib \<Rightarrow> jsnum \<Rightarrow> position_state \<Rightarrow> checkpoint_holding" where
  "checkpoint_holding_of D totalValue position =
     (let market = toNumber D (marketValue D position); cost = toNumber D (costTotal position)
      in \<lparr>holding_securityId = pos_securityId position, holding_symbol = pos_symbol position,
          holding_name = pos_name position, holding_shares = toNumber D (shares position),
          holding_averageCost = averageCost D position, holding_lastPrice = lastPrice position,
          holding_lastPriceDate = lastPriceDate position, holding_marketValue = market,
          holding_unrealizedPnlPercent =
            (if js_gt cost (Fin 0) then js_mul (js_div (js_sub market cost) cost) (Fin 100) else Fin 0),
          holding_allocationPercent =
            (if js_gt totalValue (Fin 0) then js_mul (js_div market totalValue) (Fin 100) else Fin 0)\<rparr>)"

text \<open>\<open>slice(-n)\<close>; \<open>slice(-0)\<close> is the whole array.\<close>

definition last_entries :: "nat \<Rightarrow> 'a list \<Rightarrow> 'a list" where
  "last_entries n xs = (if n = 0 then xs else drop (length xs - n) xs)"

definition buildCheckpoint ::
  "decimal_lib \<Rightarrow> (jsnum \<Rightarrow> jsnum \<Rightarrow> jsnum) \<Rightarrow> simulation_options \<Rightarrow> simulation \<Rightarrow> local_date \<Rightarrow> jsnum
   \<Rightarrow> jsnum \<Rightarrow> jsnum option \<Rightarrow> jsnum option \<Rightarrow> jsnum \<Rightarrow> string option \<Rightarrow> checkpoint"
where
  "buildCheckpoint D js_pow options sim date holdingsValue totalValue benchmarkIndex benchmarkValue
      cashBaselineValue milestone =
     (let portfolioReturnPercent = indexToPercent (sim_returnIndex sim);
          benchmarkReturnPercent = map_option indexToPercent benchmarkIndex;
          holdings = map (checkpoint_holding_of D totalValue) (sortedPositions (sim_positions sim))
      in \<lparr>check_simulatedThrough = date, check_milestone = milestone,
          check_completedDays = sim_completedDays sim, check_totalDays = length (sim_calendar sim),
          check_cash = toNumber D (sim_cash sim), check_positionsValue = holdingsValue,
          check_totalValue = totalValue, check_investedCapital = toNumber D (sim_investedCapital sim),
          check_netProfit = toNumber D (quantizeMoney D
            (d_minus D (quantizeMoney D (d_of_number D totalValue)) (sim_investedCapital sim))),
          check_portfolioReturnPercent = portfolioReturnPercent,
          check_benchmarkReturnPercent = benchmarkReturnPercent,
          check_alphaPercent = alphaPercent portfolioReturnPercent benchmarkReturnPercent,
          check_portfolioCagrPercent =
            cagrPercent js_pow (sim_returnIndex sim) (hd (sim_calendar sim)) date,
          check_maxDrawdownPercent = maxDrawdownPercent (sim_drawdown sim),
          check_benchmarkValue = benchmarkValue, check_cashBaselineValue = cashBaselineValue,
          check_tradeCount = length (sim_trades sim), check_openPositions = length holdings,
          check_curve = downsample (sim_curve sim) (maxCurvePoints options),
          check_holdings = holdings,
          check_recentTrades = rev (last_entries (recentTradeCount options) (sim_trades sim))\<rparr>)"

definition checkpoint_due :: "simulation_options \<Rightarrow> simulation \<Rightarrow> local_date \<Rightarrow> bool \<times> bool" where
  "checkpoint_due options sim date =
     (let n = sim_completedDays sim;
          isLastDay = (length (sim_calendar sim) \<le> n);
          isYearBoundary = (isLastDay \<or> take 4 (sim_calendar sim ! n) \<noteq> take 4 date);
          isCadence = (n = 1 \<or> (checkpointEveryDays options \<noteq> 0 \<and> int n mod checkpointEveryDays options = 0))
      in (onCheckpoint options \<and> \<not> isLastDay \<and> (isCadence \<or> isYearBoundary), isYearBoundary))"

subsection \<open>The equity point\<close>

record day_marks =
  mark_positionsValue :: jsnum
  mark_totalValue :: jsnum
  mark_benchmarkIndex :: "jsnum option"
  mark_benchmarkValue :: "jsnum option"
  mark_cashBaseline :: jsnum

definition record_equity ::
  "decimal_lib \<Rightarrow> local_date \<Rightarrow> jsnum \<Rightarrow> simulation \<Rightarrow> simulation \<times> day_marks"
where
  "record_equity D date contribution sim =
     (let holdingsValue = positionsValue D (sim_positions sim);
          totalValueExact = quantizeMoney D (d_plus D (sim_cash sim) holdingsValue);
          totalValue = toNumber D totalValueExact;
          returnIndex = chainReturnIndex (sim_returnIndex sim) (sim_previousTotalValue sim) contribution totalValue;
          (cursor, benchmarkClose) = benchmark_closeAt (sim_benchmark sim) date;
          (cursor, benchmarkIndex) = indexFor cursor benchmarkClose;
          (scenarios, benchmarkValue) = markBenchmark D (sim_scenarios sim) benchmarkClose;
          cashBaselineValue = scenario_baseline scenarios
      in (sim
            \<lparr>sim_returnIndex := returnIndex, sim_previousTotalValue := totalValue,
             sim_drawdown := observe (sim_drawdown sim) returnIndex,
             sim_benchmark := cursor,
             sim_benchmarkDrawdown := (case benchmarkIndex of
                 None \<Rightarrow> sim_benchmarkDrawdown sim
               | Some index \<Rightarrow> observe (sim_benchmarkDrawdown sim) index),
             sim_scenarios := scenarios,
             sim_equity := sim_equity sim @
               [\<lparr>equity_date = date, equity_cash = moneyString D (sim_cash sim),
                 equity_positionsValue = moneyString D holdingsValue,
                 equity_totalValue = moneyString D totalValueExact,
                 equity_investedCapital = moneyString D (sim_investedCapital sim),
                 equity_returnIndex = returnIndex, equity_benchmarkIndex = benchmarkIndex,
                 equity_benchmarkValue = map_option (moneyString D) benchmarkValue,
                 equity_cashBaselineValue = moneyString D cashBaselineValue,
                 equity_openPositions = length (sim_positions sim)\<rparr>],
             sim_curve := sim_curve sim @
               [\<lparr>curve_date = date, curve_portfolioReturnPercent = indexToPercent returnIndex,
                 curve_benchmarkReturnPercent = map_option indexToPercent benchmarkIndex,
                 curve_strategyValue = totalValue,
                 curve_benchmarkValue = map_option (toNumber D) benchmarkValue,
                 curve_cashBaselineValue = toNumber D cashBaselineValue\<rparr>],
             sim_completedDays := sim_completedDays sim + 1\<rparr>,
          \<lparr>mark_positionsValue = toNumber D holdingsValue, mark_totalValue = totalValue,
           mark_benchmarkIndex = benchmarkIndex, mark_benchmarkValue = map_option (toNumber D) benchmarkValue,
           mark_cashBaseline = toNumber D cashBaselineValue\<rparr>))"

definition deliver_checkpoint ::
  "decimal_lib \<Rightarrow> (jsnum \<Rightarrow> jsnum \<Rightarrow> jsnum) \<Rightarrow> simulation_options \<Rightarrow> local_date \<Rightarrow> day_marks \<Rightarrow> simulation \<Rightarrow> simulation"
where
  "deliver_checkpoint D js_pow options date marks sim =
     (let (due, isYearBoundary) = checkpoint_due options sim date
      in if due
         then sim\<lparr>sim_checkpoints := sim_checkpoints sim @
           [buildCheckpoint D js_pow options sim date (mark_positionsValue marks) (mark_totalValue marks)
             (mark_benchmarkIndex marks) (mark_benchmarkValue marks) (mark_cashBaseline marks)
             (if isYearBoundary then Some (take 4 date) else None)]\<rparr>
         else sim)"

definition record_day ::
  "decimal_lib \<Rightarrow> (jsnum \<Rightarrow> jsnum \<Rightarrow> jsnum) \<Rightarrow> simulation_options \<Rightarrow> local_date \<Rightarrow> jsnum \<Rightarrow> simulation \<Rightarrow> simulation"
where
  "record_day D js_pow options date contribution sim =
     (let (recorded, marks) = record_equity D date contribution sim
      in deliver_checkpoint D js_pow options date marks recorded)"

subsection \<open>The day, the windows and the result\<close>

definition simulateDate ::
  "decimal_lib \<Rightarrow> (jsnum \<Rightarrow> jsnum \<Rightarrow> jsnum) \<Rightarrow> simulation_options \<Rightarrow> local_date \<Rightarrow> simulation
   \<Rightarrow> simulation_error + simulation"
where
  "simulateDate D js_pow options date sim =
     (if \<not> (sim_completedDays sim < length (sim_calendar sim)
            \<and> sim_calendar sim ! sim_completedDays sim = date)
      then Inl (DateOutOfOrder date (sim_completedDays sim))
      else
        (let contribution = contribution_on sim date;
             valued = value_holdings date (apply_contribution D contribution sim);
             openAtDayStart = js_keys (sim_positions valued)
         in result_bind (exits D date valued) (\<lambda>exited.
              result_bind (entries D date (js_gt contribution (Fin 0)) openAtDayStart exited) (\<lambda>entered.
                let settled = (if sim_completedDays entered = length (sim_calendar entered) - 1
                      then liquidateRemainingPositions D date entered else entered)
                in Inr (record_day D js_pow options date contribution (remember_returns D date settled))))))"

definition simulate_dates ::
  "decimal_lib \<Rightarrow> (jsnum \<Rightarrow> jsnum \<Rightarrow> jsnum) \<Rightarrow> simulation_options \<Rightarrow> evaluation_frame list \<Rightarrow> local_date list
   \<Rightarrow> simulation \<Rightarrow> simulation_error + simulation"
where
  "simulate_dates D js_pow options frames dates sim =
     result_bind (openWindow frames sim) (\<lambda>opened.
       result_map closeWindow (result_fold (simulateDate D js_pow options) dates opened))"

definition consumeWindow ::
  "decimal_lib \<Rightarrow> (jsnum \<Rightarrow> jsnum \<Rightarrow> jsnum) \<Rightarrow> simulation_options \<Rightarrow> execution_window \<Rightarrow> evaluation_frame list
   \<Rightarrow> simulation \<Rightarrow> simulation_error + simulation"
where
  "consumeWindow D js_pow options window frames sim =
     (let next_index = sim_nextWindowIndex sim
      in if \<not> next_index < length (sim_windows sim)
           \<or> window_index (sim_windows sim ! next_index) \<noteq> window_index window
         then Inl WindowOutOfOrder
         else simulate_dates D js_pow options frames (window_dates window)
           (sim\<lparr>sim_nextWindowIndex := next_index + 1\<rparr>))"

definition consumeWholePeriod ::
  "decimal_lib \<Rightarrow> (jsnum \<Rightarrow> jsnum \<Rightarrow> jsnum) \<Rightarrow> simulation_options \<Rightarrow> evaluation_frame list
   \<Rightarrow> simulation \<Rightarrow> simulation_error + simulation"
where
  "consumeWholePeriod D js_pow options frames sim =
     (if sim_nextWindowIndex sim \<noteq> 0 then Inl WholePeriodStarted
      else simulate_dates D js_pow options frames (sim_calendar sim)
        (sim\<lparr>sim_nextWindowIndex := length (sim_windows sim)\<rparr>))"

record open_position_row =
  row_securityId :: security_id
  row_symbol :: string
  row_name :: string
  row_openedDate :: local_date
  row_shares :: money_string
  row_averageCost :: money_string
  row_lastPrice :: money_string
  row_lastPriceDate :: local_date
  row_marketValue :: money_string
  row_unrealizedPnl :: money_string
  row_unrealizedPnlPercent :: jsnum
  row_allocationPercent :: jsnum

definition final_position_step ::
  "decimal_lib \<Rightarrow> decimal \<Rightarrow> open_position_row list \<times> decimal \<Rightarrow> position_state \<Rightarrow> open_position_row list \<times> decimal"
where
  "final_position_step D totalValue acc position =
     (let (rows, unrealized) = acc;
          price = quantizePrice D (d_of_number D (lastPrice position));
          marketExact = quantizeMoney D (d_times D (shares position) price);
          costExact = costTotal position;
          unrealizedExact = quantizeMoney D (d_minus D marketExact costExact);
          market = toNumber D marketExact;
          cost = toNumber D costExact
      in (rows @
           [\<lparr>row_securityId = pos_securityId position, row_symbol = pos_symbol position,
             row_name = pos_name position, row_openedDate = pos_openedDate position,
             row_shares = sharesString D (shares position),
             row_averageCost = priceString D (averageCostValue position),
             row_lastPrice = priceString D price, row_lastPriceDate = lastPriceDate position,
             row_marketValue = moneyString D marketExact, row_unrealizedPnl = moneyString D unrealizedExact,
             row_unrealizedPnlPercent =
               (if js_gt cost (Fin 0) then js_mul (js_div (js_sub market cost) cost) (Fin 100) else Fin 0),
             row_allocationPercent =
               (if d_gt D totalValue MONEY_ZERO
                then js_mul (js_div market (toNumber D totalValue)) (Fin 100) else Fin 0)\<rparr>],
          quantizeMoney D (d_plus D unrealized unrealizedExact)))"

definition finalPositions :: "decimal_lib \<Rightarrow> positions_map \<Rightarrow> decimal \<Rightarrow> open_position_row list \<times> decimal" where
  "finalPositions D positions totalValue =
     foldl (final_position_step D totalValue) ([], MONEY_ZERO) (sortedPositions positions)"

record backtest_summary =
  summary_firstSimulatedDate :: local_date
  summary_lastSimulatedDate :: local_date
  summary_tradingDays :: nat
  summary_investedCapital :: money_string
  summary_finalCash :: money_string
  summary_finalPositionsValue :: money_string
  summary_finalValue :: money_string
  summary_netProfit :: money_string
  summary_portfolioReturnPercent :: jsnum
  summary_benchmarkReturnPercent :: "jsnum option"
  summary_alphaPercent :: "jsnum option"
  summary_portfolioCagrPercent :: "jsnum option"
  summary_maxDrawdownPercent :: jsnum
  summary_benchmarkMaxDrawdownPercent :: "jsnum option"
  summary_realizedPnl :: money_string
  summary_unrealizedPnl :: money_string
  summary_totalTrades :: nat
  summary_buyTrades :: nat
  summary_sellTrades :: nat
  summary_finalExitTrades :: nat
  summary_winningTrades :: nat
  summary_losingTrades :: nat
  summary_openPositions :: nat

record backtest_result =
  result_trades :: "trade list"
  result_equity :: "equity_point list"
  result_positions :: "open_position_row list"
  result_summary :: backtest_summary

definition count_trades :: "(trade \<Rightarrow> bool) \<Rightarrow> simulation \<Rightarrow> nat" where
  "count_trades P sim = length (filter P (sim_trades sim))"

text \<open>
  A string column is read back by the \<open>Decimal\<close> constructor, which takes the value it prints. The
  equity list of a run that consumed every window has an entry per calendar date.
\<close>

definition finish ::
  "decimal_lib \<Rightarrow> (jsnum \<Rightarrow> jsnum \<Rightarrow> jsnum) \<Rightarrow> simulation \<Rightarrow> simulation_error + backtest_result"
where
  "finish D js_pow sim =
     (if sim_nextWindowIndex sim \<noteq> length (sim_windows sim)
      then Inl (WindowsRemain (sim_nextWindowIndex sim) (length (sim_windows sim)))
      else
        (let lastEquity = last (sim_equity sim);
             firstDate = hd (sim_calendar sim);
             lastDate = last (sim_calendar sim);
             finalValue = quantizeMoney D (equity_totalValue lastEquity);
             (openPositions, unrealizedPnl) = finalPositions D (sim_positions sim) finalValue;
             portfolioReturnPercent = indexToPercent (equity_returnIndex lastEquity);
             benchmarkReturnPercent = map_option indexToPercent (equity_benchmarkIndex lastEquity)
         in Inr
           \<lparr>result_trades = sim_trades sim, result_equity = sim_equity sim, result_positions = openPositions,
            result_summary =
              \<lparr>summary_firstSimulatedDate = firstDate, summary_lastSimulatedDate = lastDate,
               summary_tradingDays = length (sim_calendar sim),
               summary_investedCapital = moneyString D (sim_investedCapital sim),
               summary_finalCash = equity_cash lastEquity,
               summary_finalPositionsValue = equity_positionsValue lastEquity,
               summary_finalValue = equity_totalValue lastEquity,
               summary_netProfit = moneyString D (quantizeMoney D
                 (d_minus D finalValue (sim_investedCapital sim))),
               summary_portfolioReturnPercent = portfolioReturnPercent,
               summary_benchmarkReturnPercent = benchmarkReturnPercent,
               summary_alphaPercent = alphaPercent portfolioReturnPercent benchmarkReturnPercent,
               summary_portfolioCagrPercent =
                 cagrPercent js_pow (equity_returnIndex lastEquity) firstDate lastDate,
               summary_maxDrawdownPercent = maxDrawdownPercent (sim_drawdown sim),
               summary_benchmarkMaxDrawdownPercent =
                 (case in_benchmark (sim_input sim) of
                    None \<Rightarrow> None | Some _ \<Rightarrow> Some (maxDrawdownPercent (sim_benchmarkDrawdown sim))),
               summary_realizedPnl = moneyString D (sim_realizedPnl sim),
               summary_unrealizedPnl = moneyString D unrealizedPnl,
               summary_totalTrades = length (sim_trades sim),
               summary_buyTrades = count_trades (\<lambda>t. trade_action t = BUY) sim,
               summary_sellTrades = count_trades (\<lambda>t. trade_action t = SELL) sim,
               summary_finalExitTrades = count_trades (\<lambda>t. trade_action t = FINAL_EXIT) sim,
               summary_winningTrades = count_trades (\<lambda>t.
                 case trade_realizedPnl t of None \<Rightarrow> False | Some p \<Rightarrow> d_gt D (quantizeMoney D p) MONEY_ZERO) sim,
               summary_losingTrades = count_trades (\<lambda>t.
                 case trade_realizedPnl t of None \<Rightarrow> False | Some p \<Rightarrow> d_lt D (quantizeMoney D p) MONEY_ZERO) sim,
               summary_openPositions = length openPositions\<rparr>\<rparr>))"

record security_input =
  security_frame :: evaluation_frame
  security_buyWindows :: buy_window_configuration

definition securitySetup :: "security_input \<Rightarrow> security_setup" where
  "securitySetup security =
     \<lparr>setup_securityId = frame_security (security_frame security),
      setup_symbol = frame_symbol (security_frame security),
      setup_name = frame_name (security_frame security),
      setup_buyWindows = security_buyWindows security\<rparr>"

text \<open>The securities replace those of the input record, as the spread of the source does.\<close>

definition simulateBacktest ::
  "decimal_lib \<Rightarrow> (jsnum \<Rightarrow> jsnum \<Rightarrow> jsnum) \<Rightarrow> simulation_options \<Rightarrow> simulation_input \<Rightarrow> security_input list
   \<Rightarrow> simulation_error + backtest_result"
where
  "simulateBacktest D js_pow options input securities =
     result_bind (new_BacktestSimulation D (input\<lparr>in_securities := map securitySetup securities\<rparr>)) (\<lambda>sim.
       result_bind (consumeWholePeriod D js_pow options (map security_frame securities) sim)
         (finish D js_pow))"

end
