(* ===== verification/SimulationLedger.thy ===== *)
theory SimulationLedger
  imports SimulationRun
begin

section \<open>What a simulated date does to the portfolio\<close>

text \<open>
  The promise of the simulation as a transition system. \<open>ledger_step\<close> lists what may happen to a
  portfolio on a date: a position is sold completely, reduced by a sell level, opened or topped up
  within the available cash, or its buy levels settle without a purchase. The phases of
  \<open>simulateDate\<close> are sequences of these steps (\<open>entries_reach\<close>, \<open>exits_reach\<close>, \<open>liquidation_reach\<close>), so
  what every step keeps holds after every date.
\<close>

subsection \<open>Positions and books\<close>

definition position_books :: "position_state \<Rightarrow> bool" where
  "position_books p \<longleftrightarrow>
     (\<exists>s. shares p = Fin s \<and> 0 \<le> s) \<and> (\<exists>c. costTotalValue p = Fin c) \<and>
     (\<exists>a. averageCostValue p = Fin a) \<and> (\<exists>r. pos_realizedPnl p = Fin r) \<and>
     (\<exists>x. lastPrice p = Fin x \<and> 0 < x)"

definition position_ok :: "position_state \<Rightarrow> bool" where
  "position_ok p \<longleftrightarrow> position_books p \<and> js_gt (shares p) (Fin 0)"

text \<open>What holds of a portfolio at any moment of a date.\<close>

definition portfolio_ok :: "simulation \<Rightarrow> bool" where
  "portfolio_ok sim \<longleftrightarrow>
     assertInput (sim_input sim) = None \<and> money (sim_cash sim) \<and> money (sim_investedCapital sim) \<and>
     (\<exists>r. sim_realizedPnl sim = Fin r) \<and>
     js_map_ok (sim_positions sim) \<and>
     (\<forall>(k, p) \<in> set (sim_positions sim). pos_securityId p = k \<and> position_ok p \<and>
        map_of (sim_epochs sim) k = Some (pos_epoch p)) \<and>
     js_le (Fin (of_nat (length (sim_positions sim)))) (in_maximumPositions (sim_input sim)) \<and>
     sim_sequence sim = length (sim_trades sim) \<and>
     map trade_sequence (sim_trades sim) = [1..<Suc (length (sim_trades sim))]"

subsection \<open>The steps\<close>

inductive ledger_step :: "decimal_lib \<Rightarrow> local_date \<Rightarrow> simulation \<Rightarrow> simulation \<Rightarrow> bool"
  for D :: decimal_lib and date :: local_date
where
  sold_out:
    "map_of (sim_positions sim) k = Some p \<Longrightarrow> action \<noteq> BUY \<Longrightarrow> 0 \<le> x \<Longrightarrow>
     ledger_step D date sim (close_position D date action source levelId ruleId (Fin x) p sim)"
| reduced:
    "map_of (sim_positions sim) k = Some p \<Longrightarrow> sold = Fin s \<Longrightarrow> 0 < s \<Longrightarrow> 0 \<le> x \<Longrightarrow>
     ledger_step D date sim (sell_at_level D date level sold (Fin x) p sim)"
| bought:
    "known = map_of (sim_positions sim) (setup_securityId setup) \<Longrightarrow>
     known = None \<Longrightarrow> \<not> js_ge (Fin (of_nat (length (sim_positions sim)))) (in_maximumPositions (sim_input sim)) \<Longrightarrow>
     close = Fin c \<Longrightarrow> 0 < c \<Longrightarrow> shares' = Fin s \<Longrightarrow> 0 < s \<Longrightarrow>
     money amount \<Longrightarrow> \<not> d_gt D amount (sim_cash sim) \<Longrightarrow> js_gt amount (Fin 0) \<Longrightarrow>
     open_position sim date setup close = (sim', p) \<Longrightarrow>
     ledger_step D date sim (fill_buy D date candidate close price shares' amount (settle_levels levels most p) sim')"
| topped_up:
    "map_of (sim_positions sim) k = Some p \<Longrightarrow> close = Fin c \<Longrightarrow> 0 < c \<Longrightarrow> shares' = Fin s \<Longrightarrow> 0 < s \<Longrightarrow>
     money amount \<Longrightarrow> \<not> d_gt D amount (sim_cash sim) \<Longrightarrow> js_gt amount (Fin 0) \<Longrightarrow>
     ledger_step D date sim (fill_buy D date candidate close price shares' amount (settle_levels levels most p) sim)"
| settled:
    "map_of (sim_positions sim) k = Some p \<Longrightarrow>
     ledger_step D date sim
       (sim\<lparr>sim_positions := js_map_set k (settle_levels levels most p) (sim_positions sim)\<rparr>)"

inductive_cases ledger_stepE: "ledger_step D date sim sim'"

subsection \<open>Reading the cash from the trade rows\<close>

definition replay_trade :: "decimal_lib \<Rightarrow> decimal \<Rightarrow> trade \<Rightarrow> decimal" where
  "replay_trade D cash row =
     quantizeMoney D ((if trade_action row = BUY then d_minus D else d_plus D) cash (trade_amount row))"

text \<open>Every row moves the cash by its amount and reports what is left.\<close>

fun cash_trail :: "decimal_lib \<Rightarrow> decimal \<Rightarrow> trade list \<Rightarrow> decimal \<Rightarrow> bool" where
  "cash_trail D cash [] cash' \<longleftrightarrow> cash' = cash"
| "cash_trail D cash (row # rows) cash' \<longleftrightarrow>
     trade_cashAfter row = replay_trade D cash row \<and> cash_trail D (trade_cashAfter row) rows cash'"

lemma cash_trail_append:
  "cash_trail D a (xs @ ys) c \<longleftrightarrow> (\<exists>b. cash_trail D a xs b \<and> cash_trail D b ys c)"
  by (induction xs arbitrary: a) auto

definition books_follow :: "decimal_lib \<Rightarrow> local_date \<Rightarrow> simulation \<Rightarrow> simulation \<Rightarrow> bool" where
  "books_follow D date sim sim' \<longleftrightarrow>
     (\<exists>rows. sim_trades sim' = sim_trades sim @ rows \<and> (\<forall>row \<in> set rows. trade_date row = date) \<and>
        cash_trail D (sim_cash sim) rows (sim_cash sim'))"

lemma books_follow_refl [simp]: "books_follow D date sim sim"
  by (auto simp: books_follow_def)

lemma books_follow_row:
  "sim_trades sim' = sim_trades sim @ [row] \<Longrightarrow> trade_date row = date \<Longrightarrow>
     trade_cashAfter row = sim_cash sim' \<Longrightarrow> replay_trade D (sim_cash sim) row = sim_cash sim' \<Longrightarrow>
     books_follow D date sim sim'"
  unfolding books_follow_def by (intro exI [of _ "[row]"]) simp

lemma books_follow_trans:
  "books_follow D date a b \<Longrightarrow> books_follow D date b c \<Longrightarrow> books_follow D date a c"
proof -
  assume "books_follow D date a b" "books_follow D date b c"
  then obtain xs ys where "sim_trades b = sim_trades a @ xs" "\<forall>row \<in> set xs. trade_date row = date"
      "cash_trail D (sim_cash a) xs (sim_cash b)" "sim_trades c = sim_trades b @ ys"
      "\<forall>row \<in> set ys. trade_date row = date" "cash_trail D (sim_cash b) ys (sim_cash c)"
    unfolding books_follow_def by blast
  then show "books_follow D date a c"
    unfolding books_follow_def by (intro exI [of _ "xs @ ys"]) (auto simp: cash_trail_append)
qed

subsection \<open>What a step leaves alone\<close>

text \<open>The fields of the state that no trade touches.\<close>

definition same_run :: "simulation \<Rightarrow> simulation \<Rightarrow> bool" where
  "same_run sim sim' \<longleftrightarrow>
     sim_input sim' = sim_input sim \<and> sim_windows sim' = sim_windows sim \<and>
     sim_calendar sim' = sim_calendar sim \<and> sim_contributionDates sim' = sim_contributionDates sim \<and>
     sim_fullPositionFraction sim' = sim_fullPositionFraction sim \<and>
     sim_benchmark sim' = sim_benchmark sim \<and> sim_scenarios sim' = sim_scenarios sim \<and>
     sim_equity sim' = sim_equity sim \<and> sim_curve sim' = sim_curve sim \<and>
     sim_drawdown sim' = sim_drawdown sim \<and> sim_benchmarkDrawdown sim' = sim_benchmarkDrawdown sim \<and>
     sim_contextRows sim' = sim_contextRows sim \<and> sim_runtimes sim' = sim_runtimes sim \<and>
     sim_investedCapital sim' = sim_investedCapital sim \<and> sim_returnIndex sim' = sim_returnIndex sim \<and>
     sim_previousTotalValue sim' = sim_previousTotalValue sim \<and>
     sim_completedDays sim' = sim_completedDays sim \<and> sim_nextWindowIndex sim' = sim_nextWindowIndex sim \<and>
     sim_checkpoints sim' = sim_checkpoints sim"

lemma same_run_refl [simp]: "same_run sim sim"
  by (simp add: same_run_def)

lemma same_run_trans: "same_run a b \<Longrightarrow> same_run b c \<Longrightarrow> same_run a c"
  by (simp add: same_run_def)

lemma same_run_ops [simp]:
  "same_run sim (recordTrade sim row)"
  "same_run sim (close_position D date action source levelId ruleId price p sim)"
  "same_run sim (sell_at_level D date level sold price p sim)"
  "same_run sim (fill_buy D date candidate close price bought amount p sim)"
  "same_run sim (fst (open_position sim date setup close))"
  "same_run sim (sim\<lparr>sim_positions := ps\<rparr>)"
  by (simp_all add: same_run_def recordTrade_def close_position_def sell_at_level_def fill_buy_def
      open_position_def book_sale_def Let_def split: prod.splits)

lemma open_position_same_run: "open_position sim date setup close = (sim', p) \<Longrightarrow> same_run sim sim'"
  by (metis same_run_ops(5) fst_conv)

lemma ledger_step_same_run: "ledger_step D date sim sim' \<Longrightarrow> same_run sim sim'"
  by (erule ledger_stepE) (auto dest: open_position_same_run intro: same_run_trans)

subsection \<open>Amounts of a sale and of a purchase\<close>

lemma apply_sell_identity:
  "applySell D sold price fees p = (p', sale) \<Longrightarrow>
     pos_securityId p' = pos_securityId p \<and> pos_epoch p' = pos_epoch p \<and> lastPrice p' = lastPrice p"
  by (auto simp: applySell_def Let_def)

lemma settle_levels_identity [simp]:
  "pos_securityId (settle_levels levels most p) = pos_securityId p"
  "pos_epoch (settle_levels levels most p) = pos_epoch p"
  "position_books (settle_levels levels most p) = position_books p"
  "position_ok (settle_levels levels most p) = position_ok p"
  by (simp_all add: settle_levels_def position_books_def position_ok_def)

context decimal_library
begin

lemma rounded50_pos: "rounded50 x r \<Longrightarrow> 0 < x \<Longrightarrow> 0 < r"
proof -
  assume r: "rounded50 x r" and x: "0 < x"
  have "\<bar>r - x\<bar> \<le> x / 10 ^ 49" using r x by (simp add: rounded50_def)
  moreover have "x / 10 ^ 49 < x" using x by (simp add: divide_less_eq)
  ultimately show "0 < r" by linarith
qed

lemma quantized_price:
  assumes "0 < x"
  obtains p where "quantizePrice D (d_of_number D (Fin x)) = Fin p" "0 \<le> p"
proof -
  from of_number [of x] obtain r where "d_of_number D (Fin x) = Fin r" "sgn r = sgn x" by blast
  moreover from this have "0 \<le> r" using assms by (simp add: sgn_if split: if_splits)
  ultimately show ?thesis using that by (simp add: round_to_nonneg)
qed

lemma money_product:
  assumes "0 \<le> x" "0 \<le> y"
  shows "money (quantizeMoney D (d_times D (Fin x) (Fin y)))"
proof -
  from times [of x y] obtain r where r: "d_times D (Fin x) (Fin y) = Fin r" "rounded50 (x * y) r" by blast
  then have "0 \<le> r" using rounded50_nonneg assms by simp
  then show ?thesis using r by (simp only: money_quantize rounded50_fits)
qed

lemma minus_Fin: "\<exists>r. d_minus D (Fin x) (Fin y) = Fin r"
  using minus by blast

lemma apply_sell_books:
  assumes "position_ok p" "sold = Fin s" "0 < s" "price = Fin x" "0 \<le> x"
    and "applySell D sold price (V1_FEE D) p = (p', sale)"
  shows "money (sale_proceeds sale) \<and> (\<exists>r. sale_realizedPnl sale = Fin r) \<and> position_books p'"
proof -
  from assms(1) obtain h c a r l where p: "shares p = Fin h" "0 < h" "costTotalValue p = Fin c"
    "averageCostValue p = Fin a" "pos_realizedPnl p = Fin r" "lastPrice p = Fin l" "0 < l"
    by (auto simp: position_ok_def position_books_def)
  have m: "money (quantizeMoney D (d_times D price sold))" using assms(2-5) by (simp add: money_product)
  then obtain pr where pr: "quantizeMoney D (d_times D price sold) = Fin pr" by (auto simp: money_def)
  obtain as where as: "d_times D (Fin a) sold = Fin as" using times assms(2) by blast
  have minus': "\<exists>z. d_minus D (Fin u) (Fin v) = Fin z" for u v by (rule minus_Fin)
  have "\<exists>rem. (if d_gte D sold (shares p) then costTotalValue p
      else quantizeMoney D (d_times D (averageCostValue p) sold)) = Fin rem"
    using p as by auto
  then obtain rem where rem: "(if d_gte D sold (shares p) then costTotalValue p
      else quantizeMoney D (d_times D (averageCostValue p) sold)) = Fin rem" by blast
  obtain d1 where d1: "d_minus D (Fin pr) (Fin rem) = Fin d1" using minus' by blast
  obtain d2 where d2: "d_minus D (Fin d1) (Fin 0) = Fin d2" using minus' by blast
  obtain d3 where d3: "d_minus D (Fin c) (Fin rem) = Fin d3" using minus' by blast
  obtain d4 where d4: "d_plus D (Fin r) (quantizeMoney D (Fin d2)) = Fin d4" using plus by auto
  have left: "\<exists>z. d_minus D (shares p) sold = Fin z \<and> 0 < z" if "\<not> d_gte D sold (shares p)"
  proof -
    from minus [of h s] obtain z where "d_minus D (Fin h) (Fin s) = Fin z" "rounded50 (h - s) z" by blast
    moreover from that have "0 < h - s" using p assms(2) by (simp add: gte)
    ultimately show ?thesis using p assms(2) rounded50_pos by auto
  qed
  have sale: "sale_proceeds sale = quantizeMoney D (d_times D price sold)"
    "sale_realizedPnl sale = quantizeMoney D (Fin d2)"
    "pos_realizedPnl p' = quantizeMoney D (Fin d4)"
    "lastPrice p' = lastPrice p"
    "shares p' = (if d_gte D sold (shares p) then MONEY_ZERO else d_minus D (shares p) sold)"
    "costTotalValue p' = (if d_gte D sold (shares p) then MONEY_ZERO else quantizeMoney D (Fin d3))"
    "averageCostValue p' = (if d_gte D sold (shares p) then MONEY_ZERO else averageCostValue p)"
    using assms(6) p unfolding applySell_def Let_def rem pr money_fee MONEY_ZERO_def
    by (auto simp: d1 d2 d3 d4 simp del: quantizeMoney_Fin)
  show ?thesis
    using m left p by (auto simp: sale position_books_def MONEY_ZERO_def)
qed

lemma apply_buy_books:
  assumes "position_books p" "bought = Fin b" "0 < b" "money amount" "lastPrice' = Fin l" "0 < l"
  shows "position_ok ((applyBuy D bought amount (V1_FEE D) p)\<lparr>lastPrice := lastPrice', lastPriceDate := date\<rparr>)"
proof -
  from assms(1) obtain h c r where p: "shares p = Fin h" "0 \<le> h" "costTotalValue p = Fin c"
      "pos_realizedPnl p = Fin r" by (auto simp: position_books_def)
  from assms(4) obtain a where a: "amount = Fin a" by (auto simp: money_def)
  obtain c1 where c1: "d_plus D (Fin c) (Fin a) = Fin c1" using plus by blast
  obtain c2 where c2: "d_plus D (Fin c1) (Fin 0) = Fin c2" using plus by blast
  from plus [of h b] obtain h' where h': "d_plus D (Fin h) (Fin b) = Fin h'" "rounded50 (h + b) h'" by blast
  then have pos: "0 < h'" using rounded50_pos p(2) assms(3) by simp
  then obtain av where "d_div D (quantizeMoney D (Fin c2)) (Fin h') = Fin av"
    using division [of h'] by auto
  then show ?thesis
    using pos p assms(2,5,6)
    by (simp add: position_ok_def position_books_def applyBuy_def Let_def a c1 c2 h' MONEY_ZERO_def)
qed

end

subsection \<open>Every step keeps the portfolio in order\<close>

lemma js_le_length_mono:
  "js_le (Fin (of_nat n)) v \<Longrightarrow> m \<le> n \<Longrightarrow> js_le (Fin (of_nat m)) v"
  by (cases v) (auto simp: js_le_def of_nat_le_iff intro: order_trans [rotated] less_le_trans le_less_trans)

lemma portfolio_ok_entry:
  "portfolio_ok sim \<Longrightarrow> map_of (sim_positions sim) k = Some p \<Longrightarrow>
     pos_securityId p = k \<and> position_ok p \<and> map_of (sim_epochs sim) k = Some (pos_epoch p)"
  by (auto simp: portfolio_ok_def dest!: map_of_SomeD)

lemma portfolio_ok_delete:
  assumes "portfolio_ok sim"
  shows "portfolio_ok (sim\<lparr>sim_positions := js_map_delete k (sim_positions sim)\<rparr>)"
  using assms js_le_length_mono [OF _ length_js_map_delete_le]
  by (auto simp: portfolio_ok_def)

lemma portfolio_ok_set:
  assumes "portfolio_ok sim"
    and "map_of (sim_positions sim) k \<noteq> None \<or>
      js_le (Fin (of_nat (Suc (length (sim_positions sim))))) (in_maximumPositions (sim_input sim))"
    and "pos_securityId p = k" "position_ok p" "map_of (sim_epochs sim) k = Some (pos_epoch p)"
  shows "portfolio_ok (sim\<lparr>sim_positions := js_map_set k p (sim_positions sim)\<rparr>)"
  using assms by (auto simp: portfolio_ok_def set_js_map_set length_js_map_set)

lemma room_for_one:
  assumes "portfolio_ok sim"
    and "\<not> js_ge (Fin (of_nat (length (sim_positions sim)))) (in_maximumPositions (sim_input sim))"
  shows "js_le (Fin (of_nat (Suc (length (sim_positions sim))))) (in_maximumPositions (sim_input sim))"
proof -
  from assms(1) have "js_isInteger (in_maximumPositions (sim_input sim))"
    by (auto simp: portfolio_ok_def assertInput_def split: if_splits)
  then obtain m :: int where m: "in_maximumPositions (sim_input sim) = Fin (of_int m)"
    by (cases "in_maximumPositions (sim_input sim)") auto
  have "(of_nat (length (sim_positions sim)) :: rat) < of_int m" using assms(2) by (simp add: m)
  then have "int (length (sim_positions sim)) < m" by (metis of_int_less_iff of_int_of_nat_eq)
  then have "int (Suc (length (sim_positions sim))) \<le> m" by simp
  then have "(of_int (int (Suc (length (sim_positions sim)))) :: rat) \<le> of_int m" by (simp only: of_int_le_iff)
  then show ?thesis by (simp only: m js_le_Fin of_int_of_nat_eq)
qed

lemma open_position_ok:
  assumes "portfolio_ok sim" "map_of (sim_positions sim) (setup_securityId setup) = None"
    and "close = Fin c" "0 < c" "open_position sim date setup close = (sim', p)"
  shows "portfolio_ok sim' \<and> position_books p \<and> pos_securityId p = setup_securityId setup \<and>
    map_of (sim_epochs sim') (pos_securityId p) = Some (pos_epoch p) \<and>
    sim_positions sim' = sim_positions sim \<and> sim_cash sim' = sim_cash sim \<and>
    sim_trades sim' = sim_trades sim \<and> sim_input sim' = sim_input sim"
proof -
  have "k \<noteq> setup_securityId setup" if "(k, q) \<in> set (sim_positions sim)" for k q
    using that assms(2) by (force simp: map_of_eq_None_iff)
  then show ?thesis
    using assms by (auto simp: open_position_def Let_def portfolio_ok_def position_books_def MONEY_ZERO_def)
qed

lemma portfolio_ok_record:
  "portfolio_ok sim \<Longrightarrow> portfolio_ok (recordTrade sim row)"
  by (simp add: portfolio_ok_def recordTrade_def)

lemma recordTrade_fields [simp]:
  "sim_positions (recordTrade sim row) = sim_positions sim"
  "sim_cash (recordTrade sim row) = sim_cash sim"
  "sim_epochs (recordTrade sim row) = sim_epochs sim"
  "sim_trades (recordTrade sim row) = sim_trades sim @ [row\<lparr>trade_sequence := sim_sequence sim + 1\<rparr>]"
  by (simp_all add: recordTrade_def)

context decimal_library
begin

lemma moneyString_money: "money v \<Longrightarrow> moneyString D v = v"
  by (auto simp: moneyString_def MONEY_SCALE_def fixed money_def round_to_id)

lemma book_sale_effect:
  assumes "portfolio_ok sim" "position_ok p" "sold = Fin s" "0 < s" "0 \<le> x"
    and "book_sale D sold (Fin x) p sim = (p', sale, sim')"
  shows "position_books p' \<and> pos_securityId p' = pos_securityId p \<and> pos_epoch p' = pos_epoch p \<and>
    portfolio_ok sim' \<and> sim_positions sim' = sim_positions sim \<and> sim_epochs sim' = sim_epochs sim \<and>
    sim_trades sim' = sim_trades sim \<and> money (sale_proceeds sale) \<and>
    sim_cash sim' = quantizeMoney D (d_plus D (sim_cash sim) (sale_proceeds sale))"
proof -
  obtain p1 sale1 where sell: "applySell D sold (Fin x) (V1_FEE D) p = (p1, sale1)" by fastforce
  with assms(6) have eq: "p1 = p'" "sale1 = sale" "sim' = sim\<lparr>sim_cash := quantizeMoney D
        (d_plus D (sim_cash sim) (exitCashInflow D (sale_proceeds sale) (V1_FEE D))),
      sim_realizedPnl := quantizeMoney D (d_plus D (sim_realizedPnl sim) (sale_realizedPnl sale))\<rparr>"
    by (auto simp: book_sale_def Let_def)
  from apply_sell_books [OF assms(2-4) refl assms(5) sell] eq(1,2)
  obtain r where b: "money (sale_proceeds sale)" "sale_realizedPnl sale = Fin r" "position_books p'" by auto
  have cash: "sim_cash sim' = quantizeMoney D (d_plus D (sim_cash sim) (sale_proceeds sale))"
    by (simp add: eq(3) money_fee_neutral [OF b(1)])
  have "money (sim_cash sim')" using assms(1) b(1) by (auto simp: cash portfolio_ok_def intro: money_add)
  moreover have "\<exists>z. sim_realizedPnl sim' = Fin z"
  proof -
    from assms(1) obtain q where "sim_realizedPnl sim = Fin q" by (auto simp: portfolio_ok_def)
    then show ?thesis using plus [of q r] by (auto simp: eq(3) b(2))
  qed
  ultimately have "portfolio_ok sim'" using assms(1) by (auto simp: portfolio_ok_def eq(3))
  then show ?thesis using b cash apply_sell_identity [OF sell] eq by simp
qed

lemma sale_row_follows:
  assumes "money (sale_proceeds sale)" "money (sim_cash sim)" "money cash" "action \<noteq> BUY"
    and "cash = quantizeMoney D (d_plus D (sim_cash sim) (sale_proceeds sale))"
    and "sim_cash sim' = cash"
    and "sim_trades sim' = sim_trades sim @ [(sale_row D date action source levelId ruleId pct sold price
        p sale cash after average)\<lparr>trade_sequence := n\<rparr>]"
  shows "books_follow D date sim sim'"
  using assms(1-6)
  by (intro books_follow_row [OF assms(7)]) (simp_all add: sale_row_def replay_trade_def moneyString_money)

lemma sold_out_ok:
  assumes "portfolio_ok sim" "map_of (sim_positions sim) k = Some p" "action \<noteq> BUY" "0 \<le> x"
    and "sim' = close_position D date action source levelId ruleId (Fin x) p sim"
  shows "portfolio_ok sim' \<and> books_follow D date sim sim' \<and>
    sim_positions sim' = js_map_delete k (sim_positions sim)"
proof -
  note p = portfolio_ok_entry [OF assms(1,2)]
  then obtain s where s: "shares p = Fin s" "0 < s" by (auto simp: position_ok_def position_books_def)
  obtain p1 sale sim1 where b: "book_sale D (shares p) (Fin x) p sim = (p1, sale, sim1)" by (metis prod_cases3)
  note e = book_sale_effect [OF assms(1) _ s(1) s(2) assms(4) b]
  have sim': "sim' = (recordTrade sim1 (sale_row D date action source levelId ruleId None (shares p) (Fin x)
      p sale (sim_cash sim1) MONEY_ZERO None))\<lparr>sim_positions := js_map_delete k (sim_positions sim1)\<rparr>"
    using p by (simp add: assms(5) close_position_def b)
  have ok: "portfolio_ok sim'"
    unfolding sim' using portfolio_ok_delete [OF portfolio_ok_record, of sim1] e p by simp
  have "books_follow D date sim sim'"
    by (rule sale_row_follows [of sale sim "sim_cash sim1" action])
      (use e p assms(1,3) in \<open>auto simp: sim' portfolio_ok_def recordTrade_def\<close>)
  with ok show ?thesis using e p by (simp add: sim')
qed

lemma reduced_ok:
  assumes "portfolio_ok sim" "map_of (sim_positions sim) k = Some p" "sold = Fin s" "0 < s" "0 \<le> x"
    and "sim' = sell_at_level D date level sold (Fin x) p sim"
  shows "portfolio_ok sim' \<and> books_follow D date sim sim'"
proof -
  note p = portfolio_ok_entry [OF assms(1,2)]
  obtain p1 sale sim1 where b: "book_sale D sold (Fin x) p sim = (p1, sale, sim1)" by (metis prod_cases3)
  note e = book_sale_effect [OF assms(1) _ assms(3-5) b]
  define p2 where "p2 = p1\<lparr>sellLevelsFired := set_add (level_id level) (sellLevelsFired p1)\<rparr>"
  define remains where "remains = d_gt D (shares p2) MONEY_ZERO"
  define sim2 where "sim2 = recordTrade sim1 (sale_row D date SELL STRATEGY (Some (level_id level)) None
      (Some (percentage level)) sold (Fin x) p2 sale (sim_cash sim1) (shares p2)
      (if remains then Some (priceString D (averageCostValue p2)) else None))"
  have sim': "sim' = sim2\<lparr>sim_positions := (if remains then js_map_set k p2 (sim_positions sim2)
      else js_map_delete k (sim_positions sim2))\<rparr>"
    using p by (simp add: assms(6) sell_at_level_def b p2_def remains_def sim2_def Let_def)
  have p2: "position_books p2" "pos_securityId p2 = k" "pos_epoch p2 = pos_epoch p"
    "remains \<Longrightarrow> position_ok p2"
    using e p by (auto simp: p2_def remains_def position_books_def position_ok_def gt MONEY_ZERO_def)
  have ok2: "portfolio_ok sim2" using e p by (simp add: sim2_def portfolio_ok_record)
  have same: "sim_positions sim2 = sim_positions sim" "sim_epochs sim2 = sim_epochs sim"
    using e p by (simp_all add: sim2_def)
  have "portfolio_ok sim'"
    unfolding sim' using portfolio_ok_delete [OF ok2] portfolio_ok_set [OF ok2, of k p2] p2 p assms(2)
    by (simp add: same)
  moreover have "books_follow D date sim sim'"
    by (rule sale_row_follows [of sale sim "sim_cash sim1" SELL])
      (use e p assms(1) in \<open>auto simp: sim' sim2_def portfolio_ok_def recordTrade_def\<close>)
  ultimately show ?thesis ..
qed

lemma fill_buy_ok:
  assumes "portfolio_ok sim" "position_books p" "map_of (sim_epochs sim) (pos_securityId p) = Some (pos_epoch p)"
    and "map_of (sim_positions sim) (pos_securityId p) \<noteq> None \<or>
      js_le (Fin (of_nat (Suc (length (sim_positions sim))))) (in_maximumPositions (sim_input sim))"
    and "close = Fin c" "0 < c" "bought = Fin s" "0 < s" "money amount" "\<not> d_gt D amount (sim_cash sim)"
    and "sim' = fill_buy D date candidate close price bought amount p sim"
  shows "portfolio_ok sim' \<and> books_follow D date sim sim'"
proof -
  define p' where "p' = (applyBuy D bought amount (V1_FEE D) p)\<lparr>lastPrice := close, lastPriceDate := date\<rparr>"
  define cash where "cash = quantizeMoney D (d_minus D (sim_cash sim) amount)"
  have m: "money (sim_cash sim)" using assms(1) by (simp add: portfolio_ok_def)
  then have cash: "money cash" unfolding cash_def using assms(9,10) by (rule money_subtract)
  have ok: "position_ok p'" unfolding p'_def using assms(2,5-9) by (simp add: apply_buy_books del: money_fee)
  have id: "pos_securityId p' = pos_securityId p" "pos_epoch p' = pos_epoch p"
    by (simp_all add: p'_def applyBuy_def Let_def)
  let ?sim1 = "sim\<lparr>sim_cash := cash\<rparr>"
  have ok1: "portfolio_ok ?sim1" using assms(1) cash by (simp add: portfolio_ok_def)
  from portfolio_ok_set [OF this, of "pos_securityId p" p'] assms(3,4) ok id
  have ok2: "portfolio_ok (?sim1\<lparr>sim_positions := js_map_set (pos_securityId p) p' (sim_positions sim)\<rparr>)"
    by simp
  obtain row where row: "sim' = recordTrade (?sim1\<lparr>sim_positions :=
      js_map_set (pos_securityId p) p' (sim_positions sim)\<rparr>) row" and
    cols: "trade_date row = date" "trade_action row = BUY" "trade_amount row = moneyString D amount"
      "trade_cashAfter row = moneyString D cash"
    by (simp add: assms(11) fill_buy_def Let_def p'_def cash_def money_fee_neutral [OF assms(9)])
  have "books_follow D date sim sim'"
    by (rule books_follow_row [of _ _ "row\<lparr>trade_sequence := sim_sequence sim + 1\<rparr>"])
      (use cols cash assms(9) in \<open>simp_all add: row replay_trade_def moneyString_money cash_def\<close>)
  then show ?thesis using portfolio_ok_record [OF ok2] by (simp add: row)
qed

lemma ledger_step_ok:
  assumes "ledger_step D date sim sim'" "portfolio_ok sim"
  shows "portfolio_ok sim' \<and> books_follow D date sim sim'"
  using assms
proof (induction rule: ledger_step.induct)
  case sold_out
  then show ?case using sold_out_ok by blast
next
  case reduced
  then show ?case using reduced_ok by blast
next
  case (bought a s0 b e f g h i s1 q l m n r)
  have known: "map_of (sim_positions s0) (setup_securityId b) = None" using bought(1,2) by simp
  note o = open_position_ok [OF bought(12) known bought(4,5,11)]
  have "portfolio_ok sim'' \<and> books_follow D date s1 sim''"
    if "sim'' = fill_buy D date l e m g i (settle_levels n r q) s1"
    for sim''
    by (rule fill_buy_ok [OF _ _ _ _ bought(4-8) _ that]) (use o room_for_one [OF bought(12,3)] bought(9) in auto)
  then show ?case using o by (simp add: books_follow_def)
next
  case topped_up
  then show ?case
    using portfolio_ok_entry [OF topped_up(9,1)]
    by (intro fill_buy_ok [OF topped_up(9) _ _ _ topped_up(2-7) refl]) (auto simp: position_ok_def)
next
  case settled
  then show ?case
    using portfolio_ok_entry [OF settled(2,1)] portfolio_ok_set [OF settled(2)]
    by (auto simp: books_follow_def)
qed

lemma ledger_steps_ok:
  assumes "(ledger_step D date)\<^sup>*\<^sup>* sim sim'" "portfolio_ok sim"
  shows "portfolio_ok sim' \<and> books_follow D date sim sim' \<and> same_run sim sim'"
  using assms
  by (induction rule: rtranclp_induct)
    (auto dest: ledger_step_ok ledger_step_same_run intro: books_follow_trans same_run_trans)

end

subsection \<open>The phases are sequences of steps\<close>

lemma usable_close_positive: "usable_close closes index = Some close \<Longrightarrow> \<exists>x. close = Fin x \<and> 0 < x"
  by (cases close) (auto simp: usable_close_def split: if_splits)

lemma js_lt_NaN [simp]: "\<not> js_lt a NotANumber"
  by (cases a) simp_all

lemma js_max_zero: "js_max v (Fin 0) = NotANumber \<or> js_max v (Fin 0) = PosInf \<or> (\<exists>x. js_max v (Fin 0) = Fin x \<and> 0 \<le> x)"
  by (cases v) (auto simp: js_max_def)

lemma portfolio_ok_money: "portfolio_ok sim \<Longrightarrow> money (sim_cash sim)"
  by (simp add: portfolio_ok_def)

context decimal_library
begin

lemma retreat_result:
  assumes "retreat D available price bought amount = Some (b, a)"
    and "amount = quantizeMoney D (d_times D bought price)" "\<exists>s. bought = Fin s"
  shows "(\<exists>s. b = Fin s) \<and> a = quantizeMoney D (d_times D b price) \<and>
    \<not> (d_gt D a available \<and> d_gt D b MONEY_ZERO)"
proof -
  define P where "P E available price bought amount r \<longleftrightarrow>
    (E = D \<longrightarrow> amount = quantizeMoney D (d_times D bought price) \<longrightarrow> (\<exists>s. bought = Fin s) \<longrightarrow>
     (\<exists>s. fst r = Fin s) \<and> snd r = quantizeMoney D (d_times D (fst r) price) \<and>
     \<not> (d_gt D (snd r) available \<and> d_gt D (fst r) MONEY_ZERO))" for E available price bought amount r
  have "P D available price bought amount (b, a)"
  proof (rule retreat.raw_induct [of P, OF _ assms(1)])
    fix go E available price bought amount r
    assume IH: "\<And>E available price bought amount r.
        go E available price bought amount = Some r \<Longrightarrow> P E available price bought amount r"
      and r: "(if d_gt E amount available \<and> d_gt E bought MONEY_ZERO
        then go E available price (d_minus E bought SHARES_ULP)
          (quantizeMoney E (d_times E (d_minus E bought SHARES_ULP) price))
        else Some (bought, amount)) = Some r"
    have "\<exists>z. d_minus D bought SHARES_ULP = Fin z" if "\<exists>s. bought = Fin s"
      using that minus by (auto simp: SHARES_ULP_def)
    then show "P E available price bought amount r"
      using r IH [of E available price _ _ r] by (auto simp: P_def split: if_splits)
  qed
  with assms(2,3) show ?thesis by (simp add: P_def)
qed

lemma buy_spend_cases:
  assumes "money available"
  shows "money (buy_spend D budget most known close available) \<or>
    buy_spend D budget most known close available = NotANumber"
proof -
  let ?shortfall = "js_max (js_sub (js_div (js_mul budget (Fin (of_nat most))) (Fin 100))
      (case known of None \<Rightarrow> Fin 0 | Some p \<Rightarrow> js_mul (toNumber D (shares p)) close)) (Fin 0)"
  have "money (let spend = quantizeMoney D (d_of_number D v) in if d_gt D spend available then available else spend) \<or>
      (let spend = quantizeMoney D (d_of_number D v) in if d_gt D spend available then available else spend) = NotANumber"
    if "v = NotANumber \<or> v = PosInf \<or> (\<exists>x. v = Fin x \<and> 0 \<le> x)" for v
    using that assms money_number
    by (auto simp: quantizeMoney_def of_number_nan of_number_inf places_nan places_inf gt Let_def money_def)
  from this [OF js_max_zero] show ?thesis unfolding buy_spend_def Let_def .
qed

lemma shares_for_spend:
  assumes "money spend \<or> spend = NotANumber" "price = Fin x" "0 \<le> x"
  shows "(\<exists>s. quantizeSharesDown D (d_div D spend price) = Fin s) \<or>
    \<not> d_gt D (quantizeSharesDown D (d_div D spend price)) MONEY_ZERO \<or>
    quantizeMoney D (d_times D (quantizeSharesDown D (d_div D spend price)) price) = NotANumber"
proof (cases "spend = NotANumber")
  case True
  then show ?thesis by (simp add: div_nan quantizeSharesDown_def places_nan gt)
next
  case False
  then obtain m where m: "spend = Fin m" "0 \<le> m" using assms(1) by (auto simp: money_def)
  show ?thesis
  proof (cases "x = 0")
    case True
    then show ?thesis
      using m assms(2)
      by (auto simp: div_zero quantizeSharesDown_def places_nan places_inf signed_infinity_def
          times_inf quantizeMoney_def gt)
  next
    case False
    then obtain r where "d_div D spend price = Fin r" using division m assms(2) by blast
    then show ?thesis by simp
  qed
qed

lemma buy_order_result:
  assumes "money available" "money spend \<or> spend = NotANumber" "price = Fin x" "0 \<le> x"
    and "buy_order D available spend price = Some (bought, amount)"
    and "d_gt D bought MONEY_ZERO" "d_gt D amount MONEY_ZERO"
  shows "(\<exists>s. bought = Fin s \<and> 0 < s) \<and> money amount \<and> \<not> d_gt D amount available"
proof -
  let ?b = "quantizeSharesDown D (d_div D spend price)"
  have r: "retreat D available price ?b (quantizeMoney D (d_times D ?b price)) = Some (bought, amount)"
    using assms(5) by (simp add: buy_order_def Let_def)
  have "\<exists>s. ?b = Fin s"
  proof (rule ccontr)
    assume n: "\<nexists>s. ?b = Fin s"
    from shares_for_spend [OF assms(2-4)] n
    have "\<not> d_gt D ?b MONEY_ZERO \<or> quantizeMoney D (d_times D ?b price) = NotANumber" by blast
    then have "\<not> (d_gt D (quantizeMoney D (d_times D ?b price)) available \<and> d_gt D ?b MONEY_ZERO)"
      by (auto simp: gt)
    then have "bought = ?b" "amount = quantizeMoney D (d_times D ?b price)"
      using r by (auto simp add: retreat.simps [of D available price ?b])
    then show False using \<open>\<not> d_gt D ?b MONEY_ZERO \<or> _\<close> assms(6,7) by (auto simp: gt)
  qed
  from retreat_result [OF r refl this]
  obtain s where s: "bought = Fin s" "amount = quantizeMoney D (d_times D bought price)"
    "\<not> (d_gt D amount available \<and> d_gt D bought MONEY_ZERO)" by auto
  then have "0 < s" using assms(6) by (simp add: gt MONEY_ZERO_def)
  moreover from this have "money amount" using s assms(3,4) by (simp only: money_product less_imp_le)
  ultimately show ?thesis using s assms(6) by auto
qed

end

lemma js_gt_zero: "js_gt v (Fin 0) \<Longrightarrow> v = PosInf \<or> (\<exists>x. v = Fin x \<and> 0 < x)"
  by (cases v) auto

lemma step_into_rtranclp: "R s s' \<Longrightarrow> R\<^sup>*\<^sup>* s s'"
  by simp

context decimal_library
begin

lemma sell_level_shares_Fin: "shares p = Fin s \<Longrightarrow> \<exists>x. sell_level_shares D p level = Fin x"
proof -
  assume s: "shares p = Fin s"
  obtain a where a: "d_of_number D (Fin (of_nat (percentage level))) = Fin a" using of_number by blast
  obtain b where b: "d_of_number D (Fin 100) = Fin b" "sgn b = sgn 100" using of_number [of 100] by blast
  then have "b \<noteq> 0" by (auto simp: sgn_if)
  moreover obtain c where "d_times D (Fin s) (Fin a) = Fin c" using times by blast
  ultimately obtain d where "d_div D (Fin c) (Fin b) = Fin d" using division by blast
  then show ?thesis using a b s \<open>d_times D (Fin s) (Fin a) = Fin c\<close> by (simp add: sell_level_shares_def)
qed

lemma sell_levels_reach:
  assumes "sell_levels D date gates index close previousDate k levels sim = Inr sim'" "portfolio_ok sim"
    and "close = Fin c" "0 < c"
  shows "(ledger_step D date)\<^sup>*\<^sup>* sim sim'"
  using assms(1,2)
proof (induction levels arbitrary: sim)
  case (Cons level levels)
  show ?case
  proof (cases "map_of (sim_positions sim) k")
    case None
    then show ?thesis using Cons.prems(1) by simp
  next
    case (Some p)
    note p = portfolio_ok_entry [OF Cons.prems(2) Some]
    obtain s where s: "shares p = Fin s" using p by (auto simp: position_ok_def position_books_def)
    obtain q where q: "sell_level_shares D p level = Fin q" using sell_level_shares_Fin [OF s] by blast
    obtain x where x: "quantizePrice D (d_of_number D close) = Fin x" "0 \<le> x"
      using quantized_price [OF assms(4)] assms(3) by metis
    let ?sold = "sell_at_level D date level (Fin q) (Fin x) p sim"
    have step: "ledger_step D date sim ?sold" if "d_gt D (Fin q) MONEY_ZERO"
      using reduced [OF Some refl _ x(2), of q] that by (simp add: gt MONEY_ZERO_def)
    from Cons.prems(1) consider
        "sell_levels D date gates index close previousDate k levels sim = Inr sim'"
      | "d_gt D (Fin q) MONEY_ZERO" "sell_levels D date gates index close previousDate k levels ?sold = Inr sim'"
      by (auto simp: Some q x(1) Let_def split: if_splits sum.splits)
    then show ?thesis
    proof cases
      case 1
      then show ?thesis by (rule Cons.IH [OF _ Cons.prems(2)])
    next
      case 2
      from ledger_step_ok [OF step [OF 2(1)] Cons.prems(2)] have "portfolio_ok ?sold" by simp
      with Cons.IH [OF 2(2)] step [OF 2(1)] show ?thesis by (meson converse_rtranclp_into_rtranclp)
    qed
  qed
qed simp

lemma exit_position_reach:
  assumes "exit_position D date k sim = Inr sim'" "portfolio_ok sim"
  shows "(ledger_step D date)\<^sup>*\<^sup>* sim sim'"
proof (cases "sim' = sim")
  case False
  obtain p runtime where p: "map_of (sim_positions sim) k = Some p" and rt: "runtime_by_id sim k = Some runtime"
    using assms(1) False by (auto simp: exit_position_def split: option.splits)
  define index where "index = frameIndexAt runtime date"
  define previous where
    "previous = (if 0 < index then Some (frame_dates (runtime_frame runtime) ! nat (index - 1)) else None)"
  obtain close where close: "usable_close (frame_closes (runtime_frame runtime)) index = Some close"
    using assms(1) False p rt by (auto simp: exit_position_def index_def Let_def split: option.splits if_splits)
  then have "\<not> index < 0" by (auto simp: usable_close_def split: if_splits)
  with assms(1) obtain decision :: "(strategy_final_exit \<times> string option) option" where sim': "(case decision of
        Some (exit, ruleId) \<Rightarrow> Inr (close_position D date FINAL_EXIT STRATEGY (Some (exit_id exit)) ruleId
          (quantizePrice D (d_of_number D close)) p sim)
      | None \<Rightarrow> sell_levels D date (runtime_gates runtime) index close previous
          k (sellLevels (in_definition (sim_input sim))) sim) = Inr sim'"
    by (auto simp: exit_position_def p rt close Let_def result_bind_Inr_iff simp flip: index_def previous_def)
  from usable_close_positive [OF close] obtain c where c: "close = Fin c" "0 < c" by blast
  then obtain x where x: "quantizePrice D (d_of_number D close) = Fin x" "0 \<le> x"
    using quantized_price by metis
  show ?thesis
  proof (cases decision)
    case None
    with sim' show ?thesis by (auto intro: sell_levels_reach [OF _ assms(2) c])
  next
    case (Some d)
    with sim' x(1) sold_out [OF p _ x(2), of FINAL_EXIT D date STRATEGY "Some (exit_id (fst d))" "snd d"]
    show ?thesis by (auto simp: case_prod_beta)
  qed
qed simp

lemma exits_reach:
  assumes "exits D date sim = Inr sim'" "portfolio_ok sim"
  shows "(ledger_step D date)\<^sup>*\<^sup>* sim sim'"
  by (rule result_fold_reaches [where I = portfolio_ok, OF _ _ assms(1) [unfolded exits_def] assms(2)])
    (auto intro: exit_position_reach dest: ledger_step_ok)

lemma buy_candidate_step_reach:
  assumes "buy_candidate_step D date budget candidate sim = Inr sim'" "portfolio_ok sim"
  shows "(ledger_step D date)\<^sup>*\<^sup>* sim sim'"
proof (cases "sim' = sim")
  case False
  define runtime where "runtime = candidate_runtime candidate"
  define sp where "sp = runtime_setup runtime"
  define known where "known = map_of (sim_positions sim) (setup_securityId sp)"
  define levels where "levels = buyLevels (in_definition (sim_input sim))"
  define most where "most = candidate_percentage candidate"
  note defs = runtime_def sp_def known_def levels_def most_def
  have m: "money (sim_cash sim)" using assms(2) by (rule portfolio_ok_money)
  then have available: "spendableAfterFees D (sim_cash sim) (V1_FEE D) = sim_cash sim"
    by (simp add: money_fee_neutral)
  from assms(1) False obtain close bought amount where
      close: "usable_close (frame_closes (runtime_frame runtime)) (candidate_frameIndex candidate) = Some close"
    and room: "known = None \<Longrightarrow>
        \<not> js_ge (Fin (of_nat (length (sim_positions sim)))) (in_maximumPositions (sim_input sim))"
    and order: "buy_order D (sim_cash sim) (buy_spend D budget most known close (sim_cash sim))
        (quantizePrice D (d_of_number D close)) = Some (bought, amount)"
    and result: "(let buyable = d_gt D bought MONEY_ZERO \<and> d_gt D amount MONEY_ZERO
        in if known = None \<and> \<not> buyable then Inr sim
           else (let (sim1, position) = (case known of
                   Some p \<Rightarrow> (sim, p) | None \<Rightarrow> open_position sim date sp close);
                 position = settle_levels levels most position
             in Inr (if buyable
                 then fill_buy D date candidate close (quantizePrice D (d_of_number D close)) bought amount position sim1
                 else sim1\<lparr>sim_positions := js_map_set (setup_securityId sp) position (sim_positions sim1)\<rparr>)))
        = (Inr sim' :: simulation_error + simulation)"
    unfolding buy_candidate_step_def Let_def available defs
    by (auto split: option.splits if_splits)
  from usable_close_positive [OF close] obtain c where c: "close = Fin c" "0 < c" by blast
  then obtain x where x: "quantizePrice D (d_of_number D close) = Fin x" "0 \<le> x"
    using quantized_price by metis
  note r = buy_order_result [OF m buy_spend_cases [OF m] x order]
  show ?thesis
  proof (cases "d_gt D bought MONEY_ZERO \<and> d_gt D amount MONEY_ZERO")
    case True
    with r obtain b where b: "bought = Fin b" "0 < b" "money amount" "\<not> d_gt D amount (sim_cash sim)" by auto
    have a: "js_gt amount (Fin 0)" using True by (simp add: gt MONEY_ZERO_def)
    show ?thesis
    proof (cases known)
      case None
      obtain sim1 p where o: "open_position sim date sp close = (sim1, p)" by fastforce
      from result True None have "sim' = fill_buy D date candidate close
          (quantizePrice D (d_of_number D close)) bought amount (settle_levels levels most p) sim1"
        by (simp add: o)
      then show ?thesis
        using ledger_step.bought [OF known_def None room [OF None] c b(1-4) a o] by (auto simp: x(1))
    next
      case (Some p)
      then have k: "map_of (sim_positions sim) (setup_securityId sp) = Some p" by (simp add: known_def)
      from result True Some have "sim' = fill_buy D date candidate close
          (quantizePrice D (d_of_number D close)) bought amount (settle_levels levels most p) sim" by simp
      then show ?thesis using topped_up [OF k c b(1-4) a] by auto
    qed
  next
    case F: False
    show ?thesis
    proof (cases known)
      case None
      with result F False show ?thesis by auto
    next
      case (Some p)
      then have k: "map_of (sim_positions sim) (setup_securityId sp) = Some p" by (simp add: known_def)
      from result F Some show ?thesis using settled [OF k] by auto
    qed
  qed
qed simp

lemma entries_reach:
  assumes "entries D date deposited openAtDayStart sim = Inr sim'" "portfolio_ok sim"
  shows "(ledger_step D date)\<^sup>*\<^sup>* sim sim'"
  by (rule result_fold_reaches [where I = portfolio_ok, OF _ _ assms(1) [unfolded entries_def Let_def] assms(2)])
    (auto intro: buy_candidate_step_reach dest: ledger_step_ok)

end

subsection \<open>Terminal liquidation empties the portfolio\<close>

lemma foldl_delete_keys: "foldl (\<lambda>m k. js_map_delete k m) m ks = filter (\<lambda>p. fst p \<notin> set ks) m"
  by (induction ks arbitrary: m) (auto simp: AList.delete_eq intro!: filter_cong)

lemma sortedPositions_keys:
  "portfolio_ok sim \<Longrightarrow> set (map pos_securityId (sortedPositions (sim_positions sim))) = set (js_keys (sim_positions sim))"
  by (force simp: sortedPositions_def portfolio_ok_def)

context decimal_library
begin

lemma liquidate_position_effect:
  assumes "portfolio_ok sim"
  shows "(ledger_step D date)\<^sup>*\<^sup>* sim (liquidate_position D date sim k) \<and>
    sim_positions (liquidate_position D date sim k) = js_map_delete k (sim_positions sim)"
proof (cases "map_of (sim_positions sim) k")
  case None
  then have "js_map_delete k (sim_positions sim) = sim_positions sim"
    by (simp add: delete_idem map_of_eq_None_iff)
  with None show ?thesis by (simp add: liquidate_position_def)
next
  case (Some p)
  note e = portfolio_ok_entry [OF assms Some]
  then obtain l where l: "lastPrice p = Fin l" "0 < l" by (auto simp: position_ok_def position_books_def)
  then obtain x where x: "quantizePrice D (d_of_number D (lastPrice p)) = Fin x" "0 \<le> x"
    using quantized_price by metis
  have "d_gt D (shares p) MONEY_ZERO" using e by (simp add: position_ok_def gt MONEY_ZERO_def)
  then have eq: "liquidate_position D date sim k = close_position D date SELL END_OF_BACKTEST None None (Fin x) p sim"
    by (simp add: liquidate_position_def Some x(1))
  show ?thesis
    using sold_out_ok [OF assms Some _ x(2) refl, of SELL date END_OF_BACKTEST None None]
      sold_out [OF Some _ x(2), of SELL D date END_OF_BACKTEST None None]
    by (auto simp: eq)
qed

lemma liquidation_reach:
  assumes "portfolio_ok sim"
  shows "(ledger_step D date)\<^sup>*\<^sup>* sim (liquidateRemainingPositions D date sim) \<and>
    sim_positions (liquidateRemainingPositions D date sim) = []"
proof -
  have fold: "(ledger_step D date)\<^sup>*\<^sup>* s (foldl (liquidate_position D date) s ks) \<and>
      sim_positions (foldl (liquidate_position D date) s ks) = foldl (\<lambda>m k. js_map_delete k m) (sim_positions s) ks"
    if "portfolio_ok s" for s ks
    using that
  proof (induction ks arbitrary: s)
    case (Cons k ks)
    note e = liquidate_position_effect [OF Cons.prems, of date k]
    then have "portfolio_ok (liquidate_position D date s k)" using ledger_steps_ok Cons.prems by blast
    from Cons.IH [OF this] e show ?case by (auto intro: rtranclp_trans)
  qed simp
  show ?thesis
    using fold [OF assms, of "map pos_securityId (sortedPositions (sim_positions sim))"]
      sortedPositions_keys [OF assms]
    by (auto simp: liquidateRemainingPositions_def foldl_delete_keys filter_empty_conv)
qed

end

subsection \<open>Before and after the trades of a date\<close>

lemma mark_position_identity:
  "position_ok p \<Longrightarrow> position_ok (mark_position sim date p) \<and>
     pos_securityId (mark_position sim date p) = pos_securityId p \<and>
     pos_epoch (mark_position sim date p) = pos_epoch p"
  by (auto simp: mark_position_def position_ok_def position_books_def closeAt_def Let_def
      dest!: usable_close_positive split: option.splits if_splits)

lemma remember_position_identity:
  "position_ok (remember_position D sim date p) = position_ok p"
  "pos_securityId (remember_position D sim date p) = pos_securityId p"
  "pos_epoch (remember_position D sim date p) = pos_epoch p"
  by (simp_all add: remember_position_def position_ok_def position_books_def split: option.splits)

lemma js_map_ok_map_values [simp]: "js_map_ok (map (\<lambda>p. (fst p, f (snd p))) m) = js_map_ok m"
  by (simp add: js_map_ok_def comp_def)

lemma portfolio_ok_map_positions:
  assumes "portfolio_ok sim"
    and "\<And>p. position_ok p \<Longrightarrow> position_ok (f p) \<and> pos_securityId (f p) = pos_securityId p \<and> pos_epoch (f p) = pos_epoch p"
  shows "portfolio_ok (sim\<lparr>sim_positions := map (\<lambda>p. (fst p, f (snd p))) (sim_positions sim)\<rparr>)"
  using assms by (fastforce simp: portfolio_ok_def)

lemma portfolio_ok_runtimes [simp]: "portfolio_ok (sim\<lparr>sim_runtimes := rs\<rparr>) = portfolio_ok sim"
  by (simp add: portfolio_ok_def)

lemma value_holdings_ok: "portfolio_ok sim \<Longrightarrow> portfolio_ok (value_holdings date sim)"
  unfolding value_holdings_def Let_def
  by (rule portfolio_ok_map_positions) (simp_all add: mark_position_identity)

lemma remember_returns_ok: "portfolio_ok sim \<Longrightarrow> portfolio_ok (remember_returns D date sim)"
  unfolding remember_returns_def
  by (rule portfolio_ok_map_positions) (simp_all add: remember_position_identity)

end
