(* ===== verification/SimulationInvariants.thy ===== *)
theory SimulationInvariants
  imports SimulationLedger
begin

section \<open>What holds between the dates of a run\<close>

text \<open>
  The invariant of a run between two dates, that the constructor establishes and every simulated
  date and window keeps, and what follows for a run that finishes: its trade rows reconcile with its
  cash, its equity rows follow the calendar and it ends in cash.
\<close>

subsection \<open>The invariant\<close>

text \<open>The equity row of a date: cash in hand, funded like the baseline, within the slots.\<close>

definition equity_ok :: "simulation_input \<Rightarrow> equity_point \<Rightarrow> bool" where
  "equity_ok input row \<longleftrightarrow>
     money (equity_cash row) \<and> equity_cashBaselineValue row = equity_investedCapital row \<and>
     js_le (Fin (of_nat (equity_openPositions row))) (in_maximumPositions input)"

definition run_ok :: "simulation \<Rightarrow> bool" where
  "run_ok sim \<longleftrightarrow>
     portfolio_ok sim \<and>
     scenario_baseline (sim_scenarios sim) = sim_investedCapital sim \<and>
     sim_completedDays sim \<le> length (sim_calendar sim) \<and>
     map equity_date (sim_equity sim) = take (sim_completedDays sim) (sim_calendar sim) \<and>
     (\<forall>row \<in> set (sim_equity sim). equity_ok (sim_input sim) row) \<and>
     (sim_completedDays sim = length (sim_calendar sim) \<longrightarrow> sim_positions sim = [] \<and>
        (sim_equity sim \<noteq> [] \<longrightarrow>
           equity_positionsValue (last (sim_equity sim)) = Fin 0 \<and>
           equity_totalValue (last (sim_equity sim)) = sim_cash sim \<and>
           equity_cash (last (sim_equity sim)) = sim_cash sim))"

subsection \<open>Contributions and the record of a date\<close>

lemma contribution_on_cases:
  assumes "portfolio_ok sim"
  shows "contribution_on sim date = Fin 0 \<or> (\<exists>x. contribution_on sim date = Fin x \<and> 0 < x)"
proof -
  have "isFinite (in_monthlyContribution (sim_input sim))"
    using assms by (auto simp: portfolio_ok_def assertInput_def split: if_splits)
  then show ?thesis
    by (cases "in_monthlyContribution (sim_input sim)") (auto simp: contribution_on_def Let_def)
qed

lemmas record_day_defs = record_day_def record_equity_def deliver_checkpoint_def Let_def

text \<open>The fields a date's record moves.\<close>

lemma record_day_fields [simp]:
  "sim_positions (record_day D js_pow options date c sim) = sim_positions sim"
  "sim_cash (record_day D js_pow options date c sim) = sim_cash sim"
  "sim_trades (record_day D js_pow options date c sim) = sim_trades sim"
  "sim_input (record_day D js_pow options date c sim) = sim_input sim"
  "sim_calendar (record_day D js_pow options date c sim) = sim_calendar sim"
  "sim_windows (record_day D js_pow options date c sim) = sim_windows sim"
  "sim_investedCapital (record_day D js_pow options date c sim) = sim_investedCapital sim"
  "sim_completedDays (record_day D js_pow options date c sim) = Suc (sim_completedDays sim)"
  "sim_nextWindowIndex (record_day D js_pow options date c sim) = sim_nextWindowIndex sim"
  "portfolio_ok (record_day D js_pow options date c sim) = portfolio_ok sim"
  by (simp_all add: record_day_defs portfolio_ok_def split: prod.splits)

lemma markBenchmark_baseline:
  "markBenchmark D scenarios close = (scenarios', v) \<Longrightarrow> scenario_baseline scenarios' = scenario_baseline scenarios"
  by (auto simp: markBenchmark_def Let_def split: option.splits if_splits)

lemma record_day_baseline [simp]:
  "scenario_baseline (sim_scenarios (record_day D js_pow options date c sim)) = scenario_baseline (sim_scenarios sim)"
  by (auto simp: record_day_defs dest: markBenchmark_baseline split: prod.splits)

lemma record_day_equity:
  "\<exists>row. sim_equity (record_day D js_pow options date c sim) = sim_equity sim @ [row] \<and>
     equity_date row = date \<and> equity_cash row = moneyString D (sim_cash sim) \<and>
     equity_positionsValue row = moneyString D (positionsValue D (sim_positions sim)) \<and>
     equity_totalValue row = moneyString D (quantizeMoney D
       (d_plus D (sim_cash sim) (positionsValue D (sim_positions sim)))) \<and>
     equity_investedCapital row = moneyString D (sim_investedCapital sim) \<and>
     equity_cashBaselineValue row = moneyString D (scenario_baseline (sim_scenarios sim)) \<and>
     equity_openPositions row = length (sim_positions sim)"
  by (auto simp: record_day_defs dest: markBenchmark_baseline split: prod.splits)

context decimal_library
begin

lemma apply_contribution_ok:
  assumes "portfolio_ok sim" "c = Fin 0 \<or> (\<exists>x. c = Fin x \<and> 0 < x)"
  shows "portfolio_ok (apply_contribution D c sim)"
proof -
  have "money (quantizeMoney D (d_of_number D c))" using assms(2) money_number by auto
  then show ?thesis
    using assms(1) by (auto simp: portfolio_ok_def apply_contribution_def Let_def intro: money_add)
qed

lemma apply_contribution_baseline:
  assumes "c = Fin 0 \<or> (\<exists>x. c = Fin x \<and> 0 < x)"
    and "scenario_baseline (sim_scenarios sim) = sim_investedCapital sim"
  shows "scenario_baseline (sim_scenarios (apply_contribution D c sim)) = sim_investedCapital (apply_contribution D c sim)"
  using assms by (auto simp: apply_contribution_def fund_def Let_def)

end

text \<open>The fields that mark the place of a state in its run.\<close>

definition same_place :: "simulation \<Rightarrow> simulation \<Rightarrow> bool" where
  "same_place sim sim' \<longleftrightarrow>
     sim_input sim' = sim_input sim \<and> sim_windows sim' = sim_windows sim \<and>
     sim_calendar sim' = sim_calendar sim \<and> sim_equity sim' = sim_equity sim \<and>
     sim_completedDays sim' = sim_completedDays sim \<and> sim_nextWindowIndex sim' = sim_nextWindowIndex sim"

lemma same_place_trans: "same_place a b \<Longrightarrow> same_place b c \<Longrightarrow> same_place a c"
  by (simp add: same_place_def)

lemma same_run_place: "same_run a b \<Longrightarrow> same_place a b"
  by (simp add: same_run_def same_place_def)

lemma same_place_ops [simp]:
  "same_place sim (apply_contribution D c sim)"
  "same_place sim (value_holdings date sim)"
  "same_place sim (remember_returns D date sim)"
  by (simp_all add: same_place_def apply_contribution_def value_holdings_def remember_returns_def Let_def)

subsection \<open>A simulated date\<close>

definition opened_date :: "decimal_lib \<Rightarrow> local_date \<Rightarrow> simulation \<Rightarrow> simulation" where
  "opened_date D date sim = value_holdings date (apply_contribution D (contribution_on sim date) sim)"

lemma opened_date_place [simp]: "same_place sim (opened_date D date sim)"
  unfolding opened_date_def by (rule same_place_trans [OF same_place_ops(1) same_place_ops(2)])

context decimal_library
begin

lemma simulateDate_parts:
  assumes "simulateDate D js_pow options date sim = Inr sim'" "portfolio_ok sim"
  obtains mid where "sim_completedDays sim < length (sim_calendar sim)"
    and "sim_calendar sim ! sim_completedDays sim = date"
    and "(ledger_step D date)\<^sup>*\<^sup>* (opened_date D date sim) mid"
    and "sim_completedDays sim = length (sim_calendar sim) - 1 \<Longrightarrow> sim_positions mid = []"
    and "sim' = record_day D js_pow options date (contribution_on sim date) (remember_returns D date mid)"
    and "portfolio_ok (opened_date D date sim)"
proof -
  let ?s = "opened_date D date sim"
  from assms(1) obtain exited entered where
      day: "sim_completedDays sim < length (sim_calendar sim)" "sim_calendar sim ! sim_completedDays sim = date"
    and exited: "exits D date ?s = Inr exited"
    and entered: "entries D date (js_gt (contribution_on sim date) (Fin 0)) (js_keys (sim_positions ?s)) exited = Inr entered"
    and sim': "sim' = record_day D js_pow options date (contribution_on sim date) (remember_returns D date
      (if sim_completedDays entered = length (sim_calendar entered) - 1
       then liquidateRemainingPositions D date entered else entered))"
    by (auto simp: simulateDate_def Let_def opened_date_def result_bind_Inr_iff split: if_splits)
  have ok: "portfolio_ok ?s"
    unfolding opened_date_def
    by (intro value_holdings_ok apply_contribution_ok contribution_on_cases assms(2))
  note x = exits_reach [OF exited ok]
  note x_ok = ledger_steps_ok [OF x ok]
  note e = entries_reach [OF entered x_ok [THEN conjunct1]]
  note e_ok = ledger_steps_ok [OF e x_ok [THEN conjunct1]]
  note l = liquidation_reach [OF e_ok [THEN conjunct1], of date]
  have place: "sim_completedDays entered = sim_completedDays sim" "sim_calendar entered = sim_calendar sim"
  proof -
    have "same_place ?s entered"
      using x_ok e_ok by (auto intro: same_place_trans same_run_place)
    with opened_date_place have "same_place sim entered" by (rule same_place_trans)
    then show "sim_completedDays entered = sim_completedDays sim" "sim_calendar entered = sim_calendar sim"
      by (simp_all add: same_place_def)
  qed
  show ?thesis
    by (rule that [OF day _ _ sim' ok])
      (use l in \<open>auto simp: place intro: rtranclp_trans [OF x] rtranclp_trans [OF e]\<close>)
qed

lemma record_of_date_ok:
  assumes "portfolio_ok sim" "scenario_baseline (sim_scenarios sim) = sim_investedCapital sim"
  obtains row where
    "sim_equity (record_day D js_pow options date c sim) = sim_equity sim @ [row]"
    "equity_date row = date" "equity_ok (sim_input sim) row" "equity_cash row = sim_cash sim"
    "sim_positions sim = [] \<Longrightarrow> equity_positionsValue row = Fin 0 \<and> equity_totalValue row = sim_cash sim"
proof -
  from assms(1) have cash: "money (sim_cash sim)" by (simp add: portfolio_ok_def)
  from record_day_equity [of D js_pow options date c sim] obtain row where
    row: "sim_equity (record_day D js_pow options date c sim) = sim_equity sim @ [row]"
      "equity_date row = date" "equity_cash row = moneyString D (sim_cash sim)"
      "equity_positionsValue row = moneyString D (positionsValue D (sim_positions sim))"
      "equity_totalValue row = moneyString D (quantizeMoney D
         (d_plus D (sim_cash sim) (positionsValue D (sim_positions sim))))"
      "equity_investedCapital row = moneyString D (sim_investedCapital sim)"
      "equity_cashBaselineValue row = moneyString D (scenario_baseline (sim_scenarios sim))"
      "equity_openPositions row = length (sim_positions sim)" by blast
  have empty: "equity_positionsValue row = Fin 0 \<and> equity_totalValue row = sim_cash sim"
    if "sim_positions sim = []"
  proof -
    have worth: "positionsValue D (sim_positions sim) = MONEY_ZERO"
      using quantizeMoney_money [OF money_zero] by (simp add: positionsValue_def that)
    have "quantizeMoney D (d_plus D (sim_cash sim) MONEY_ZERO) = sim_cash sim"
      using money_fee_neutral(1) [OF cash] by (simp add: buyCashOutflow_def)
    then show ?thesis
      using moneyString_money [OF cash] moneyString_money [OF money_zero]
      by (simp add: row(4,5) worth MONEY_ZERO_def)
  qed
  show ?thesis
    using that [of row] row cash assms empty
    by (simp add: equity_ok_def moneyString_money portfolio_ok_def)
qed

lemma simulateDate_ok:
  assumes "run_ok sim" "simulateDate D js_pow options date sim = Inr sim'"
  shows "run_ok sim' \<and> books_follow D date (apply_contribution D (contribution_on sim date) sim) sim' \<and>
    sim_calendar sim' = sim_calendar sim \<and> sim_windows sim' = sim_windows sim \<and>
    sim_nextWindowIndex sim' = sim_nextWindowIndex sim \<and> sim_completedDays sim' = Suc (sim_completedDays sim)"
proof -
  note R = assms(1) [unfolded run_ok_def]
  then have ok: "portfolio_ok sim" by simp
  from simulateDate_parts [OF assms(2) ok] obtain mid where
      day: "sim_completedDays sim < length (sim_calendar sim)" "sim_calendar sim ! sim_completedDays sim = date"
    and steps: "(ledger_step D date)\<^sup>*\<^sup>* (opened_date D date sim) mid"
    and last: "sim_completedDays sim = length (sim_calendar sim) - 1 \<Longrightarrow> sim_positions mid = []"
    and sim': "sim' = record_day D js_pow options date (contribution_on sim date) (remember_returns D date mid)"
    and opened: "portfolio_ok (opened_date D date sim)" by metis
  let ?mid = "remember_returns D date mid"
  note m = ledger_steps_ok [OF steps opened]
  have ok': "portfolio_ok ?mid" using m by (simp add: remember_returns_ok)
  have place: "same_place sim ?mid"
    using same_place_trans [OF opened_date_place same_run_place] m
      same_place_trans [OF _ same_place_ops(3)] by blast
  have base: "scenario_baseline (sim_scenarios ?mid) = sim_investedCapital ?mid"
    using apply_contribution_baseline [OF contribution_on_cases [OF ok], of sim date] R m
    by (simp add: same_run_def opened_date_def value_holdings_def remember_returns_def Let_def)
  obtain row where row: "sim_equity sim' = sim_equity ?mid @ [row]" "equity_date row = date"
      "equity_ok (sim_input ?mid) row" "equity_cash row = sim_cash ?mid"
      "sim_positions ?mid = [] \<Longrightarrow> equity_positionsValue row = Fin 0 \<and> equity_totalValue row = sim_cash ?mid"
    using record_of_date_ok [OF ok' base, of js_pow options date "contribution_on sim date"]
    unfolding sim' by metis
  have final: "sim_positions ?mid = []" if "Suc (sim_completedDays sim) = length (sim_calendar sim)"
    using last that by (simp add: remember_returns_def)
  have "run_ok sim'"
    unfolding run_ok_def using R ok' place base row final day
    by (auto simp: sim' same_place_def take_Suc_conv_app_nth)
  moreover have "books_follow D date (apply_contribution D (contribution_on sim date) sim) sim'"
    using m by (simp add: books_follow_def sim' remember_returns_def opened_date_def value_holdings_def Let_def)
  ultimately show ?thesis using place by (simp add: sim' same_place_def)
qed

end

subsection \<open>The constructor, the windows and the report\<close>

lemma run_ok_runtimes [simp]:
  "run_ok (sim\<lparr>sim_runtimes := rs\<rparr>) = run_ok sim"
  "run_ok (sim\<lparr>sim_contextRows := rows\<rparr>) = run_ok sim"
  "run_ok (sim\<lparr>sim_contextRows := rows, sim_runtimes := rs\<rparr>) = run_ok sim"
  "run_ok (sim\<lparr>sim_nextWindowIndex := n\<rparr>) = run_ok sim"
  by (simp_all add: run_ok_def portfolio_ok_def)

definition same_plan :: "simulation \<Rightarrow> simulation \<Rightarrow> bool" where
  "same_plan sim sim' \<longleftrightarrow> sim_calendar sim' = sim_calendar sim \<and> sim_windows sim' = sim_windows sim"

context decimal_library
begin

lemma new_simulation_ok:
  assumes "new_BacktestSimulation D input = Inr sim"
  shows "run_ok sim \<and> sim_completedDays sim = 0 \<and> sim_nextWindowIndex sim = 0 \<and> sim_equity sim = [] \<and>
    sim_calendar sim = buildExecutionCalendar (in_startDate input) (in_endDate input) (in_executionCalendar input) \<and>
    sim_calendar sim \<noteq> [] \<and>
    sim_windows sim = planExecutionWindows (sim_calendar sim) (in_startDate input) (in_endDate input)"
proof -
  have input: "assertInput input = None" using assms by (auto simp: new_BacktestSimulation_def split: option.splits)
  then have "isFinite (in_initialCapital input)" "\<not> js_le (in_initialCapital input) (Fin 0)"
    by (auto simp: assertInput_def split: if_splits)
  then obtain x where x: "in_initialCapital input = Fin x" "0 < x"
    by (cases "in_initialCapital input") auto
  obtain y where y: "quantizeMoney D (d_of_number D (Fin x)) = Fin y" "fits 50 y" "at_scale 6 y"
    using money_number [of x] x(2) by (auto simp: money_def)
  have deposit: "quantizeMoney D (d_plus D MONEY_ZERO (Fin y)) = Fin y"
    using plus [of 0 y] y by (auto simp: MONEY_ZERO_def round_to_id dest: rounded50_exact)
  have slots: "js_le (Fin 0) (in_maximumPositions input)"
    using input by (cases "in_maximumPositions input") (auto simp: assertInput_def split: if_splits)
  have "money (Fin y)" using money_number [of x] x(2) y(1) by simp
  then show ?thesis
    using assms input slots x y(1) deposit
    by (auto simp: new_BacktestSimulation_def Let_def run_ok_def portfolio_ok_def new_ComparisonScenarios_def
        fund_def MONEY_ZERO_def split: if_splits)
qed

lemma simulated_dates_ok:
  assumes "result_fold (simulateDate D js_pow options) dates sim = Inr sim'" "run_ok sim"
  shows "run_ok sim' \<and> same_plan sim sim' \<and> sim_nextWindowIndex sim' = sim_nextWindowIndex sim \<and>
    sim_completedDays sim' = sim_completedDays sim + length dates"
  using assms
proof (induction dates arbitrary: sim)
  case (Cons date dates)
  then obtain s where s: "simulateDate D js_pow options date sim = Inr s"
      "result_fold (simulateDate D js_pow options) dates s = Inr sim'" by (auto simp: result_bind_Inr_iff)
  note d = simulateDate_ok [OF Cons.prems(2) s(1)]
  from Cons.IH [OF s(2)] d show ?case by (auto simp: same_plan_def)
qed (simp add: same_plan_def)

lemma simulate_dates_ok:
  assumes "simulate_dates D js_pow options frames dates sim = Inr sim'" "run_ok sim"
  shows "run_ok sim' \<and> same_plan sim sim' \<and> sim_nextWindowIndex sim' = sim_nextWindowIndex sim \<and>
    sim_completedDays sim' = sim_completedDays sim + length dates"
proof -
  from assms(1) obtain rs s where
      s: "result_fold (simulateDate D js_pow options) dates (sim\<lparr>sim_runtimes := rs\<rparr>) = Inr s" "sim' = closeWindow s"
    by (auto simp: simulate_dates_def openWindow_def result_bind_Inr_iff result_map_Inr_iff Let_def split: if_splits)
  from simulated_dates_ok [OF s(1)] assms(2) show ?thesis
    by (simp add: s(2) closeWindow_def same_plan_def)
qed

lemma consumeWindow_ok:
  assumes "consumeWindow D js_pow options window frames sim = Inr sim'" "run_ok sim"
  shows "run_ok sim' \<and> same_plan sim sim' \<and> sim_nextWindowIndex sim' = Suc (sim_nextWindowIndex sim) \<and>
    sim_completedDays sim' = sim_completedDays sim + length (window_dates window)"
  using assms simulate_dates_ok [of js_pow options frames "window_dates window"
      "sim\<lparr>sim_nextWindowIndex := sim_nextWindowIndex sim + 1\<rparr>" sim']
  by (auto simp: consumeWindow_def Let_def same_plan_def split: if_splits)

lemma consumeWholePeriod_ok:
  assumes "consumeWholePeriod D js_pow options frames sim = Inr sim'" "run_ok sim"
  shows "run_ok sim' \<and> same_plan sim sim' \<and> sim_nextWindowIndex sim' = length (sim_windows sim') \<and>
    sim_completedDays sim' = sim_completedDays sim + length (sim_calendar sim)"
  using assms simulate_dates_ok [of js_pow options frames "sim_calendar sim"
      "sim\<lparr>sim_nextWindowIndex := length (sim_windows sim)\<rparr>" sim']
  by (auto simp: consumeWholePeriod_def Let_def same_plan_def split: if_splits)

text \<open>The report of a run whose last date has been simulated.\<close>

lemma finished_report:
  assumes "run_ok sim" "sim_completedDays sim = length (sim_calendar sim)" "sim_calendar sim \<noteq> []"
    and "finish D js_pow sim = Inr result"
  shows "result_positions result = [] \<and> summary_openPositions (result_summary result) = 0 \<and>
    summary_finalPositionsValue (result_summary result) = Fin 0 \<and>
    summary_unrealizedPnl (result_summary result) = Fin 0 \<and>
    summary_finalValue (result_summary result) = summary_finalCash (result_summary result) \<and>
    summary_finalCash (result_summary result) = sim_cash sim \<and>
    map equity_date (result_equity result) = sim_calendar sim \<and>
    map trade_sequence (result_trades result) = [1..<Suc (length (result_trades result))]"
proof -
  have empty: "sim_positions sim = []" using assms(1,2) by (simp add: run_ok_def)
  have "map equity_date (sim_equity sim) = sim_calendar sim" using assms(1,2) by (simp add: run_ok_def)
  moreover from this have "sim_equity sim \<noteq> []" using assms(3) by auto
  moreover have "map trade_sequence (sim_trades sim) = [1..<Suc (length (sim_trades sim))]"
    using assms(1) by (simp add: run_ok_def portfolio_ok_def)
  moreover have "finalPositions D (sim_positions sim) v = ([], MONEY_ZERO)" for v
    by (simp add: finalPositions_def sortedPositions_def empty)
  moreover have "moneyString D MONEY_ZERO = Fin 0"
    using moneyString_money [OF money_zero] by (simp add: MONEY_ZERO_def)
  ultimately show ?thesis
    using assms by (auto simp: finish_def Let_def run_ok_def split: if_splits)
qed

end

subsection \<open>A purchase never has to retreat\<close>

lemma round_half_up_below:
  assumes "at_scale n y" "x < y + 1 / (2 * 10 ^ n)" "0 \<le> x"
  shows "round_to n ROUND_HALF_UP x \<le> y"
proof (cases "x = 0")
  case True
  then show ?thesis
  proof -
    obtain k :: int where k: "y * 10 ^ n = of_int k" using assms(1) by (auto simp: at_scale_def)
    have "(0 :: rat) < (y + 1 / (2 * 10 ^ n)) * 10 ^ n" using assms(2) True by simp
    then have "0 < of_int k + (1 / 2 :: rat)" by (simp add: distrib_right k)
    then have "0 \<le> k" by linarith
    then have "0 \<le> y * 10 ^ n" by (simp add: k)
    then have "0 \<le> y" by (metis mult_neg_pos not_le zero_less_power zero_less_numeral)
    then show ?thesis using True by simp
  qed
next
  case False
  obtain k :: int where k: "y * 10 ^ n = of_int k" using assms(1) by (auto simp: at_scale_def)
  have "x * 10 ^ n < (y + 1 / (2 * 10 ^ n)) * 10 ^ n" using assms(2) by simp
  also have "\<dots> = of_int k + 1 / 2" by (simp add: distrib_right k)
  finally have "\<lfloor>x * 10 ^ n + 1 / 2\<rfloor> \<le> k" by linarith
  then have "of_int \<lfloor>x * 10 ^ n + 1 / 2\<rfloor> / 10 ^ n \<le> (of_int k / 10 ^ n :: rat)"
    by (simp add: divide_right_mono)
  also have "\<dots> = y" by (simp flip: k)
  finally show ?thesis using assms(3) False by (simp add: round_to.simps)
qed

lemma rounded50_upper: "rounded50 x r \<Longrightarrow> 0 \<le> x \<Longrightarrow> r \<le> x * (1 + 1 / 10 ^ 49)"
proof -
  assume "rounded50 x r" "0 \<le> x"
  then have "\<bar>r - x\<bar> \<le> x / 10 ^ 49" by (simp add: rounded50_def)
  then have "r \<le> x + x / 10 ^ 49" by linarith
  then show "r \<le> x * (1 + 1 / 10 ^ 49)" by (simp add: distrib_left)
qed

lemma two_roundings:
  assumes "0 < (x :: rat)" "0 \<le> m" "m < 10 ^ 40" "0 \<le> b" "b \<le> r"
    and "r \<le> m / x * (1 + 1 / 10 ^ 49)" "t \<le> b * x * (1 + 1 / 10 ^ 49)"
  shows "t < m + 1 / (2 * 10 ^ 6)"
proof -
  have "b * x \<le> m * (1 + 1 / 10 ^ 49)"
  proof -
    have "b * x \<le> m / x * (1 + 1 / 10 ^ 49) * x" using assms by (intro mult_right_mono) simp_all
    then show ?thesis using assms(1) by simp
  qed
  then have "b * x * (1 + 1 / 10 ^ 49) \<le> m * (1 + 1 / 10 ^ 49) * (1 + 1 / 10 ^ 49)"
    by (intro mult_right_mono) simp_all
  with assms(7) have "t \<le> m * ((1 + 1 / 10 ^ 49) * (1 + 1 / 10 ^ 49))" by (simp add: mult.assoc)
  also have "(1 + 1 / 10 ^ 49) * (1 + 1 / 10 ^ 49) \<le> (1 + 3 / 10 ^ 49 :: rat)" by simp
  finally have "t \<le> m * (1 + 3 / 10 ^ 49)" using assms(2) by (meson mult_left_mono order_trans)
  also have "\<dots> = m + m * (3 / 10 ^ 49)" by (simp add: distrib_left)
  also have "m * (3 / 10 ^ 49) \<le> 10 ^ 40 * (3 / 10 ^ 49)" using assms(3) by (intro mult_right_mono) simp_all
  also have "10 ^ 40 * (3 / 10 ^ 49) < (1 / (2 * 10 ^ 6) :: rat)" by simp
  finally show ?thesis by simp
qed

context decimal_library
begin

lemma first_estimate_affordable:
  assumes "money spend" "spend = Fin m" "m < 10 ^ 40" "0 < x"
  shows "\<exists>b t. quantizeSharesDown D (d_div D spend (Fin x)) = Fin b \<and> 0 \<le> b \<and>
    quantizeMoney D (d_times D (Fin b) (Fin x)) = Fin t \<and> t \<le> m"
proof -
  from assms(1,2) have m: "0 \<le> m" "at_scale 6 m" by (simp_all add: money_def)
  obtain r where r: "d_div D spend (Fin x) = Fin r" "rounded50 (m / x) r"
    using division [of x m] assms(2,4) by auto
  then have r0: "0 \<le> r" using rounded50_nonneg m(1) assms(4) by simp
  define b where "b = round_to 10 ROUND_DOWN r"
  have b: "0 \<le> b" "b \<le> r" using r0 by (simp_all add: b_def round_to_nonneg round_down_le)
  obtain t where t: "d_times D (Fin b) (Fin x) = Fin t" "rounded50 (b * x) t" using times by blast
  then have t0: "0 \<le> t" using rounded50_nonneg b(1) assms(4) by simp
  have "t < m + 1 / (2 * 10 ^ 6)"
    by (rule two_roundings [OF assms(4) m(1) assms(3) b])
      (use rounded50_upper [OF r(2)] rounded50_upper [OF t(2)] m(1) b(1) assms(4) in simp_all)
  from round_half_up_below [OF m(2) this t0] show ?thesis
    using b t r(1) by (simp add: b_def)
qed

lemma buy_order_estimate:
  assumes "money available" "available = Fin a" "a < 10 ^ 40" "money spend \<or> spend = NotANumber"
    and "\<not> d_gt D spend available" "price = Fin x" "0 \<le> x"
  defines "bought \<equiv> quantizeSharesDown D (d_div D spend price)"
  shows "buy_order D available spend price = Some (bought, quantizeMoney D (d_times D bought price))"
proof -
  have "\<not> (d_gt D (quantizeMoney D (d_times D bought price)) available \<and> d_gt D bought MONEY_ZERO)"
  proof (cases "spend \<noteq> NotANumber \<and> 0 < x")
    case True
    then obtain m where m: "money spend" "spend = Fin m" "m \<le> a"
      using assms(2,4,5) by (auto simp: money_def gt)
    with first_estimate_affordable [OF m(1,2), of x] True assms(3) obtain b t where
      "bought = Fin b" "quantizeMoney D (d_times D (Fin b) price) = Fin t" "t \<le> m"
      unfolding bought_def assms(6) by auto
    then show ?thesis using m(3) assms(2) by (simp add: gt)
  next
    case False
    then consider "spend = NotANumber" | "spend \<noteq> NotANumber" "price = Fin 0" using assms(6,7) by auto
    then show ?thesis
    proof cases
      case 1
      then show ?thesis by (simp add: bought_def div_nan quantizeSharesDown_def places_nan gt)
    next
      case 2
      then obtain m where "spend = Fin m" "0 \<le> m" using assms(4) by (auto simp: money_def)
      then show ?thesis
        by (auto simp: 2(2) bought_def div_zero quantizeSharesDown_def places_nan places_inf signed_infinity_def
            times_inf quantizeMoney_def gt)
    qed
  qed
  then show ?thesis
    unfolding buy_order_def Let_def bought_def [symmetric] by (subst retreat.simps) auto
qed

end

subsection \<open>A date returns\<close>

definition bounded_cash :: "simulation \<Rightarrow> bool" where
  "bounded_cash sim \<longleftrightarrow> (\<exists>a. sim_cash sim = Fin a \<and> a < 10 ^ 40)"

lemma bounded_cash_positions [simp]: "bounded_cash (sim\<lparr>sim_positions := ps\<rparr>) = bounded_cash sim"
  by (simp add: bounded_cash_def)

definition supported_definition :: "strategy_definition \<Rightarrow> bool" where
  "supported_definition definition \<longleftrightarrow>
     (\<forall>signal \<in> set (map level_signal (sellLevels definition) @ map rule_signal (final_exit_rules definition)).
        \<forall>p \<in> set (signal_predicates signal). supported_operator p)"

lemma evaluatePositionPredicate_total:
  "supported_operator p \<Longrightarrow> \<exists>v. evaluatePositionPredicate D ctx p = Inr v"
  by (cases p)
    (auto simp: evaluatePositionCondition_def evaluatePositionTrigger_def
      intro: evaluateConditionValues_total evaluateTriggerValues_total split: option.split)

lemma evaluatePositionSignal_total:
  "\<forall>p \<in> set (signal_predicates signal). supported_operator p \<Longrightarrow> \<exists>v. evaluatePositionSignal D ctx signal = Inr v"
  unfolding evaluatePositionSignal_def result_map_Inr_iff
  using result_all_total [of "filter (\<lambda>p. isPositionDependentMetric (predicate_metric p)) (signal_predicates signal)"
      "evaluatePositionPredicate D ctx"] evaluatePositionPredicate_total
  by auto

lemma result_fold_total:
  assumes "\<And>x s. x \<in> set xs \<Longrightarrow> I s \<Longrightarrow> \<exists>s'. f x s = Inr s' \<and> I s'"
  shows "I s \<Longrightarrow> \<exists>s'. result_fold f xs s = Inr s'"
  using assms
proof (induction xs arbitrary: s)
  case (Cons x xs)
  from Cons.prems(2) [OF _ Cons.prems(1), of x] obtain t where t: "f x s = Inr t" "I t" by auto
  then show ?case using Cons.IH [OF t(2)] Cons.prems(2) by auto
qed simp

context decimal_library
begin

lemma sell_levels_total:
  assumes "\<forall>level \<in> set levels. \<forall>p \<in> set (signal_predicates (level_signal level)). supported_operator p"
  shows "\<exists>sim'. sell_levels D date gates index close previousDate k levels sim = Inr sim'"
  using assms
proof (induction levels arbitrary: sim)
  case (Cons level levels)
  have "\<exists>v. evaluatePositionSignal D ctx (level_signal level) = Inr v" for ctx
    using Cons.prems by (intro evaluatePositionSignal_total) simp
  then show ?case using Cons by (auto simp: Let_def split: option.split sum.split) (metis Inr_not_Inl)+
qed simp

lemma exit_decision_total:
  assumes "supported_definition definition"
  shows "\<exists>v. exit_decision D definition gates index ctx = Inr v"
proof (cases "finalExit definition")
  case (Some exit)
  have "\<exists>v. (case p of (k, rule) \<Rightarrow> result_map (evaluabilityAnd (readGate (rule_gate gates k) index))
      (evaluatePositionSignal D ctx (rule_signal rule))) = Inr v"
    if "p \<in> set (List.enumerate 0 (exit_rules exit))" for p
  proof -
    have "snd p \<in> set (exit_rules exit)" using that by (auto simp: in_set_enumerate_eq intro: nth_mem dest!: sym [of _ "snd p"])
    then have "\<forall>q \<in> set (signal_predicates (rule_signal (snd p))). supported_operator q"
      using assms Some by (auto simp: supported_definition_def final_exit_rules_def)
    from evaluatePositionSignal_total [OF this, of D ctx] show ?thesis
      by (auto simp: case_prod_beta result_map_Inr_iff)
  qed
  then have "\<exists>vs. exit_rule_results D gates exit index ctx = Inr vs"
    unfolding exit_rule_results_def by (intro result_all_total) blast
  then show ?thesis by (auto simp: exit_decision_def Some strategy_result_def)
qed (simp add: exit_decision_def)

lemma exits_total:
  assumes "supported_definition (in_definition (sim_input sim))" "portfolio_ok sim"
  shows "\<exists>sim'. exits D date sim = Inr sim'"
  unfolding exits_def
proof (rule result_fold_total [where I = "\<lambda>s. portfolio_ok s \<and> sim_input s = sim_input sim"])
  fix k s
  assume s: "portfolio_ok s \<and> sim_input s = sim_input sim"
  have sell: "\<exists>s'. sell_levels D date gates index close previousDate k (sellLevels (in_definition (sim_input s))) s = Inr s'"
    for gates index close previousDate
    using assms(1) s by (intro sell_levels_total) (auto simp: supported_definition_def)
  have decide: "\<exists>v. exit_decision D (in_definition (sim_input s)) gates index ctx = Inr v" for gates index ctx
    using assms(1) s by (intro exit_decision_total) simp
  have "\<exists>s'. result_bind (exit_decision D (in_definition (sim_input s)) gates index ctx) (\<lambda>decision.
      case decision of
        Some (exit, ruleId) \<Rightarrow> Inr (f exit ruleId)
      | None \<Rightarrow> sell_levels D date gates index close previousDate k (sellLevels (in_definition (sim_input s))) s) = Inr s'"
    for gates index ctx close previousDate f
  proof -
    obtain v where "exit_decision D (in_definition (sim_input s)) gates index ctx = Inr v" using decide by blast
    then show ?thesis using sell by (cases v) auto
  qed
  then have "\<exists>s'. exit_position D date k s = Inr s'"
    by (simp add: exit_position_def Let_def split: option.split)
  then obtain s' where s': "exit_position D date k s = Inr s'" ..
  with exit_position_reach [OF s'] ledger_steps_ok s
  show "\<exists>s'. exit_position D date k s = Inr s' \<and> portfolio_ok s' \<and> sim_input s' = sim_input sim"
    by (metis same_run_def)
qed (use assms in simp)

lemma cash_after_purchase:
  assumes "money cash" "cash = Fin a" "a < 10 ^ 40" "money amount" "\<not> d_gt D amount cash"
  shows "\<exists>b. quantizeMoney D (d_minus D cash (buyCashOutflow D amount (V1_FEE D))) = Fin b \<and> b < 10 ^ 40"
proof -
  obtain y where y: "amount = Fin y" "0 \<le> y" "at_scale 6 y" "y \<le> a"
    using assms(2,4,5) by (auto simp: money_def gt)
  have a: "at_scale 6 a" using assms(1,2) by (simp add: money_def)
  have "\<bar>a - y\<bar> * 10 ^ 6 \<le> 10 ^ 40 * 10 ^ 6" using y assms(3) by (intro mult_right_mono) simp_all
  also have "\<dots> < (10 ^ 50 :: rat)" by simp
  finally have "d_minus D cash amount = Fin (a - y)"
    unfolding assms(2) y(1) by (rule minus_exact [OF a y(3)])
  then show ?thesis
    using y a assms(3) money_fee_neutral(1) [OF assms(4)] at_scale_diff [OF a y(3)]
    by (simp add: money_fee round_to_id)
qed

lemma buy_candidate_step_total:
  assumes "portfolio_ok sim" "bounded_cash sim"
  shows "\<exists>sim'. buy_candidate_step D date budget candidate sim = Inr sim' \<and> portfolio_ok sim' \<and> bounded_cash sim'"
proof -
  have m: "money (sim_cash sim)" using assms(1) by (rule portfolio_ok_money)
  then have available: "spendableAfterFees D (sim_cash sim) (V1_FEE D) = sim_cash sim"
    by (simp add: money_fee_neutral)
  obtain a where a: "sim_cash sim = Fin a" "a < 10 ^ 40" using assms(2) by (auto simp: bounded_cash_def)
  define spend where "spend known close = buy_spend D budget (candidate_percentage candidate) known close (sim_cash sim)"
    for known close
  have order: "\<exists>b t. buy_order D (sim_cash sim) (spend known (Fin c)) (quantizePrice D (d_of_number D (Fin c))) = Some (b, t) \<and>
      (d_gt D b MONEY_ZERO \<and> d_gt D t MONEY_ZERO \<longrightarrow> money t \<and> \<not> d_gt D t (sim_cash sim))"
    if c: "0 < c" for known c
  proof -
    obtain x where x: "quantizePrice D (d_of_number D (Fin c)) = Fin x" "0 \<le> x"
      using quantized_price [OF c] by metis
    have "\<not> d_gt D (spend known (Fin c)) (sim_cash sim)"
      unfolding spend_def buy_spend_def Let_def by (auto simp: gt)
    moreover have sp: "money (spend known (Fin c)) \<or> spend known (Fin c) = NotANumber"
      unfolding spend_def by (rule buy_spend_cases [OF m])
    ultimately have e: "buy_order D (sim_cash sim) (spend known (Fin c)) (quantizePrice D (d_of_number D (Fin c))) =
        Some (quantizeSharesDown D (d_div D (spend known (Fin c)) (quantizePrice D (d_of_number D (Fin c)))),
          quantizeMoney D (d_times D (quantizeSharesDown D
            (d_div D (spend known (Fin c)) (quantizePrice D (d_of_number D (Fin c)))))
            (quantizePrice D (d_of_number D (Fin c)))))"
      by (intro buy_order_estimate [OF m a _ _ x])
    show ?thesis using e buy_order_result [OF m sp x e] by blast
  qed
  have "\<exists>sim'. buy_candidate_step D date budget candidate sim = Inr sim' \<and> bounded_cash sim'"
  proof (cases "usable_close (frame_closes (runtime_frame (candidate_runtime candidate))) (candidate_frameIndex candidate)")
    case None
    then show ?thesis using assms(2) by (simp add: buy_candidate_step_def Let_def)
  next
    case (Some close)
    obtain c where c: "close = Fin c" "0 < c" using usable_close_positive [OF Some] by blast
    define sp where "sp = runtime_setup (candidate_runtime candidate)"
    define known where "known = map_of (sim_positions sim) (setup_securityId sp)"
    obtain b t where bt: "buy_order D (sim_cash sim) (spend known close) (quantizePrice D (d_of_number D close)) = Some (b, t)"
      "d_gt D b MONEY_ZERO \<Longrightarrow> d_gt D t MONEY_ZERO \<Longrightarrow> money t \<and> \<not> d_gt D t (sim_cash sim)"
      using order [OF c(2), of known] c(1) by auto
    have filled: "bounded_cash (fill_buy D date candidate close price b t p s)"
      if "d_gt D b MONEY_ZERO" "d_gt D t MONEY_ZERO" "sim_cash s = sim_cash sim" for price p s
      using cash_after_purchase [OF m a, of t] bt(2) [OF that(1,2)] that(3)
      by (simp add: bounded_cash_def fill_buy_def recordTrade_def Let_def a(1))
    obtain opened p where o: "open_position sim date sp close = (opened, p)" by fastforce
    then have "sim_cash opened = sim_cash sim" by (auto simp: open_position_def Let_def)
    then show ?thesis
      unfolding buy_candidate_step_def Let_def Some available spend_def [symmetric] sp_def [symmetric] known_def [symmetric]
      using assms(2) filled bt(1) by (cases known) (auto simp: o bounded_cash_positions)
  qed
  then show ?thesis
    using buy_candidate_step_reach ledger_steps_ok assms(1) by blast
qed

lemma entries_total:
  assumes "portfolio_ok sim" "bounded_cash sim"
  shows "\<exists>sim'. entries D date deposited openAtDayStart sim = Inr sim'"
  unfolding entries_def Let_def
  by (rule result_fold_total [where I = "\<lambda>s. portfolio_ok s \<and> bounded_cash s"])
    (use assms buy_candidate_step_total in auto)

end

context decimal_library
begin

lemma simulateDate_total:
  assumes "run_ok sim"
    and "sim_completedDays sim < length (sim_calendar sim)" "sim_calendar sim ! sim_completedDays sim = date"
    and "supported_definition (in_definition (sim_input sim))"
    and "\<And>exited. exits D date (opened_date D date sim) = Inr exited \<Longrightarrow> bounded_cash exited"
  shows "\<exists>sim'. simulateDate D js_pow options date sim = Inr sim'"
proof -
  have ok: "portfolio_ok (opened_date D date sim)"
    unfolding opened_date_def
    using assms(1) by (intro value_holdings_ok apply_contribution_ok contribution_on_cases) (auto simp: run_ok_def)
  have "sim_input (opened_date D date sim) = sim_input sim"
    using opened_date_place by (simp add: same_place_def)
  then obtain exited where exited: "exits D date (opened_date D date sim) = Inr exited"
    using exits_total [OF _ ok] assms(4) by auto
  have "portfolio_ok exited" using ledger_steps_ok exits_reach [OF exited ok] ok by blast
  from entries_total [OF this assms(5) [OF exited], of date "js_gt (contribution_on sim date) (Fin 0)"
      "js_keys (sim_positions (opened_date D date sim))"]
  obtain entered where "entries D date (js_gt (contribution_on sim date) (Fin 0))
      (js_keys (sim_positions (opened_date D date sim))) exited = Inr entered" ..
  with assms(2,3) exited show ?thesis by (simp add: simulateDate_def Let_def opened_date_def)
qed

end

subsection \<open>A run of one date\<close>

text \<open>One security, one buy level that holds at once; the run buys and liquidates on its only date.\<close>

definition example_definition :: strategy_definition where
  "example_definition =
     \<lparr>schemaVersion = 2,
      buyLevels = [\<lparr>level_id = ''b1'', level_signal = \<lparr>conditions =
          [\<lparr>condition_id = ''c1'', condition_metric = PRICE None, condition_operator = IS_ABOVE,
            condition_value = NUMBER (Fin 5)\<rparr>], trigger = None\<rparr>, percentage = 100\<rparr>],
      sellLevels = [\<lparr>level_id = ''s1'', level_signal = \<lparr>conditions =
          [\<lparr>condition_id = ''c2'', condition_metric = GAIN, condition_operator = IS_ABOVE,
            condition_value = PERCENT (Fin 15)\<rparr>], trigger = None\<rparr>, percentage = 50\<rparr>],
      finalExit = Some \<lparr>exit_id = ''x1'', exit_rules = [\<lparr>rule_id = ''r1'', rule_signal = \<lparr>conditions =
          [\<lparr>condition_id = ''c3'', condition_metric = LOSS, condition_operator = IS_ABOVE,
            condition_value = PERCENT (Fin 30)\<rparr>], trigger = None\<rparr>\<rparr>]\<rparr>\<rparr>"

definition example_securities :: "security_input list" where
  "example_securities =
     [\<lparr>security_frame = \<lparr>frame_security = ''s'', frame_symbol = ''S'', frame_name = ''N'',
         frame_dates = [''2020-12-30''], frame_closes = [Fin 10], frame_columns = [], periodStartIndex = 0\<rparr>,
       security_buyWindows = \<lparr>window_mode = FULL, window_ranges = []\<rparr>\<rparr>]"

definition example_input :: simulation_input where
  "example_input = \<lparr>in_definition = example_definition, in_securities = [], in_benchmark = None,
     in_executionCalendar = [''2020-12-30''], in_startDate = ''2020-12-01'', in_endDate = ''2020-12-31'',
     in_initialCapital = Fin 100, in_monthlyContribution = Fin 10, in_maximumPositions = Fin 1\<rparr>"

definition example_start :: simulation where
  "example_start =
     projr (new_BacktestSimulation decimal_js (example_input\<lparr>in_securities := map securitySetup example_securities\<rparr>))"

definition example_opened :: "nat \<Rightarrow> simulation" where
  "example_opened n =
     projr (openWindow (map security_frame example_securities) (example_start\<lparr>sim_nextWindowIndex := n\<rparr>))"

lemma example_start:
  "new_BacktestSimulation decimal_js (example_input\<lparr>in_securities := map securitySetup example_securities\<rparr>)
     = Inr example_start"
  "sim_positions example_start = []" "sim_calendar example_start = [''2020-12-30'']"
  "sim_contextRows example_start = []" "sim_contributionDates example_start = []" "sim_trades example_start = []"
  "sim_input example_start = example_input\<lparr>in_securities := map securitySetup example_securities\<rparr>"
  "sim_cash example_start = Fin 100"
proof -
  have cal: "buildExecutionCalendar ''2020-12-01'' ''2020-12-31'' [''2020-12-30''] = [''2020-12-30'']"
    "buildContributionDates [''2020-12-30''] = []" by code_simp+
  have cash: "quantizeMoney decimal_js (d_of_number decimal_js (Fin 100)) = Fin 100" by code_simp
  have input: "assertInput (example_input\<lparr>in_securities := map securitySetup example_securities\<rparr>) = None"
    by code_simp
  note facts = example_start_def new_BacktestSimulation_def input cal cash Let_def
  show "new_BacktestSimulation decimal_js (example_input\<lparr>in_securities := map securitySetup example_securities\<rparr>)
     = Inr example_start"
    using input by (simp add: facts example_input_def)
  show "sim_positions example_start = []" "sim_calendar example_start = [''2020-12-30'']"
    "sim_contextRows example_start = []" "sim_contributionDates example_start = []" "sim_trades example_start = []"
    "sim_input example_start = example_input\<lparr>in_securities := map securitySetup example_securities\<rparr>"
    "sim_cash example_start = Fin 100"
    using input by (simp_all add: facts example_input_def)
qed

lemma example_start_ok:
  "run_ok example_start" "sim_completedDays example_start = 0" "sim_nextWindowIndex example_start = 0"
  "sim_windows example_start = planExecutionWindows [''2020-12-30''] ''2020-12-01'' ''2020-12-31''"
  using js_decimals.new_simulation_ok [OF example_start(1)] by (simp_all add: example_start(3)) (simp add: example_input_def)

lemma example_opened:
  obtains rs where "example_opened n = example_start\<lparr>sim_nextWindowIndex := n, sim_runtimes := rs\<rparr>"
    "openWindow (map security_frame example_securities) (example_start\<lparr>sim_nextWindowIndex := n\<rparr>) = Inr (example_opened n)"
proof -
  have "\<not> isl (open_runtimes example_definition [] 0 (map securitySetup example_securities)
      (map security_frame example_securities))" by code_simp
  then obtain rs where "open_runtimes example_definition [] 0 (map securitySetup example_securities)
      (map security_frame example_securities) = Inr rs" by (metis sum.collapse(2))
  then have o: "openWindow (map security_frame example_securities) (example_start\<lparr>sim_nextWindowIndex := n\<rparr>) =
      Inr (example_start\<lparr>sim_nextWindowIndex := n, sim_runtimes := rs\<rparr>)"
    by (simp add: openWindow_def example_start example_input_def)
  show ?thesis
  proof (rule that)
    show eq: "example_opened n = example_start\<lparr>sim_nextWindowIndex := n, sim_runtimes := rs\<rparr>"
      by (simp only: example_opened_def o sum.sel)
    show "openWindow (map security_frame example_securities) (example_start\<lparr>sim_nextWindowIndex := n\<rparr>) = Inr (example_opened n)"
      by (simp only: o eq)
  qed
qed

lemma example_opened_window:
  "openWindow (map security_frame example_securities) (example_start\<lparr>sim_nextWindowIndex := n\<rparr>) = Inr (example_opened n)"
  by (rule example_opened [of n])

lemma example_opened_ok:
  "run_ok (example_opened n)" "sim_positions (example_opened n) = []"
  "sim_calendar (example_opened n) = [''2020-12-30'']" "sim_completedDays (example_opened n) = 0"
  "sim_cash (example_opened n) = Fin 100" "sim_trades (example_opened n) = []"
  "sim_nextWindowIndex (example_opened n) = n"
  "contribution_on (example_opened n) ''2020-12-30'' = Fin 0"
  "sim_input (example_opened n) = example_input\<lparr>in_securities := map securitySetup example_securities\<rparr>"
  by (rule example_opened [of n], simp add: example_start example_start_ok contribution_on_def Let_def)+

lemma example_exits:
  "supported_definition (in_definition (sim_input (example_opened n)))"
  "exits decimal_js ''2020-12-30'' (opened_date decimal_js ''2020-12-30'' (example_opened n)) = Inr exited
    \<Longrightarrow> bounded_cash exited"
proof -
  note e = example_opened_ok [of n]
  show "supported_definition (in_definition (sim_input (example_opened n)))"
    by (simp add: e example_input_def example_definition_def supported_definition_def final_exit_rules_def
        signal_predicates_def)
  have "exits decimal_js ''2020-12-30'' (opened_date decimal_js ''2020-12-30'' (example_opened n)) =
      Inr (opened_date decimal_js ''2020-12-30'' (example_opened n))"
    by (simp add: exits_def opened_date_def value_holdings_def apply_contribution_def e sortedPositions_def Let_def)
  moreover have "bounded_cash (opened_date decimal_js ''2020-12-30'' (example_opened n))"
    by (simp add: bounded_cash_def opened_date_def value_holdings_def apply_contribution_def e Let_def)
  ultimately show "exits decimal_js ''2020-12-30'' (opened_date decimal_js ''2020-12-30'' (example_opened n)) = Inr exited
      \<Longrightarrow> bounded_cash exited"
    by simp
qed

lemma example_date:
  obtains sim' where "simulateDate decimal_js js_pow options ''2020-12-30'' (example_opened n) = Inr sim'"
  using js_decimals.simulateDate_total [OF example_opened_ok(1) _ _ example_exits(1), of n "''2020-12-30''" js_pow options]
    example_opened_ok [of n] example_exits(2) that by auto

lemma example_dates:
  obtains sim' where "simulate_dates decimal_js js_pow options (map security_frame example_securities) [''2020-12-30'']
      (example_start\<lparr>sim_nextWindowIndex := n\<rparr>) = Inr sim'"
proof -
  obtain sim' where "simulateDate decimal_js js_pow options ''2020-12-30'' (example_opened n) = Inr sim'"
    by (rule example_date)
  then have "simulate_dates decimal_js js_pow options (map security_frame example_securities) [''2020-12-30'']
      (example_start\<lparr>sim_nextWindowIndex := n\<rparr>) = Inr (closeWindow sim')"
    by (simp add: simulate_dates_def example_opened_window)
  then show ?thesis by (rule that)
qed

end
