(* ===== verification/SimulationContract.thy ===== *)
theory SimulationContract
  imports SimulationInvariants
begin

section \<open>What the simulation promises\<close>

text \<open>
  The properties of the portfolio simulation: a date is a sequence of ledger steps, every step of a
  run keeps its invariant, the trade rows reconcile with the cash, a purchase is affordable at its
  first estimate, a date returns, and a completed run ends in cash.
\<close>

text \<open>
  C6. One simulated date refines the ledger: between the opened date (contribution applied, holdings
  valued) and the recorded one, the portfolio moves only by ledger steps, each of which sells what is
  held, buys within the cash in hand and the position slots, or settles buy levels; on the last date
  of the calendar no position is left.
\<close>

theorem simulated_date_refines_ledger:
  assumes "decimal_library D" "run_ok sim" "simulateDate D js_pow options date sim = Inr sim'"
  shows "\<exists>mid. (ledger_step D date)\<^sup>*\<^sup>* (opened_date D date sim) mid \<and> portfolio_ok mid \<and>
    (Suc (sim_completedDays sim) = length (sim_calendar sim) \<longrightarrow> sim_positions mid = []) \<and>
    sim' = record_day D js_pow options date (contribution_on sim date) (remember_returns D date mid)"
proof -
  have ok: "portfolio_ok sim" using assms(2) by (simp add: run_ok_def)
  obtain mid where "(ledger_step D date)\<^sup>*\<^sup>* (opened_date D date sim) mid"
    "sim_completedDays sim = length (sim_calendar sim) - 1 \<Longrightarrow> sim_positions mid = []"
    "sim' = record_day D js_pow options date (contribution_on sim date) (remember_returns D date mid)"
    "portfolio_ok (opened_date D date sim)"
    using decimal_library.simulateDate_parts [OF assms(1,3) ok] by metis
  then show ?thesis
    using decimal_library.ledger_steps_ok [OF assms(1)]
    by (intro exI [of _ mid]) auto
qed

theorem simulated_date_refines_ledger_witness:
  "\<exists>sim' mid. simulateDate decimal_js (\<lambda>x y. x) DEFAULT_OPTIONS ''2020-12-30'' (example_opened 0) = Inr sim' \<and>
     (ledger_step decimal_js ''2020-12-30'')\<^sup>*\<^sup>* (opened_date decimal_js ''2020-12-30'' (example_opened 0)) mid \<and>
     sim_positions mid = []"
proof -
  obtain sim' where sim': "simulateDate decimal_js (\<lambda>x y. x) DEFAULT_OPTIONS ''2020-12-30'' (example_opened 0) = Inr sim'"
    by (rule example_date)
  then show ?thesis
    using simulated_date_refines_ledger [OF js_decimals.decimal_library_axioms _ sim'] example_opened_ok [of 0] by auto
qed

text \<open>
  C7. The trade rows of a date reconcile with the ledger: each row carries the date, moves the cash by
  its amount (down for a purchase, up for a sale), reports what is left, and the last one leaves the
  cash of the next state, starting from the cash after the date's contribution.
\<close>

theorem trade_rows_reconcile:
  assumes "decimal_library D" "run_ok sim" "simulateDate D js_pow options date sim = Inr sim'"
  shows "\<exists>rows. sim_trades sim' = sim_trades sim @ rows \<and> (\<forall>row \<in> set rows. trade_date row = date) \<and>
    cash_trail D (sim_cash (apply_contribution D (contribution_on sim date) sim)) rows (sim_cash sim')"
  using decimal_library.simulateDate_ok [OF assms]
  by (auto simp: books_follow_def apply_contribution_def Let_def)

theorem trade_rows_reconcile_witness:
  "\<exists>sim' rows. simulateDate decimal_js (\<lambda>x y. x) DEFAULT_OPTIONS ''2020-12-30'' (example_opened 0) = Inr sim' \<and>
     sim_trades sim' = sim_trades (example_opened 0) @ rows \<and> cash_trail decimal_js (Fin 100) rows (sim_cash sim')"
proof -
  obtain sim' where sim': "simulateDate decimal_js (\<lambda>x y. x) DEFAULT_OPTIONS ''2020-12-30'' (example_opened 0) = Inr sim'"
    by (rule example_date)
  then show ?thesis
    using trade_rows_reconcile [OF js_decimals.decimal_library_axioms _ sim'] example_opened_ok [of 0]
    by (auto simp: apply_contribution_def)
qed

text \<open>
  C8. Consuming a window keeps the invariant of the run: cash is a non-negative amount, positions are
  keyed by their security, hold shares and fit the slots, trade rows are numbered from one, equity
  rows follow the calendar, and the cash baseline is the invested capital. The window is counted and
  the calendar advances by its dates.
\<close>

theorem window_keeps_invariant:
  assumes "decimal_library D" "run_ok sim"
    and "consumeWindow D js_pow options window frames sim = Inr sim'"
  shows "run_ok sim' \<and> sim_nextWindowIndex sim' = Suc (sim_nextWindowIndex sim) \<and>
    map equity_date (sim_equity sim') =
      take (sim_completedDays sim + length (window_dates window)) (sim_calendar sim)"
  using decimal_library.consumeWindow_ok [OF assms(1,3,2)] by (auto simp: run_ok_def same_plan_def)

theorem window_keeps_invariant_witness:
  "\<exists>sim'. consumeWindow decimal_js (\<lambda>x y. x) DEFAULT_OPTIONS (hd (sim_windows example_start))
       (map security_frame example_securities) example_start = Inr sim' \<and> map equity_date (sim_equity sim') = [''2020-12-30'']"
proof -
  have "map window_dates (planExecutionWindows [''2020-12-30''] ''2020-12-01'' ''2020-12-31'') = [[''2020-12-30'']]"
    by code_simp
  then obtain win where win: "sim_windows example_start = [win]" "window_dates win = [''2020-12-30'']"
    unfolding example_start_ok(4) [symmetric] by (auto simp: map_eq_Cons_conv)
  obtain sim' where "simulate_dates decimal_js (\<lambda>x y. x) DEFAULT_OPTIONS (map security_frame example_securities)
      [''2020-12-30''] (example_start\<lparr>sim_nextWindowIndex := 1\<rparr>) = Inr sim'"
    by (rule example_dates)
  then have c: "consumeWindow decimal_js (\<lambda>x y. x) DEFAULT_OPTIONS win (map security_frame example_securities)
      example_start = Inr sim'"
    by (simp add: consumeWindow_def win example_start_ok)
  show ?thesis
    using window_keeps_invariant [OF js_decimals.decimal_library_axioms example_start_ok(1) c]
      c win example_start_ok(2) example_start(3) by (intro exI [of _ sim']) simp
qed

text \<open>
  C5. A completed backtest ends in cash: whatever the strategy and the data, a run that returns has no
  open position, reports a zero positions value and a zero unrealized result, a final value equal to
  its final cash, one equity row per date of its execution calendar and consecutively numbered trades.
\<close>

theorem completed_backtest_ends_in_cash:
  assumes "decimal_library D" "simulateBacktest D js_pow options input securities = Inr result"
  shows "result_positions result = [] \<and> summary_openPositions (result_summary result) = 0 \<and>
    summary_finalPositionsValue (result_summary result) = Fin 0 \<and>
    summary_unrealizedPnl (result_summary result) = Fin 0 \<and>
    summary_finalValue (result_summary result) = summary_finalCash (result_summary result) \<and>
    map equity_date (result_equity result) =
      buildExecutionCalendar (in_startDate input) (in_endDate input) (in_executionCalendar input) \<and>
    map trade_sequence (result_trades result) = [1..<Suc (length (result_trades result))]"
proof -
  from assms(2) obtain start sim where
      start: "new_BacktestSimulation D (input\<lparr>in_securities := map securitySetup securities\<rparr>) = Inr start"
    and sim: "consumeWholePeriod D js_pow options (map security_frame securities) start = Inr sim"
    and result: "finish D js_pow sim = Inr result"
    by (auto simp: simulateBacktest_def result_bind_Inr_iff)
  note s = decimal_library.new_simulation_ok [OF assms(1) start]
  note c = decimal_library.consumeWholePeriod_ok [OF assms(1) sim s [THEN conjunct1]]
  have end_state: "run_ok sim" "sim_completedDays sim = length (sim_calendar sim)" "sim_calendar sim \<noteq> []"
    and calendar: "sim_calendar sim = buildExecutionCalendar (in_startDate input) (in_endDate input) (in_executionCalendar input)"
    using s c by (auto simp: same_plan_def)
  from decimal_library.finished_report [OF assms(1) end_state result] show ?thesis
    unfolding calendar by blast
qed

theorem completed_backtest_ends_in_cash_witness:
  "\<exists>result. simulateBacktest decimal_js (\<lambda>x y. x) DEFAULT_OPTIONS example_input example_securities = Inr result \<and>
     result_positions result = []"
proof -
  obtain sim where "simulate_dates decimal_js (\<lambda>x y. x) DEFAULT_OPTIONS (map security_frame example_securities)
      [''2020-12-30''] (example_start\<lparr>sim_nextWindowIndex := length (sim_windows example_start)\<rparr>) = Inr sim"
    by (rule example_dates)
  then have c: "consumeWholePeriod decimal_js (\<lambda>x y. x) DEFAULT_OPTIONS (map security_frame example_securities)
      example_start = Inr sim"
    by (simp add: consumeWholePeriod_def example_start_ok example_start)
  have "\<exists>result. finish decimal_js (\<lambda>x y. x) sim = Inr result"
    using js_decimals.consumeWholePeriod_ok [OF c example_start_ok(1)] unfolding finish_def Let_def
    by (auto split: prod.split)
  with c obtain result where "simulateBacktest decimal_js (\<lambda>x y. x) DEFAULT_OPTIONS example_input example_securities = Inr result"
    by (auto simp: simulateBacktest_def example_start(1))
  then show ?thesis
    using completed_backtest_ends_in_cash [OF js_decimals.decimal_library_axioms] by blast
qed

text \<open>
  C11. A purchase needs no retreat: while the cash is below \<open>10 ^ 40\<close>, the first estimate of the shares, the
  spend divided by the price and cut to the share scale, is affordable, so the defensive loop ends before
  its first iteration and the order is that estimate with its cost.
\<close>

theorem purchase_needs_no_retreat:
  assumes "decimal_library D" "money available" "available = Fin a" "a < 10 ^ 40" "0 < c"
  shows "let price = quantizePrice D (d_of_number D (Fin c));
      spend = buy_spend D budget most known (Fin c) available;
      bought = quantizeSharesDown D (d_div D spend price)
    in buy_order D available spend price = Some (bought, quantizeMoney D (d_times D bought price))"
proof -
  obtain x where x: "quantizePrice D (d_of_number D (Fin c)) = Fin x" "0 \<le> x"
    using decimal_library.quantized_price [OF assms(1,5)] by metis
  have "\<not> d_gt D (buy_spend D budget most known (Fin c) available) available"
    by (auto simp: buy_spend_def Let_def decimal_library.gt [OF assms(1)])
  from decimal_library.buy_order_estimate [OF assms(1-4) decimal_library.buy_spend_cases [OF assms(1,2)] this x]
  show ?thesis unfolding Let_def .
qed

theorem purchase_needs_no_retreat_witness:
  "let price = quantizePrice decimal_js (d_of_number decimal_js (Fin 3));
      spend = buy_spend decimal_js (Fin 100) 100 None (Fin 3) (Fin 80);
      bought = quantizeSharesDown decimal_js (d_div decimal_js spend price)
    in buy_order decimal_js (Fin 80) spend price = Some (bought, quantizeMoney decimal_js (d_times decimal_js bought price))"
proof (rule purchase_needs_no_retreat [OF js_decimals.decimal_library_axioms])
  have "quantizeMoney decimal_js (d_of_number decimal_js (Fin 80)) = Fin 80" by code_simp
  then show "money (Fin 80)" using js_decimals.money_number [of 80] by simp
qed (rule refl, simp_all)

text \<open>
  C10. A date returns: on the next date of the calendar, with predicates whose operators exist and less than
  \<open>10 ^ 40\<close> in cash once the exits are booked, \<open>simulateDate\<close> ends and produces a state.
\<close>

theorem simulated_date_returns:
  assumes "decimal_library D" "run_ok sim"
    and "sim_completedDays sim < length (sim_calendar sim)" "sim_calendar sim ! sim_completedDays sim = date"
    and "supported_definition (in_definition (sim_input sim))"
    and "\<forall>exited. exits D date (opened_date D date sim) = Inr exited \<longrightarrow> bounded_cash exited"
  shows "\<exists>sim'. simulateDate D js_pow options date sim = Inr sim' \<and>
    sim_completedDays sim' = Suc (sim_completedDays sim)"
proof -
  obtain sim' where sim': "simulateDate D js_pow options date sim = Inr sim'"
    using decimal_library.simulateDate_total [OF assms(1-5)] assms(6) by blast
  with decimal_library.simulateDate_ok [OF assms(1,2) sim'] show ?thesis by blast
qed

theorem simulated_date_returns_witness:
  "\<exists>sim'. simulateDate decimal_js (\<lambda>x y. x) DEFAULT_OPTIONS ''2020-12-30'' (example_opened 0) = Inr sim' \<and>
     sim_completedDays sim' = 1"
  using simulated_date_returns [OF js_decimals.decimal_library_axioms example_opened_ok(1) _ _ example_exits(1),
      of 0 "''2020-12-30''" "\<lambda>x y. x" DEFAULT_OPTIONS] example_exits(2) example_opened_ok [of 0]
  by simp

end
