(* ===== verification/SimulationObservation.thy ===== *)
theory SimulationObservation
  imports SimulationRun
begin

section \<open>Checkpoints observe and do not disturb\<close>

text \<open>
  Every phase of a date commutes with replacing the delivered checkpoints, so two runs that differ only in
  their checkpoint options go through states that agree on everything else, and report the same.
\<close>

abbreviation delivered :: "checkpoint list \<Rightarrow> simulation \<Rightarrow> simulation" where
  "delivered c \<equiv> sim_checkpoints_update (\<lambda>_. c)"

definition commutes :: "(simulation \<Rightarrow> simulation_error + simulation) \<Rightarrow> bool" where
  "commutes f \<longleftrightarrow> (\<forall>c sim. f (delivered c sim) = result_map (delivered c) (f sim))"

lemma commutesD: "commutes f \<Longrightarrow> f (delivered c sim) = result_map (delivered c) (f sim)"
  by (simp add: commutes_def)

lemma commutes_fold: "(\<And>x. commutes (f x)) \<Longrightarrow> commutes (result_fold f xs)"
proof (induction xs)
  case (Cons x xs)
  have f: "f x (delivered c sim) = result_map (delivered c) (f x sim)" for c sim
    by (rule commutesD [OF Cons.prems])
  have "result_fold f xs (delivered c sim) = result_map (delivered c) (result_fold f xs sim)" for c sim
    by (rule commutesD [OF Cons.IH [OF Cons.prems]])
  then show ?case unfolding commutes_def result_fold.simps f
    by (auto simp: result_map_def split: sum.split) (metis result_bind.simps sum.exhaust)
qed (simp add: commutes_def)

lemma delivered_trades [simp]:
  "recordTrade (delivered c sim) row = delivered c (recordTrade sim row)"
  "book_sale D sold price p (delivered c sim) =
     (case book_sale D sold price p sim of (p', sale, sim') \<Rightarrow> (p', sale, delivered c sim'))"
  "close_position D date action source levelId ruleId price p (delivered c sim) =
     delivered c (close_position D date action source levelId ruleId price p sim)"
  "sell_at_level D date level sold price p (delivered c sim) = delivered c (sell_at_level D date level sold price p sim)"
  "fill_buy D date candidate close price bought amount p (delivered c sim) =
     delivered c (fill_buy D date candidate close price bought amount p sim)"
  "liquidate_position D date (delivered c sim) k = delivered c (liquidate_position D date sim k)"
  by (simp_all add: recordTrade_def book_sale_def close_position_def sell_at_level_def fill_buy_def
      liquidate_position_def Let_def split: prod.splits option.split)

lemma delivered_updates [simp]:
  "(delivered c sim)\<lparr>sim_positions := ps\<rparr> = delivered c (sim\<lparr>sim_positions := ps\<rparr>)"
  "(delivered c sim)\<lparr>sim_runtimes := rs\<rparr> = delivered c (sim\<lparr>sim_runtimes := rs\<rparr>)"
  "(delivered c sim)\<lparr>sim_epochs := es\<rparr> = delivered c (sim\<lparr>sim_epochs := es\<rparr>)"
  "(delivered c sim)\<lparr>sim_contextRows := rows\<rparr> = delivered c (sim\<lparr>sim_contextRows := rows\<rparr>)"
  "(delivered c sim)\<lparr>sim_nextWindowIndex := n\<rparr> = delivered c (sim\<lparr>sim_nextWindowIndex := n\<rparr>)"
  by simp_all

lemma delivered_reads [simp]:
  "runtime_by_id (delivered c sim) k = runtime_by_id sim k"
  "mark_position (delivered c sim) = mark_position sim"
  "remember_position D (delivered c sim) = remember_position D sim"
  "contribution_on (delivered c sim) = contribution_on sim"
  "candidate_for (delivered c sim) = candidate_for sim"
  by (simp_all add: runtime_by_id_def mark_position_def [abs_def] remember_position_def [abs_def]
      contribution_on_def [abs_def] candidate_for_def Let_def fun_eq_iff)

lemma sell_levels_delivered:
  "sell_levels D date gates index close previousDate k levels (delivered c sim) =
     result_map (delivered c) (sell_levels D date gates index close previousDate k levels sim)"
  by (induction levels arbitrary: sim) (auto simp: Let_def split: option.split sum.split)

lemma exit_position_commutes: "commutes (exit_position D date k)"
proof -
  have "exit_position D date k (delivered c sim) = result_map (delivered c) (exit_position D date k sim)" for c sim
  proof (cases "map_of (sim_positions sim) k = None \<or> runtime_by_id sim k = None")
    case True
    then show ?thesis by (auto simp: exit_position_def split: option.split)
  next
    case False
    then obtain p r where pr: "map_of (sim_positions sim) k = Some p" "runtime_by_id sim k = Some r" by auto
    let ?close = "usable_close (frame_closes (runtime_frame r)) (frameIndexAt r date)"
    show ?thesis
    proof (cases ?close)
      case None
      then show ?thesis by (simp add: exit_position_def pr Let_def)
    next
      case (Some close)
      have "result_bind e (\<lambda>decision. case decision of
            Some (exit, ruleId) \<Rightarrow> Inr (delivered c (f exit ruleId))
          | None \<Rightarrow> result_map (delivered c) s) =
          result_map (delivered c) (result_bind e (\<lambda>decision. case decision of
            Some (exit, ruleId) \<Rightarrow> Inr (f exit ruleId)
          | None \<Rightarrow> s))"
        for e :: "simulation_error + (strategy_final_exit \<times> string option) option" and f and s :: "simulation_error + simulation"
        by (cases e) (auto split: option.split)
      then show ?thesis by (simp add: exit_position_def pr Let_def Some sell_levels_delivered)
    qed
  qed
  then show ?thesis by (simp add: commutes_def)
qed

lemma exits_delivered: "exits D date (delivered c sim) = result_map (delivered c) (exits D date sim)"
  by (simp add: exits_def commutesD [OF commutes_fold [of "exit_position D date", OF exit_position_commutes]])

lemma buy_candidate_step_commutes: "commutes (buy_candidate_step D date budget candidate)"
proof -
  have o: "open_position (delivered c sim) date sp close =
      (case open_position sim date sp close of (sim', p) \<Rightarrow> (delivered c sim', p))" for c sim sp close
    by (simp add: open_position_def Let_def)
  show ?thesis
    unfolding commutes_def buy_candidate_step_def Let_def
    by (auto simp: o split: option.split prod.split)
qed

lemma entries_delivered:
  "entries D date deposited opened (delivered c sim) = result_map (delivered c) (entries D date deposited opened sim)"
  by (simp add: entries_def Let_def
      commutesD [OF commutes_fold [of "buy_candidate_step D date _", OF buy_candidate_step_commutes]])

lemma phases_delivered:
  "apply_contribution D contribution (delivered c sim) = delivered c (apply_contribution D contribution sim)"
  "value_holdings date (delivered c sim) = delivered c (value_holdings date sim)"
  "remember_returns D date (delivered c sim) = delivered c (remember_returns D date sim)"
  "liquidateRemainingPositions D date (delivered c sim) = delivered c (liquidateRemainingPositions D date sim)"
proof -
  show "apply_contribution D contribution (delivered c sim) = delivered c (apply_contribution D contribution sim)"
    by (simp add: apply_contribution_def Let_def)
  show "value_holdings date (delivered c sim) = delivered c (value_holdings date sim)"
    by (simp add: value_holdings_def Let_def)
  show "remember_returns D date (delivered c sim) = delivered c (remember_returns D date sim)"
    by (simp add: remember_returns_def)
  have "foldl (liquidate_position D date) (delivered c s) ks = delivered c (foldl (liquidate_position D date) s ks)" for s ks
    by (induction ks arbitrary: s) simp_all
  then show "liquidateRemainingPositions D date (delivered c sim) = delivered c (liquidateRemainingPositions D date sim)"
    by (simp add: liquidateRemainingPositions_def)
qed

subsection \<open>The checkpoint options do not reach the result\<close>

text \<open>Two states that differ at most in what has been delivered.\<close>

definition same_but_delivered :: "simulation \<Rightarrow> simulation \<Rightarrow> bool" where
  "same_but_delivered sim sim' \<longleftrightarrow> (\<exists>c. sim' = delivered c sim)"

lemma record_equity_delivered:
  "record_equity D date contribution (delivered c sim) =
     (case record_equity D date contribution sim of (recorded, marks) \<Rightarrow> (delivered c recorded, marks))"
  by (cases sim) (simp add: record_equity_def Let_def split: prod.split option.split)

lemma deliver_checkpoint_observes: "\<exists>c. deliver_checkpoint D js_pow options date marks sim = delivered c sim"
  unfolding deliver_checkpoint_def Let_def
  by (cases "checkpoint_due options sim date") (auto intro: exI [of _ "sim_checkpoints sim"])

lemma record_day_delivered:
  "\<exists>c'. record_day D js_pow options' date contribution (delivered c sim) =
     delivered c' (record_day D js_pow options date contribution sim)"
proof -
  obtain recorded marks where r: "record_equity D date contribution sim = (recorded, marks)" by fastforce
  obtain a b where "deliver_checkpoint D js_pow options date marks recorded = delivered a recorded"
    "deliver_checkpoint D js_pow options' date marks (delivered c recorded) = delivered b (delivered c recorded)"
    using deliver_checkpoint_observes by metis
  then show ?thesis
    by (simp add: record_day_def record_equity_delivered r) (metis simulation.update_convs)
qed

lemma rel_bind_delivered:
  "(\<And>s. same_result Q (f s) (g (delivered c s))) \<Longrightarrow>
     same_result Q (result_bind r f) (result_bind (result_map (delivered c) r) g)"
  by (cases r) simp_all

lemma simulateDate_delivered:
  assumes "same_but_delivered sim sim'"
  shows "same_result same_but_delivered (simulateDate D js_pow options date sim) (simulateDate D js_pow options' date sim')"
proof -
  from assms obtain c where c: "sim' = delivered c sim" by (auto simp: same_but_delivered_def)
  have day: "same_but_delivered (record_day D js_pow options date k s) (record_day D js_pow options' date k (delivered c s))"
    for k s
    using record_day_delivered by (simp add: same_but_delivered_def)
  have "same_result same_but_delivered
      (result_bind (exits D date s) (\<lambda>exited. result_bind (entries D date b ks exited) (\<lambda>entered.
        Inr (record_day D js_pow options date k (remember_returns D date
          (if sim_completedDays entered = length (sim_calendar entered) - 1
           then liquidateRemainingPositions D date entered else entered))))))
      (result_bind (exits D date (delivered c s)) (\<lambda>exited. result_bind (entries D date b ks exited) (\<lambda>entered.
        Inr (record_day D js_pow options' date k (remember_returns D date
          (if sim_completedDays entered = length (sim_calendar entered) - 1
           then liquidateRemainingPositions D date entered else entered))))))" for s b ks k
    unfolding exits_delivered
    by (rule rel_bind_delivered, unfold entries_delivered, rule rel_bind_delivered)
      (simp add: phases_delivered day)
  then show ?thesis
    by (simp add: c simulateDate_def Let_def phases_delivered)
qed

lemma result_fold_delivered:
  assumes "same_but_delivered sim sim'"
  shows "same_result same_but_delivered (result_fold (simulateDate D js_pow options) dates sim)
    (result_fold (simulateDate D js_pow options') dates sim')"
  by (rule same_result_fold [where Q = "(=)" and R = same_but_delivered, OF _ _ assms]) (auto simp: list.rel_eq intro: simulateDate_delivered)

lemma simulate_dates_delivered:
  "same_result same_but_delivered (simulate_dates D js_pow options frames dates sim)
     (simulate_dates D js_pow options' frames dates sim)"
proof -
  have close: "same_but_delivered (closeWindow s) (closeWindow s')" if "same_but_delivered s s'" for s s'
    using that by (auto simp: same_but_delivered_def closeWindow_def)
  show ?thesis
  proof (cases "openWindow frames sim")
    case (Inr s)
    have "same_but_delivered s s" unfolding same_but_delivered_def by (intro exI [of _ "sim_checkpoints s"]) simp
    from result_fold_delivered [OF this, of D js_pow options dates options'] show ?thesis
      by (cases rule: rel_sum.cases) (simp_all add: simulate_dates_def Inr close)
  qed (simp add: simulate_dates_def)
qed


end
