(* ===== verification/WindowFrames.thy ===== *)
theory WindowFrames
  imports SimulationDay
begin

section \<open>What a window shows of a frame\<close>

text \<open>
  A window's frame holds the sessions up to the window's last date, starting with a context row when
  earlier sessions exist. This theory shows that the window shows the same sessions as the whole-period
  frame: the same close, the same previous session and the same gate readings on every date after the
  context row. A monotonic cursor over the sessions lands on the session of the date from any earlier
  position.
\<close>

subsection \<open>The session of a date\<close>

definition session_index :: "local_date list \<Rightarrow> local_date \<Rightarrow> int" where
  "session_index dates date = (if date \<in> set dates then int (dates_through dates date) - 1 else - 1)"

lemma dates_through_le: "dates_through dates date \<le> length dates"
  by (simp add: dates_through_def)

lemma session_index_nth:
  assumes "ascending dates" "i < length dates"
  shows "session_index dates (dates ! i) = int i"
proof -
  have "i < dates_through dates (dates ! i)" using dates_through_nth [OF assms, of "dates ! i"] by simp
  moreover have "\<not> i + 1 < dates_through dates (dates ! i)"
  proof
    assume a: "i + 1 < dates_through dates (dates ! i)"
    then have "i + 1 < length dates" using dates_through_le [of dates "dates ! i"] by simp
    with a have "dates ! (i + 1) \<le> dates ! i" using dates_through_nth [OF assms(1)] by blast
    then show False using ascending_nth_less [OF assms(1), of i "i + 1"] \<open>i + 1 < length dates\<close> by simp
  qed
  ultimately show ?thesis using assms(2) by (simp add: session_index_def)
qed

lemma session_index_cases:
  assumes "ascending dates"
  obtains (missing) "date \<notin> set dates" "session_index dates date = - 1"
  | (found) i where "i < length dates" "dates ! i = date" "session_index dates date = int i"
  by (metis session_index_def session_index_nth [OF assms] in_set_conv_nth)

lemma session_index_slice:
  assumes "ascending dates" "i < length dates" "m \<le> i" "i < b"
  shows "session_index (drop m (take b dates)) (dates ! i) = int (i - m)"
proof -
  have "ascending (drop m (take b dates))" using assms(1) by (simp add: sorted_wrt_drop sorted_wrt_take)
  moreover have "i - m < length (drop m (take b dates))" using assms(2-4) by simp
  moreover have "drop m (take b dates) ! (i - m) = dates ! i" using assms(2-4) by simp
  ultimately show ?thesis using session_index_nth by metis
qed

subsection \<open>A monotonic cursor\<close>

text \<open>The cursor starts at zero, so an empty prefix leaves it there.\<close>

definition cursor_ready :: "security_runtime \<Rightarrow> local_date \<Rightarrow> bool" where
  "cursor_ready runtime date \<longleftrightarrow>
     0 \<le> runtime_cursor runtime \<and>
     runtime_cursor runtime \<le> max 0 (int (dates_through (frame_dates (runtime_frame runtime)) date) - 1)"

lemma advance_from_zero:
  assumes "ascending dates" "0 \<le> position" "position \<le> max 0 (int (dates_through dates date) - 1)"
  shows "advance_while dates date position = max 0 (int (dates_through dates date) - 1)"
proof (cases "dates_through dates date = 0")
  case True
  then have p: "position = 0" using assms(2,3) by simp
  have "\<not> (1 < length dates \<and> dates ! 1 \<le> date)" using dates_through_nth [OF assms(1), of 1 date] True by auto
  then show ?thesis using True p by (subst advance_while.simps) auto
next
  case False
  then show ?thesis using advance_while_reaches [OF assms(1), of position date] assms(2,3) by simp
qed

definition advanced :: "local_date \<Rightarrow> security_runtime \<Rightarrow> security_runtime" where
  "advanced date runtime = runtime\<lparr>runtime_cursor := advanceCursor runtime date\<rparr>"

lemma advanced_cursor:
  assumes "ascending (frame_dates (runtime_frame runtime))" "cursor_ready runtime date"
  shows "runtime_cursor (advanced date runtime) =
    max 0 (int (dates_through (frame_dates (runtime_frame runtime)) date) - 1)"
  using assms advance_from_zero by (simp add: advanced_def advanceCursor_def cursor_ready_def)

lemma advanced_ready:
  assumes "ascending (frame_dates (runtime_frame runtime))" "cursor_ready runtime date" "date \<le> date'"
  shows "cursor_ready (advanced date runtime) date'"
  using advanced_cursor [OF assms(1,2)] dates_through_mono [OF assms(3), of "frame_dates (runtime_frame runtime)"]
  by (simp add: cursor_ready_def) (simp add: advanced_def)

lemma frameIndexAt_advanced:
  assumes "ascending (frame_dates (runtime_frame runtime))" "cursor_ready runtime date"
  shows "frameIndexAt (advanced date runtime) date = session_index (frame_dates (runtime_frame runtime)) date"
proof -
  let ?ds = "frame_dates (runtime_frame runtime)"
  let ?c = "max 0 (int (dates_through ?ds date) - 1)"
  have at: "frameIndexAt (advanced date runtime) date =
      (if ?c < int (length ?ds) \<and> ?ds ! nat ?c = date then ?c else - 1)"
    unfolding frameIndexAt_def advanced_cursor [OF assms] by (simp add: Let_def advanced_def)
  show ?thesis
  proof (cases rule: session_index_cases [OF assms(1), of date])
    case 1
    have "\<not> (?c < int (length ?ds) \<and> ?ds ! nat ?c = date)"
    proof
      assume a: "?c < int (length ?ds) \<and> ?ds ! nat ?c = date"
      then have "nat ?c < length ?ds" using nat_less_iff [of ?c "length ?ds"] by (simp only: max.cobounded1)
      then have "?ds ! nat ?c \<in> set ?ds" by (rule nth_mem)
      then show False using a 1(1) by simp
    qed
    then show ?thesis unfolding at 1(2) by (rule if_not_P)
  next
    case (2 i)
    then have "int (dates_through ?ds date) - 1 = int i" by (auto simp: session_index_def split: if_splits)
    then show ?thesis using at 2 by simp
  qed
qed

subsection \<open>Gates read alike\<close>

text \<open>From index \<open>lo\<close> on, one gate holds at \<open>k\<close> what the other holds at \<open>m + k\<close>.\<close>

definition gate_shift :: "nat \<Rightarrow> nat \<Rightarrow> nat \<Rightarrow> market_gate \<Rightarrow> market_gate \<Rightarrow> bool" where
  "gate_shift lo m n windowed whole \<longleftrightarrow>
     length windowed = n \<and> m + n \<le> length whole \<and> (\<forall>k. lo \<le> k \<longrightarrow> k < n \<longrightarrow> windowed ! k = whole ! (m + k))"

lemma readGate_shift:
  assumes "rel_option (gate_shift lo m n) g h" "lo \<le> k" "k < n"
  shows "readGate g (int k) = readGate h (int (m + k))"
  using assms by (cases rule: option.rel_cases) (auto simp: readGate_def gate_shift_def nat_add_distrib)

text \<open>The sessions from \<open>m\<close> up to \<open>b\<close> of a frame.\<close>

definition shown :: "nat \<Rightarrow> nat \<Rightarrow> evaluation_frame \<Rightarrow> evaluation_frame \<Rightarrow> bool" where
  "shown m b frame windowed \<longleftrightarrow>
     (\<exists>p. windowed = (slice_frame m (truncate_frame b frame))\<lparr>periodStartIndex := p\<rparr>)"

lemma truncate_frame_ok: "frame_ok frame \<Longrightarrow> frame_ok (truncate_frame n frame)"
  by (auto simp: frame_ok_def truncate_frame_def sorted_wrt_take)

lemma truncate_frame_dates [simp]: "frame_dates (truncate_frame n frame) = take n (frame_dates frame)"
  by (simp add: truncate_frame_def)

lemma shown_dates: "shown m b frame windowed \<Longrightarrow> frame_dates windowed = drop m (take b (frame_dates frame))"
  by (auto simp: shown_def)

lemma shown_closes: "shown m b frame windowed \<Longrightarrow> frame_closes windowed = drop m (take b (frame_closes frame))"
  by (auto simp: shown_def truncate_frame_def)

lemma evaluateMarketSignal_shown:
  assumes "frame_ok frame" "shown m b frame windowed" "m \<le> b" "b \<le> length (frame_dates frame)"
    and "1 \<le> k \<or> m = 0" "m + k < b"
  shows "evaluateMarketSignal signal windowed (int k) = evaluateMarketSignal signal frame (int (m + k))"
proof -
  have "evaluateMarketPredicate windowed (int k) = evaluateMarketPredicate frame (int (m + k))"
  proof
    fix q
    obtain p where w: "windowed = (slice_frame m (truncate_frame b frame))\<lparr>periodStartIndex := p\<rparr>"
      using assms(2) by (auto simp: shown_def)
    have "evaluateMarketPredicate windowed (int k) q = evaluateMarketPredicate (truncate_frame b frame) (int m + int k) q"
      unfolding w using assms(3-5)
      by (intro evaluateMarketPredicate_slice [OF truncate_frame_ok [OF assms(1)]]) auto
    also have "\<dots> = evaluateMarketPredicate frame (int m + int k) q"
      using assms(6) by (intro evaluateMarketPredicate_truncate) simp
    finally show "evaluateMarketPredicate windowed (int k) q = evaluateMarketPredicate frame (int (m + k)) q" by simp
  qed
  then show ?thesis by (simp add: evaluateMarketSignal_def)
qed

lemma buildMarketGate_shown:
  assumes "frame_ok frame" "shown m b frame windowed" "m \<le> b" "b \<le> length (frame_dates frame)"
    and "buildMarketGate signal windowed = Inr g" "buildMarketGate signal frame = Inr h"
  shows "gate_shift (if m = 0 then 0 else 1) m (b - m) g h"
proof -
  have len: "length g = b - m" "length h = length (frame_dates frame)"
    using assms(5,6) shown_dates [OF assms(2)] assms(4)
    by (auto simp: buildMarketGate_def dest!: result_all_length)
  have "g ! k = h ! (m + k)" if "(if m = 0 then 0 else 1) \<le> k" "k < b - m" for k
  proof -
    have "evaluateMarketSignal signal windowed (int k) = Inr (g ! k)"
      using gate_nth(2) [OF assms(5), of k] that(2) shown_dates [OF assms(2)] assms(4) by simp
    moreover have "evaluateMarketSignal signal frame (int (m + k)) = Inr (h ! (m + k))"
      using gate_nth(2) [OF assms(6), of "m + k"] that(2) assms(4) by simp
    ultimately show ?thesis
      using evaluateMarketSignal_shown [OF assms(1-4), of k signal] that by (auto split: if_splits)
  qed
  then show ?thesis using len assms(3,4) by (simp add: gate_shift_def)
qed


lemma level_gates_shown:
  assumes "frame_ok frame" "shown m b frame windowed" "m \<le> b" "b \<le> length (frame_dates frame)"
  shows "level_gates levels windowed g = Inr g' \<Longrightarrow> level_gates levels frame h = Inr h' \<Longrightarrow>
    (\<And>name. rel_option (gate_shift (if m = 0 then 0 else 1) m (b - m)) (map_of g name) (map_of h name)) \<Longrightarrow>
    rel_option (gate_shift (if m = 0 then 0 else 1) m (b - m)) (map_of g' name) (map_of h' name)"
proof (induction levels arbitrary: g h)
  case (Cons level levels)
  from Cons.prems(1,2) obtain u v where
    u: "buildMarketGate (level_signal level) windowed = Inr u" "level_gates levels windowed (js_map_set (level_id level) u g) = Inr g'" and
    v: "buildMarketGate (level_signal level) frame = Inr v" "level_gates levels frame (js_map_set (level_id level) v h) = Inr h'"
    by (auto simp: result_bind_Inr_iff)
  have uv: "gate_shift (if m = 0 then 0 else 1) m (b - m) u v" by (rule buildMarketGate_shown [OF assms u(1) v(1)])
  show ?case by (rule Cons.IH [OF u(2) v(2)]) (simp add: uv Cons.prems(3))
qed simp

lemma gates_shown:
  assumes "frame_ok frame" "shown m b frame windowed" "m \<le> b" "b \<le> length (frame_dates frame)"
    and "buildStrategyGates definition windowed = Inr g" "buildStrategyGates definition frame = Inr h"
  shows "rel_option (gate_shift (if m = 0 then 0 else 1) m (b - m)) (map_of (gate_buy g) name) (map_of (gate_buy h) name)"
    and "rel_option (gate_shift (if m = 0 then 0 else 1) m (b - m)) (map_of (gate_sell g) name) (map_of (gate_sell h) name)"
    and "rel_option (gate_shift (if m = 0 then 0 else 1) m (b - m)) (rule_gate g k) (rule_gate h k)"
proof -
  let ?rel = "gate_shift (if m = 0 then 0 else 1) m (b - m)"
  from assms(5,6) obtain gf hf where
    buy: "level_gates (buyLevels definition) windowed [] = Inr (gate_buy g)" "level_gates (buyLevels definition) frame [] = Inr (gate_buy h)" and
    sell: "level_gates (sellLevels definition) windowed [] = Inr (gate_sell g)" "level_gates (sellLevels definition) frame [] = Inr (gate_sell h)" and
    fin: "case finalExit definition of None \<Rightarrow> gate_finalExit g = None \<and> gate_finalExit h = None
      | Some exit \<Rightarrow> (\<exists>us vs. gate_finalExit g = Some us \<and> gate_finalExit h = Some vs \<and>
          result_all (\<lambda>rule. buildMarketGate (rule_signal rule) windowed) (exit_rules exit) = Inr us \<and>
          result_all (\<lambda>rule. buildMarketGate (rule_signal rule) frame) (exit_rules exit) = Inr vs)"
    by (cases "finalExit definition") (auto simp: buildStrategyGates_def result_bind_Inr_iff result_map_Inr_iff)
  note levels = level_gates_shown [OF assms(1-4)]
  show "rel_option ?rel (map_of (gate_buy g) name) (map_of (gate_buy h) name)" by (rule levels [OF buy]) simp
  show "rel_option ?rel (map_of (gate_sell g) name) (map_of (gate_sell h) name)" by (rule levels [OF sell]) simp
  show "rel_option ?rel (rule_gate g k) (rule_gate h k)"
  proof (cases "finalExit definition")
    case None
    then show ?thesis using fin by (simp add: rule_gate_def)
  next
    case (Some exit)
    with fin obtain us vs where f: "gate_finalExit g = Some us" "gate_finalExit h = Some vs" and
      us: "result_all (\<lambda>rule. buildMarketGate (rule_signal rule) windowed) (exit_rules exit) = Inr us" and
      vs: "result_all (\<lambda>rule. buildMarketGate (rule_signal rule) frame) (exit_rules exit) = Inr vs"
      by auto
    have len: "length us = length (exit_rules exit)" "length vs = length (exit_rules exit)"
      using us vs by (auto dest: result_all_length)
    have "?rel (us ! k) (vs ! k)" if "k < length (exit_rules exit)"
      by (rule buildMarketGate_shown [OF assms(1-4) result_all_nth [OF us that] result_all_nth [OF vs that]])
    then show ?thesis using len by (simp add: rule_gate_def f)
  qed
qed

subsection \<open>Supported strategies always build their gates\<close>

definition market_supported :: "strategy_definition \<Rightarrow> bool" where
  "market_supported definition \<longleftrightarrow>
     (\<forall>signal \<in> set (map level_signal (buyLevels definition) @ map level_signal (sellLevels definition)
          @ map rule_signal (final_exit_rules definition)).
        \<forall>p \<in> set (signal_predicates signal). isMarketDerivedPredicate p \<longrightarrow>
          supported_operator p \<and> (\<exists>key. metricOperand (predicate_metric p) = Inr key))"

lemma buildMarketGate_total:
  assumes "\<forall>p \<in> set (signal_predicates signal). isMarketDerivedPredicate p \<longrightarrow>
      supported_operator p \<and> (\<exists>key. metricOperand (predicate_metric p) = Inr key)"
  shows "\<exists>gate. buildMarketGate signal frame = Inr gate"
  unfolding buildMarketGate_def
proof (intro result_all_total ballI)
  fix index
  have "\<exists>vs. result_all (evaluateMarketPredicate frame (int index))
      (filter isMarketDerivedPredicate (signal_predicates signal)) = Inr vs"
    using assms by (intro result_all_total) (auto intro: evaluateMarketPredicate_total)
  then show "\<exists>v. evaluateMarketSignal signal frame (int index) = Inr v"
    by (auto simp: evaluateMarketSignal_def result_map_Inr_iff)
qed

lemma level_gates_total:
  "\<forall>level \<in> set levels. \<exists>gate. buildMarketGate (level_signal level) frame = Inr gate \<Longrightarrow>
     \<exists>gates'. level_gates levels frame gates = Inr gates'"
  by (induction levels arbitrary: gates) auto

lemma buildStrategyGates_total:
  assumes "market_supported definition"
  shows "\<exists>gates. buildStrategyGates definition frame = Inr gates"
proof -
  have gate: "\<exists>gate. buildMarketGate signal frame = Inr gate"
    if "signal \<in> set (map level_signal (buyLevels definition) @ map level_signal (sellLevels definition)
          @ map rule_signal (final_exit_rules definition))" for signal
    using assms that unfolding market_supported_def by (intro buildMarketGate_total) blast
  obtain buy sell where "level_gates (buyLevels definition) frame [] = Inr buy"
    "level_gates (sellLevels definition) frame [] = Inr sell"
    using level_gates_total [of "buyLevels definition"] level_gates_total [of "sellLevels definition"] gate
    by (auto simp: image_iff) metis
  moreover have "\<exists>gs. result_all (\<lambda>rule. buildMarketGate (rule_signal rule) frame) (exit_rules exit) = Inr gs"
    if "finalExit definition = Some exit" for exit
    using gate that by (intro result_all_total) (auto simp: final_exit_rules_def)
  ultimately show ?thesis
    by (cases "finalExit definition") (auto simp: buildStrategyGates_def result_bind_Inr_iff result_map_Inr_iff)
qed

end
