(* ===== verification/WindowEquivalence.thy ===== *)
theory WindowEquivalence
  imports WindowFrames SimulationRun
begin

section \<open>The year boundary is invisible\<close>

text \<open>
  Two runs of the same dates are compared: one over whole-period frames, one over the frames of the
  execution windows with the context rows the simulation carries between them. What a date reads of a
  runtime is its session view; runtimes with the same view drive every phase of \<open>simulateDate\<close> to the
  same state.
\<close>

subsection \<open>What a date sees of a runtime\<close>

definition session_view ::
  "local_date \<Rightarrow> security_runtime \<Rightarrow>
   (jsnum option \<times> local_date option \<times> (string \<Rightarrow> evaluability) \<times> (string \<Rightarrow> evaluability) \<times> (nat \<Rightarrow> evaluability)) option"
where
  "session_view date runtime =
     (let index = frameIndexAt runtime date; frame = runtime_frame runtime; gates = runtime_gates runtime
      in if index < 0 then None
         else Some
           (usable_close (frame_closes frame) index,
            if 0 < index then Some (frame_dates frame ! nat (index - 1)) else None,
            \<lambda>name. readGate (map_of (gate_buy gates) name) index,
            \<lambda>name. readGate (map_of (gate_sell gates) name) index,
            \<lambda>k. readGate (rule_gate gates k) index))"

definition seen_alike :: "local_date \<Rightarrow> security_runtime \<Rightarrow> security_runtime \<Rightarrow> bool" where
  "seen_alike date r w \<longleftrightarrow> runtime_setup r = runtime_setup w \<and> session_view date r = session_view date w"

lemma seen_alikeE:
  assumes "seen_alike date r w"
  obtains (missing) "runtime_setup r = runtime_setup w" "frameIndexAt r date < 0" "frameIndexAt w date < 0"
  | (session) "runtime_setup r = runtime_setup w" "\<not> frameIndexAt r date < 0" "\<not> frameIndexAt w date < 0"
      "usable_close (frame_closes (runtime_frame r)) (frameIndexAt r date) =
        usable_close (frame_closes (runtime_frame w)) (frameIndexAt w date)"
      "(if 0 < frameIndexAt r date then Some (frame_dates (runtime_frame r) ! nat (frameIndexAt r date - 1)) else None) =
        (if 0 < frameIndexAt w date then Some (frame_dates (runtime_frame w) ! nat (frameIndexAt w date - 1)) else None)"
      "\<And>name. readGate (map_of (gate_buy (runtime_gates r)) name) (frameIndexAt r date) =
        readGate (map_of (gate_buy (runtime_gates w)) name) (frameIndexAt w date)"
      "\<And>name. readGate (map_of (gate_sell (runtime_gates r)) name) (frameIndexAt r date) =
        readGate (map_of (gate_sell (runtime_gates w)) name) (frameIndexAt w date)"
      "\<And>k. readGate (rule_gate (runtime_gates r) k) (frameIndexAt r date) =
        readGate (rule_gate (runtime_gates w) k) (frameIndexAt w date)"
proof (cases "frameIndexAt r date < 0")
  case True
  then have "frameIndexAt w date < 0" using assms by (auto simp: seen_alike_def session_view_def Let_def split: if_splits)
  then show ?thesis using True assms by (intro missing) (auto simp: seen_alike_def)
next
  case False
  then have w: "\<not> frameIndexAt w date < 0"
    using assms by (auto simp: seen_alike_def session_view_def Let_def split: if_splits)
  from assms have owner: "runtime_setup r = runtime_setup w" and view: "session_view date r = session_view date w"
    by (simp_all add: seen_alike_def)
  note v = view [unfolded session_view_def Let_def if_not_P [OF False] if_not_P [OF w] option.inject prod.inject]
  show ?thesis by (rule session [OF owner False w]) (use v in \<open>simp_all add: fun_eq_iff\<close>)
qed

lemma seen_alike_setup: "seen_alike date r w \<Longrightarrow> runtime_setup r = runtime_setup w"
  by (simp add: seen_alike_def)

lemma closeAt_alike: "seen_alike date r w \<Longrightarrow> closeAt r date = closeAt w date"
  by (erule seen_alikeE) (simp_all add: closeAt_def)

lemma rel_map_of:
  "list_all2 (\<lambda>p q. fst p = fst q \<and> R (snd p) (snd q)) xs ys \<Longrightarrow> rel_option R (map_of xs k) (map_of ys k)"
  by (induction rule: list_all2_induct) auto

subsection \<open>Twin states\<close>

abbreviation with_runtimes ::
  "security_runtime list \<Rightarrow> (security_id \<times> context_row) list \<Rightarrow> nat \<Rightarrow> simulation \<Rightarrow> simulation" where
  "with_runtimes rs c n sim \<equiv> sim\<lparr>sim_contextRows := c, sim_nextWindowIndex := n, sim_runtimes := rs\<rparr>"

definition twins ::
  "security_runtime list \<Rightarrow> security_runtime list \<Rightarrow> (security_id \<times> context_row) list \<Rightarrow> nat
   \<Rightarrow> simulation \<Rightarrow> simulation \<Rightarrow> bool"
where
  "twins rs ws c n sim twin \<longleftrightarrow> sim_runtimes sim = rs \<and> twin = with_runtimes ws c n sim"

lemma twins_trades [simp]:
  "recordTrade (with_runtimes ws c n sim) row = with_runtimes ws c n (recordTrade sim row)"
  "book_sale D sold price p (with_runtimes ws c n sim) =
     (case book_sale D sold price p sim of (p', sale, sim') \<Rightarrow> (p', sale, with_runtimes ws c n sim'))"
  "close_position D date action source levelId ruleId price p (with_runtimes ws c n sim) =
     with_runtimes ws c n (close_position D date action source levelId ruleId price p sim)"
  "sell_at_level D date level sold price p (with_runtimes ws c n sim) =
     with_runtimes ws c n (sell_at_level D date level sold price p sim)"
  "fill_buy D date candidate close price bought amount p (with_runtimes ws c n sim) =
     with_runtimes ws c n (fill_buy D date candidate close price bought amount p sim)"
  "liquidate_position D date (with_runtimes ws c n sim) k = with_runtimes ws c n (liquidate_position D date sim k)"
  by (simp_all add: recordTrade_def book_sale_def close_position_def sell_at_level_def fill_buy_def
      liquidate_position_def Let_def split: prod.splits option.split)

lemma kept_runtimes [simp]:
  "sim_runtimes (recordTrade sim row) = sim_runtimes sim"
  "sim_runtimes (close_position D date action source levelId ruleId price p sim) = sim_runtimes sim"
  "sim_runtimes (sell_at_level D date level sold price p sim) = sim_runtimes sim"
  "sim_runtimes (fill_buy D date candidate close price bought amount p sim) = sim_runtimes sim"
  "sim_runtimes (liquidate_position D date sim k) = sim_runtimes sim"
  "sim_runtimes (apply_contribution D contribution sim) = sim_runtimes sim"
  by (simp_all add: recordTrade_def book_sale_def close_position_def sell_at_level_def fill_buy_def
      liquidate_position_def apply_contribution_def Let_def split: prod.splits option.split)

lemma sell_levels_twins:
  assumes "\<And>name. readGate (map_of (gate_sell g) name) i = readGate (map_of (gate_sell h) name) j"
    and "twins rs ws c n sim twin"
  shows "same_result (twins rs ws c n) (sell_levels D date g i close previousDate k levels sim)
    (sell_levels D date h j close previousDate k levels twin)"
  using assms(2)
proof (induction levels arbitrary: sim twin)
  case (Cons level levels)
  from Cons.prems have t: "twin = with_runtimes ws c n sim" and rs: "sim_runtimes sim = rs" by (simp_all add: twins_def)
  have same: "twins rs ws c n sim twin" by (rule Cons.prems)
  have sold: "twins rs ws c n (sell_at_level D date level sold price p sim) (sell_at_level D date level sold price p twin)"
    for sold price p by (simp add: twins_def t rs)
  show ?case
  proof (cases "map_of (sim_positions sim) k")
    case None
    then show ?thesis using same by (simp add: t)
  next
    case (Some p)
    show ?thesis
      using Cons.IH [OF same] Cons.IH [OF sold]
      by (simp add: t Some Let_def assms(1) split: sum.split)
  qed
qed simp

lemma exit_decision_alike:
  assumes "\<And>k. readGate (rule_gate g k) i = readGate (rule_gate h k) j"
  shows "exit_decision D definition g i ctx = exit_decision D definition h j ctx"
proof -
  have "exit_rule_results D g exit i ctx = exit_rule_results D h exit j ctx" for exit
    unfolding exit_rule_results_def by (simp add: assms)
  then show ?thesis unfolding exit_decision_def by (cases "finalExit definition") simp_all
qed

lemma runtime_by_id_alike:
  assumes "list_all2 (seen_alike date) rs ws" "twins rs ws c n sim twin"
  shows "rel_option (seen_alike date) (runtime_by_id sim k) (runtime_by_id twin k)"
proof -
  have "list_all2 (\<lambda>p q. fst p = fst q \<and> seen_alike date (snd p) (snd q))
      (rev (map (\<lambda>r. (setup_securityId (runtime_setup r), r)) rs)) (rev (map (\<lambda>r. (setup_securityId (runtime_setup r), r)) ws))"
    using assms(1) by (auto simp: list_all2_map1 list_all2_map2 seen_alike_setup elim!: list_all2_mono)
  from rel_map_of [OF this, of k] show ?thesis
    using assms(2) by (auto simp: runtime_by_id_def twins_def)
qed

lemma exit_position_twins:
  assumes alike: "list_all2 (seen_alike date) rs ws" and same: "twins rs ws c n sim twin"
  shows "same_result (twins rs ws c n) (exit_position D date k sim) (exit_position D date k twin)"
proof (cases "map_of (sim_positions sim) k")
  case None
  then show ?thesis using same by (simp add: exit_position_def twins_def)
next
  case (Some p)
  from same have t: "twin = with_runtimes ws c n sim" and rs: "sim_runtimes sim = rs" by (simp_all add: twins_def)
  have p: "map_of (sim_positions twin) k = Some p" "sim_input twin = sim_input sim" using Some by (simp_all add: t)
  from runtime_by_id_alike [OF alike same, of k] show ?thesis
  proof (cases rule: option.rel_cases)
    case None
    then show ?thesis using same by (simp add: exit_position_def Some p)
  next
    case r: (Some r w)
    from r(3) show ?thesis
    proof (cases rule: seen_alikeE)
      case missing
      then show ?thesis using same by (simp add: exit_position_def Some p r(1,2) Let_def)
    next
      case session
      show ?thesis
      proof (cases "usable_close (frame_closes (runtime_frame w)) (frameIndexAt w date)")
        case None
        then show ?thesis using same session(2-4) by (simp add: exit_position_def Some p r(1,2) Let_def)
      next
        case close: (Some close)
        note levels = sell_levels_twins [OF session(7) same]
        have closed: "twins rs ws c n (close_position D date FINAL_EXIT STRATEGY levelId ruleId price p sim)
            (close_position D date FINAL_EXIT STRATEGY levelId ruleId price p twin)" for levelId ruleId price
          by (simp add: twins_def t rs)
        show ?thesis
          unfolding exit_position_def Some p r(1,2) Let_def option.case prod.case session(4,5) close
            exit_decision_alike [where g = "runtime_gates r" and h = "runtime_gates w", OF session(8)]
            if_not_P [OF session(2)] if_not_P [OF session(3)]
          by (rule same_result_bind [where R = "(=)"])
            (auto simp: sum.rel_eq levels closed split: option.split)
      qed
    qed
  qed
qed


lemma exits_twins:
  assumes "list_all2 (seen_alike date) rs ws" "twins rs ws c n sim twin"
  shows "same_result (twins rs ws c n) (exits D date sim) (exits D date twin)"
proof -
  have "sortedPositions (sim_positions twin) = sortedPositions (sim_positions sim)"
    using assms(2) by (simp add: twins_def)
  then show ?thesis
    unfolding exits_def
    by (simp add: same_result_fold [where Q = "(=)" and R = "twins rs ws c n", OF _ _ assms(2)]
        list.rel_eq exit_position_twins [OF assms(1)])
qed

text \<open>Two candidates that order alike and buy alike.\<close>

definition candidates_alike :: "buy_candidate \<Rightarrow> buy_candidate \<Rightarrow> bool" where
  "candidates_alike x y \<longleftrightarrow>
     runtime_setup (candidate_runtime x) = runtime_setup (candidate_runtime y) \<and>
     usable_close (frame_closes (runtime_frame (candidate_runtime x))) (candidate_frameIndex x) =
       usable_close (frame_closes (runtime_frame (candidate_runtime y))) (candidate_frameIndex y) \<and>
     candidate_levelId x = candidate_levelId y \<and> candidate_percentage x = candidate_percentage y \<and>
     candidate_isTopUp x = candidate_isTopUp y \<and>
     candidate_isContributionTopUp x = candidate_isContributionTopUp y"

lemma candidate_for_alike:
  assumes "seen_alike date r w" "twins rs ws c n sim twin"
  shows "rel_option candidates_alike (candidate_for sim date deposited opened r) (candidate_for twin date deposited opened w)"
  using assms(1)
proof (cases rule: seen_alikeE)
  case missing
  then show ?thesis by (simp add: candidate_for_def)
next
  case session
  have same: "sim_positions twin = sim_positions sim" "sim_input twin = sim_input sim" using assms(2) by (simp_all add: twins_def)
  have best: "better_level (runtime_gates r) (frameIndexAt r date) p deposited =
      better_level (runtime_gates w) (frameIndexAt w date) p deposited" for p
    by (intro ext) (simp add: better_level_def Let_def session(6))
  show ?thesis
    using session(2-4)
    by (auto simp: candidate_for_def Let_def same session(1) best candidates_alike_def option.rel_map
        intro!: option.rel_refl)
qed

lemma map_filter_alike:
  assumes "\<And>x y. Q x y \<Longrightarrow> rel_option R (f x) (g y)"
  shows "list_all2 Q xs ys \<Longrightarrow> list_all2 R (List.map_filter f xs) (List.map_filter g ys)"
proof (induction rule: list_all2_induct)
  case (Cons x xs y ys)
  from assms [OF Cons.hyps(1)] Cons.IH show ?case
    by (cases rule: option.rel_cases) (simp_all add: List.map_filter_simps)
qed (simp add: List.map_filter_simps)

lemma js_sort_alike:
  assumes "\<And>x y u v. R x y \<Longrightarrow> R u v \<Longrightarrow> cmp x u = cmp' y v"
  shows "list_all2 R xs ys \<Longrightarrow> list_all2 R (js_sort cmp xs) (js_sort cmp' ys)"
proof (induction rule: list_all2_induct)
  case (Cons x xs y ys)
  have "list_all2 R us vs \<Longrightarrow> list_all2 R (js_insert cmp x us) (js_insert cmp' y vs)" for us vs
    by (induction rule: list_all2_induct) (use Cons.hyps(1) assms in auto)
  then show ?case using Cons.IH by simp
qed simp

lemma open_position_twins:
  "open_position (with_runtimes ws c n sim) date sp close =
     (case open_position sim date sp close of (sim', p) \<Rightarrow> (with_runtimes ws c n sim', p))"
  "sim_runtimes (fst (open_position sim date sp close)) = sim_runtimes sim"
  by (simp_all add: open_position_def Let_def)

lemma buy_candidate_step_twins:
  assumes "candidates_alike x y" "twins rs ws c n sim twin"
  shows "same_result (twins rs ws c n) (buy_candidate_step D date budget x sim) (buy_candidate_step D date budget y twin)"
proof -
  from assms(2) have t: "twin = with_runtimes ws c n sim" and rs: "sim_runtimes sim = rs" by (simp_all add: twins_def)
  from assms(1) have c: "runtime_setup (candidate_runtime x) = runtime_setup (candidate_runtime y)"
      "usable_close (frame_closes (runtime_frame (candidate_runtime x))) (candidate_frameIndex x) =
        usable_close (frame_closes (runtime_frame (candidate_runtime y))) (candidate_frameIndex y)"
      "candidate_levelId x = candidate_levelId y" "candidate_percentage x = candidate_percentage y"
      "candidate_isTopUp x = candidate_isTopUp y"
      "candidate_isContributionTopUp x = candidate_isContributionTopUp y"
    by (simp_all add: candidates_alike_def)
  have fill: "fill_buy D date x close price bought amount p = fill_buy D date y close price bought amount p"
    for close price bought amount p
    by (simp add: fill_buy_def fun_eq_iff c)
  have same: "twins rs ws c n s (with_runtimes ws c n s)" if "sim_runtimes s = rs" for s
    using that by (simp add: twins_def)
  have updates: "with_runtimes ws c n s\<lparr>sim_positions := ps\<rparr> = with_runtimes ws c n (s\<lparr>sim_positions := ps\<rparr>)" for s ps
    by simp
  note opened = open_position_twins(2) [of sim date "runtime_setup (candidate_runtime y)"]
  show ?thesis
    unfolding buy_candidate_step_def Let_def c t fill
    using opened
    by (auto simp: open_position_twins(1) twins_def rs split: option.split prod.split)
      (metis fst_conv)+
qed

lemma entries_twins:
  assumes "list_all2 (seen_alike date) rs ws" "twins rs ws c n sim twin"
  shows "same_result (twins rs ws c n) (entries D date deposited opened sim) (entries D date deposited opened twin)"
proof -
  from assms(2) have t: "twin = with_runtimes ws c n sim" and rs: "sim_runtimes sim = rs" by (simp_all add: twins_def)
  let ?cs = "List.map_filter (candidate_for sim date deposited opened) rs"
  let ?cs' = "List.map_filter (candidate_for twin date deposited opened) ws"
  have "list_all2 candidates_alike ?cs ?cs'"
    by (rule map_filter_alike [OF _ assms(1)]) (rule candidate_for_alike [OF _ assms(2)])
  then have "list_all2 candidates_alike (js_sort compareCandidates ?cs) (js_sort compareCandidates ?cs')"
    by (rule js_sort_alike [rotated]) (simp add: compareCandidates_def candidates_alike_def Let_def)
  from same_result_fold [OF buy_candidate_step_twins this assms(2)]
  show ?thesis by (simp add: entries_def Let_def t rs)
qed

lemma phases_twins:
  assumes "list_all2 (seen_alike date) rs ws" "twins rs ws c n sim twin"
  shows "twins rs ws c n (remember_returns D date sim) (remember_returns D date twin)"
    and "twins rs ws c n (liquidateRemainingPositions D date sim) (liquidateRemainingPositions D date twin)"
proof -
  from assms(2) have t: "twin = with_runtimes ws c n sim" and rs: "sim_runtimes sim = rs" by (simp_all add: twins_def)
  have "remember_position D twin date p = remember_position D sim date p" for p
    using runtime_by_id_alike [OF assms, of "pos_securityId p"]
    by (cases rule: option.rel_cases) (simp_all add: remember_position_def closeAt_alike)
  then show "twins rs ws c n (remember_returns D date sim) (remember_returns D date twin)"
    by (simp add: twins_def remember_returns_def t rs)
  have "foldl (liquidate_position D date) (with_runtimes ws c n s) ks =
      with_runtimes ws c n (foldl (liquidate_position D date) s ks)"
    "sim_runtimes (foldl (liquidate_position D date) s ks) = sim_runtimes s" for s ks
    by (induction ks arbitrary: s) simp_all
  then show "twins rs ws c n (liquidateRemainingPositions D date sim) (liquidateRemainingPositions D date twin)"
    by (simp add: twins_def liquidateRemainingPositions_def t rs)
qed

lemma value_holdings_twins:
  assumes "list_all2 (seen_alike date) (map (advanced date) rs) (map (advanced date) ws)" "twins rs ws c n sim twin"
  shows "twins (map (advanced date) rs) (map (advanced date) ws) c n (value_holdings date sim) (value_holdings date twin)"
proof -
  from assms(2) have t: "twin = with_runtimes ws c n sim" and rs: "sim_runtimes sim = rs" by (simp_all add: twins_def)
  let ?s = "sim\<lparr>sim_runtimes := map (advanced date) rs\<rparr>"
  let ?t = "with_runtimes (map (advanced date) ws) c n sim"
  have valued: "twins (map (advanced date) rs) (map (advanced date) ws) c n ?s ?t" by (simp add: twins_def)
  have "mark_position ?t date p = mark_position ?s date p" for p
    using runtime_by_id_alike [OF assms(1) valued, of "pos_securityId p"]
    by (cases rule: option.rel_cases) (simp_all add: mark_position_def closeAt_alike)
  moreover have "(\<lambda>r. r\<lparr>runtime_cursor := advanceCursor r date\<rparr>) = advanced date"
    by (simp add: advanced_def fun_eq_iff)
  ultimately show ?thesis by (simp add: value_holdings_def Let_def twins_def t rs)
qed

lemma record_day_twins:
  assumes "twins rs ws c n sim twin"
  shows "twins rs ws c n (record_day D js_pow options date contribution sim) (record_day D js_pow options date contribution twin)"
proof -
  from assms have t: "twin = with_runtimes ws c n sim" and rs: "sim_runtimes sim = rs" by (simp_all add: twins_def)
  obtain recorded marks where r: "record_equity D date contribution sim = (recorded, marks)" by fastforce
  have e: "record_equity D date contribution (with_runtimes ws c n sim) = (with_runtimes ws c n recorded, marks)"
    "sim_runtimes recorded = rs"
    using r rs by (auto simp: record_equity_def Let_def split: prod.splits option.splits)
  have "checkpoint_due options (with_runtimes ws c n s) = checkpoint_due options s"
    "buildCheckpoint D js_pow options (with_runtimes ws c n s) = buildCheckpoint D js_pow options s" for s
    by (simp_all add: checkpoint_due_def buildCheckpoint_def Let_def fun_eq_iff)
  then show ?thesis
    by (simp add: twins_def t record_day_def r e deliver_checkpoint_def split: prod.split)
qed

lemma simulateDate_twins:
  assumes alike: "list_all2 (seen_alike date) (map (advanced date) rs) (map (advanced date) ws)"
    and same: "twins rs ws c n sim twin"
  shows "same_result (twins (map (advanced date) rs) (map (advanced date) ws) c n)
    (simulateDate D js_pow options date sim) (simulateDate D js_pow options date twin)"
proof (cases "sim_completedDays sim < length (sim_calendar sim) \<and> sim_calendar sim ! sim_completedDays sim = date")
  case False
  then show ?thesis using same by (simp add: simulateDate_def twins_def)
next
  case True
  from same have t: "twin = with_runtimes ws c n sim" and rs: "sim_runtimes sim = rs" by (simp_all add: twins_def)
  let ?rs = "map (advanced date) rs" and ?ws = "map (advanced date) ws"
  define contribution where "contribution = contribution_on sim date"
  have k: "contribution_on twin date = contribution" by (simp add: t contribution_def contribution_on_def)
  have "twins rs ws c n (apply_contribution D contribution sim) (apply_contribution D contribution twin)"
    by (simp add: twins_def t rs apply_contribution_def Let_def)
  note valued = value_holdings_twins [OF alike this]
  have opened: "js_keys (sim_positions (value_holdings date (apply_contribution D contribution twin))) =
      js_keys (sim_positions (value_holdings date (apply_contribution D contribution sim)))"
    using valued by (simp add: twins_def)
  have day: "twins ?rs ?ws c n
      (record_day D js_pow options date contribution (remember_returns D date (if sim_completedDays a = length (sim_calendar a) - 1 then liquidateRemainingPositions D date a else a)))
      (record_day D js_pow options date contribution (remember_returns D date (if sim_completedDays b = length (sim_calendar b) - 1 then liquidateRemainingPositions D date b else b)))"
    if ab: "twins ?rs ?ws c n a b" for a b
  proof -
    have "sim_completedDays b = sim_completedDays a" "sim_calendar b = sim_calendar a" using ab by (simp_all add: twins_def)
    then have "twins ?rs ?ws c n (if sim_completedDays a = length (sim_calendar a) - 1 then liquidateRemainingPositions D date a else a)
        (if sim_completedDays b = length (sim_calendar b) - 1 then liquidateRemainingPositions D date b else b)"
      using phases_twins(2) [OF alike ab] ab by simp
    then show ?thesis by (intro record_day_twins phases_twins(1) [OF alike])
  qed
  have fits: "sim_completedDays twin < length (sim_calendar twin) \<and> sim_calendar twin ! sim_completedDays twin = date"
    using True by (simp add: t)
  show ?thesis
    unfolding simulateDate_def Let_def k contribution_def [symmetric] opened
    using True fits
    by (simp only: simp_thms if_False)
      (intro same_result_bind [OF exits_twins [OF alike valued]] same_result_bind [OF entries_twins [OF alike]],
       simp_all only: rel_sum_simps, rule day)
qed

end
