(* ===== verification/YearBoundary.thy ===== *)
theory YearBoundary
  imports WindowEquivalence SimulationInvariants
begin

section \<open>Consuming windows is consuming the whole period\<close>

text \<open>
  The worker consumes a backtest window by window (\<open>apps/worker/src/backtest/backtest-processor.ts\<close>),
  and every window sees only its own sessions and the context row of the session before it. This theory
  follows a windowed run and a whole-period run over the same plan and shows that they deliver the same
  checkpoints and the same result.
\<close>

subsection \<open>The frames of a window\<close>

definition sessions_until :: "local_date list \<Rightarrow> local_date option \<Rightarrow> nat" where
  "sessions_until dates until = (case until of None \<Rightarrow> 0 | Some date \<Rightarrow> dates_through dates date)"

definition after :: "local_date option \<Rightarrow> local_date \<Rightarrow> bool" where
  "after previous date \<longleftrightarrow> (case previous of None \<Rightarrow> True | Some before \<Rightarrow> before < date)"

lemma after_simps [simp]: "after None date" "after (Some before) date \<longleftrightarrow> before < date"
  by (simp_all add: after_def)

lemma sessions_until_le: "sessions_until dates until \<le> length dates"
  by (simp add: sessions_until_def dates_through_le split: option.split)

text \<open>
  A window's frame ends with the last session not after the window and starts anywhere before the first
  session that no earlier window has shown.
\<close>

definition window_frame :: "local_date option \<Rightarrow> local_date \<Rightarrow> evaluation_frame \<Rightarrow> evaluation_frame \<Rightarrow> bool" where
  "window_frame previous to frame portion \<longleftrightarrow>
     (\<exists>a p. a \<le> sessions_until (frame_dates frame) previous \<and>
        portion = (slice_frame a (truncate_frame (dates_through (frame_dates frame) to) frame))\<lparr>periodStartIndex := p\<rparr>)"

lemma context_row_period [simp]:
  "evaluationFrameContextRow (frame\<lparr>periodStartIndex := p\<rparr>) = evaluationFrameContextRow frame"
  by (simp add: evaluationFrameContextRow_def Let_def)

lemma truncate_frame_simps [simp]:
  "frame_security (truncate_frame n frame) = frame_security frame"
  "frame_closes (truncate_frame n frame) = take n (frame_closes frame)"
  "frame_columns (truncate_frame n frame) = map (\<lambda>p. (fst p, take n (snd p))) (frame_columns frame)"
  "truncate_frame n (frame\<lparr>periodStartIndex := p\<rparr>) = (truncate_frame n frame)\<lparr>periodStartIndex := p\<rparr>"
  "truncate_frame n (truncate_frame b frame) = truncate_frame (min n b) frame"
  by (simp_all add: truncate_frame_def min.commute)

lemma slice_frame_period [simp]:
  "slice_frame a (frame\<lparr>periodStartIndex := p\<rparr>) = (slice_frame a frame)\<lparr>periodStartIndex := p\<rparr>"
  "frame_ok (frame\<lparr>periodStartIndex := p\<rparr>) = frame_ok frame"
  by (simp_all add: slice_frame_def frame_ok_def)

lemma js_map_ok_values: "js_map_ok (map (\<lambda>p. (fst p, f (snd p))) m) = js_map_ok m"
  by (simp add: js_map_ok_def comp_def)

text \<open>With the context row of the sessions seen so far, the window shows the session before its first.\<close>

lemma windowed_shown:
  assumes ok: "frame_ok frame" "js_map_ok (frame_columns frame)"
    and portion: "window_frame previous to frame portion" and order: "\<And>p. previous = Some p \<Longrightarrow> p \<le> to"
  defines "n \<equiv> sessions_until (frame_dates frame) previous"
  obtains windowed where
    "withLeadingContextRow portion (evaluationFrameContextRow (truncate_frame n frame)) = Inr windowed"
    "shown (n - 1) (dates_through (frame_dates frame) to) frame windowed"
proof -
  let ?b = "dates_through (frame_dates frame) to"
  from portion obtain a p where a: "a \<le> n" "portion = (slice_frame a (truncate_frame ?b frame))\<lparr>periodStartIndex := p\<rparr>"
    by (auto simp: window_frame_def n_def)
  have n: "n \<le> ?b" using order by (auto simp: n_def sessions_until_def dates_through_mono split: option.split)
  show ?thesis
  proof (cases "n = 0")
    case True
    then have "evaluationFrameContextRow (truncate_frame n frame) = None" by (simp add: evaluationFrameContextRow_def)
    then have "withLeadingContextRow portion (evaluationFrameContextRow (truncate_frame n frame)) = Inr portion"
      by (simp add: withLeadingContextRow_def)
    moreover have "shown (n - 1) ?b frame portion" using a True unfolding shown_def by auto
    ultimately show ?thesis by (rule that)
  next
    case False
    let ?f = "(truncate_frame ?b frame)\<lparr>periodStartIndex := p\<rparr>"
    have f: "frame_ok ?f" "js_map_ok (frame_columns ?f)"
      using truncate_frame_ok [OF ok(1)] ok(2) by (simp_all add: js_map_ok_values)
    have "n \<le> length (frame_dates ?f)" using n dates_through_le [of "frame_dates frame" to] by simp
    from withLeadingContextRow_slice [OF f _ this a(1)] False obtain p' where
      "withLeadingContextRow (slice_frame a ?f) (evaluationFrameContextRow (truncate_frame n ?f)) =
        Inr ((slice_frame (n - 1) ?f)\<lparr>periodStartIndex := p'\<rparr>)" by blast
    moreover have "shown (n - 1) ?b frame ((slice_frame (n - 1) ?f)\<lparr>periodStartIndex := p'\<rparr>)"
      unfolding shown_def by (intro exI [of _ p']) simp
    ultimately show ?thesis using that n by (simp add: a(2) min_absorb1)
  qed
qed

lemma shown_context_row:
  assumes "frame_ok frame" "shown m b frame windowed" "m < b" "b \<le> length (frame_dates frame)"
  shows "evaluationFrameContextRow windowed = evaluationFrameContextRow (truncate_frame b frame)"
proof -
  obtain p where w: "windowed = (slice_frame m (truncate_frame b frame))\<lparr>periodStartIndex := p\<rparr>"
    using assms(2) by (auto simp: shown_def)
  have lens: "length (frame_closes frame) = length (frame_dates frame)"
    "\<And>q. q \<in> set (frame_columns frame) \<Longrightarrow> length (snd q) = length (frame_dates frame)"
    using assms(1) by (auto simp: frame_ok_def)
  have nth: "nth_or_nan (drop m (take b column)) (int (b - m) - 1) = nth_or_nan (take b column) (int b - 1)"
    if "length column = length (frame_dates frame)" for column
    using assms(3,4) that by (auto simp: nth_or_nan_def nat_diff_distrib)
  have columns: "map (\<lambda>q. (fst q, nth_or_nan (drop m (take b (snd q))) (int (b - m) - 1))) (frame_columns frame) =
      map (\<lambda>q. (fst q, nth_or_nan (take b (snd q)) (int b - 1))) (frame_columns frame)"
    using nth lens(2) by auto
  have size: "length (take b (frame_dates frame)) = b" "length (drop m (take b (frame_dates frame))) = b - m"
    "drop m (take b (frame_dates frame)) \<noteq> []" "take b (frame_dates frame) \<noteq> []"
    using assms(3,4) by auto
  have last: "last (drop m (take b (frame_dates frame))) = last (take b (frame_dates frame))"
    using size by (simp add: last_drop)
  show ?thesis
    unfolding w context_row_period
    unfolding evaluationFrameContextRow_def slice_frame_simps truncate_frame_simps
      truncate_frame_dates Let_def map_map comp_def fst_conv snd_conv size last if_not_P [OF size(3)] if_not_P [OF size(4)]
      nth [OF lens(1)] columns ..
qed


subsection \<open>A runtime and its windowed counterpart\<close>

definition ready :: "local_date option \<Rightarrow> security_runtime \<Rightarrow> bool" where
  "ready until runtime \<longleftrightarrow> (\<forall>date. after until date \<longrightarrow> cursor_ready runtime date)"

text \<open>A runtime of the whole period, with the context row kept for it, between two windows.\<close>

definition tracked ::
  "strategy_definition \<Rightarrow> local_date option \<Rightarrow> (security_id \<times> context_row) list \<Rightarrow> security_runtime \<Rightarrow> bool"
where
  "tracked definition previous rows r \<longleftrightarrow>
     frame_ok (runtime_frame r) \<and> js_map_ok (frame_columns (runtime_frame r)) \<and>
     frame_security (runtime_frame r) = setup_securityId (runtime_setup r) \<and>
     buildStrategyGates definition (runtime_frame r) = Inr (runtime_gates r) \<and> ready previous r \<and>
     map_of rows (setup_securityId (runtime_setup r)) = evaluationFrameContextRow
       (truncate_frame (sessions_until (frame_dates (runtime_frame r)) previous) (runtime_frame r))"

text \<open>The same with the runtime of the open window.\<close>

definition paired ::
  "strategy_definition \<Rightarrow> local_date option \<Rightarrow> local_date \<Rightarrow> local_date option \<Rightarrow> security_runtime \<Rightarrow> security_runtime \<Rightarrow> bool"
where
  "paired definition previous to until r w \<longleftrightarrow>
     runtime_setup r = runtime_setup w \<and> frame_ok (runtime_frame r) \<and>
     buildStrategyGates definition (runtime_frame r) = Inr (runtime_gates r) \<and>
     buildStrategyGates definition (runtime_frame w) = Inr (runtime_gates w) \<and>
     shown (sessions_until (frame_dates (runtime_frame r)) previous - 1)
       (dates_through (frame_dates (runtime_frame r)) to) (runtime_frame r) (runtime_frame w) \<and>
     ready until r \<and> ready until w"

lemma advanced_simps [simp]:
  "runtime_setup (advanced date r) = runtime_setup r"
  "runtime_frame (advanced date r) = runtime_frame r"
  "runtime_gates (advanced date r) = runtime_gates r"
  by (simp_all add: advanced_def)

lemma ready_advanced:
  assumes "ascending (frame_dates (runtime_frame r))" "ready until r" "after until date"
  shows "ready (Some date) (advanced date r)"
  using advanced_ready [OF assms(1), of date] assms(2,3) by (auto simp: ready_def)

lemma session_index_shown:
  assumes "ascending dates" "m = 0 \<or> m < b" "b \<le> length dates" "dates_through dates date \<le> b" "m = 0 \<or> dates ! m < date"
  obtains (missing) "session_index dates date = - 1" "session_index (drop m (take b dates)) date = - 1"
  | (found) k where "m + k < b" "1 \<le> k \<or> m = 0" "session_index dates date = int (m + k)"
      "session_index (drop m (take b dates)) date = int k"
proof (cases rule: session_index_cases [OF assms(1), of date])
  case 1
  then have "date \<notin> set (drop m (take b dates))" by (meson in_set_dropD in_set_takeD)
  then show ?thesis using missing 1 by (simp add: session_index_def)
next
  case (2 i)
  have "i < dates_through dates date" using dates_through_nth [OF assms(1) 2(1), of date] 2(2) by simp
  then have i: "i < b" using assms(4) by simp
  have m: "m = 0 \<or> m < i"
    using assms(5) 2(1,2) ascending_nth_mono [OF assms(1), of i m] assms(2,3) i by (cases "m < i") auto
  then have "session_index (drop m (take b dates)) date = int (i - m)"
    using session_index_slice [OF assms(1) 2(1) _ i, of m] 2(2) by auto
  with m i 2(3) show ?thesis by (intro found [of "i - m"]) auto
qed

lemma context_session:
  assumes "ascending dates" "after previous date" "m = sessions_until dates previous - 1"
  shows "m = 0 \<or> dates ! m < date"
proof (cases previous)
  case (Some p)
  show ?thesis
  proof (cases "dates_through dates p = 0")
    case False
    then have "m < dates_through dates p" "m < length dates"
      using assms(3) Some dates_through_le [of dates p] by (auto simp: sessions_until_def)
    then have "dates ! m \<le> p" using dates_through_nth [OF assms(1), of m p] by simp
    then show ?thesis using assms(2) Some by (auto intro: le_less_trans)
  qed (simp add: assms(3) Some sessions_until_def)
qed (simp add: assms(3) sessions_until_def)

lemma usable_close_shift:
  "m + k < b \<Longrightarrow> b \<le> length closes \<Longrightarrow>
     usable_close (drop m (take b closes)) (int k) = usable_close closes (int (m + k))"
  by (simp add: usable_close_def nat_int_add)

lemma paired_step:
  assumes pair: "paired definition previous to until r w"
    and date: "after previous date" "after until date" "date \<le> to"
    and order: "\<And>p. previous = Some p \<Longrightarrow> p \<le> to"
  shows "seen_alike date (advanced date r) (advanced date w)"
    and "paired definition previous to (Some date) (advanced date r) (advanced date w)"
proof -
  let ?ds = "frame_dates (runtime_frame r)"
  define m b where m: "m = sessions_until ?ds previous - 1" and b: "b = dates_through ?ds to"
  note P = pair [unfolded paired_def, folded m b]
  have ok: "frame_ok (runtime_frame r)" and shown: "shown m b (runtime_frame r) (runtime_frame w)" using P by simp_all
  have asc: "ascending ?ds" and lens: "length (frame_closes (runtime_frame r)) = length ?ds" using ok by (simp_all add: frame_ok_def)
  note ds = shown_dates [OF shown] note cl = shown_closes [OF shown]
  have asc': "ascending (frame_dates (runtime_frame w))" using asc by (simp add: ds sorted_wrt_drop sorted_wrt_take)
  have bl: "b \<le> length ?ds" by (simp add: b dates_through_le)
  have "sessions_until ?ds previous \<le> b"
    using order by (auto simp: b sessions_until_def dates_through_mono split: option.split)
  then have mb: "m \<le> b" "m = 0 \<or> m < b" by (auto simp: m)
  have ready: "cursor_ready r date" "cursor_ready w date" using P date(2) by (simp_all add: ready_def)
  have at: "frameIndexAt (advanced date r) date = session_index ?ds date"
    "frameIndexAt (advanced date w) date = session_index (drop m (take b ?ds)) date"
    using frameIndexAt_advanced [OF asc ready(1)] frameIndexAt_advanced [OF asc' ready(2)] by (simp_all add: ds)
  show "paired definition previous to (Some date) (advanced date r) (advanced date w)"
    using pair ready_advanced [OF asc _ date(2)] ready_advanced [OF asc' _ date(2)] by (simp add: paired_def)
  have through: "dates_through ?ds date \<le> b" by (simp add: b dates_through_mono [OF date(3)])
  show "seen_alike date (advanced date r) (advanced date w)"
  proof (cases rule: session_index_shown [OF asc mb(2) bl through context_session [OF asc date(1) m]])
    case 1
    then show ?thesis using P by (simp add: seen_alike_def session_view_def Let_def at)
  next
    case found: (2 k)
    have gw: "buildStrategyGates definition (runtime_frame w) = Inr (runtime_gates w)"
      and gr: "buildStrategyGates definition (runtime_frame r) = Inr (runtime_gates r)" using P by simp_all
    have "(if m = 0 then 0 else 1) \<le> k" "k < b - m" using found(1,2) by auto
    note read = readGate_shift [OF _ this]
    note gates = gates_shown [OF ok shown mb(1) bl gw gr, THEN read]
    have prev: "(if 0 < int k then Some (drop m (take b ?ds) ! nat (int k - 1)) else None) =
        (if 0 < int (m + k) then Some (?ds ! nat (int (m + k) - 1)) else None)"
      using found(1,2) bl by (cases k) (auto simp: nat_int_add)
    have close: "usable_close (drop m (take b (frame_closes (runtime_frame r)))) (int k) =
        usable_close (frame_closes (runtime_frame r)) (int (m + k))"
      using usable_close_shift [OF found(1)] bl lens by simp
    have owner: "runtime_setup r = runtime_setup w" using P by blast
    show ?thesis
      unfolding seen_alike_def session_view_def Let_def at found(3,4) advanced_simps ds cl gates prev close owner
      by simp
  qed
qed


subsection \<open>The dates of one window\<close>

lemma fold_advanced_simps [simp]:
  "runtime_setup (fold advanced dates r) = runtime_setup r"
  "runtime_frame (fold advanced dates r) = runtime_frame r"
  "runtime_gates (fold advanced dates r) = runtime_gates r"
  by (induction dates arbitrary: r) simp_all

lemma dates_twins:
  assumes order: "\<And>p. previous = Some p \<Longrightarrow> p \<le> to"
  shows "list_all2 (paired definition previous to until) rs ws \<Longrightarrow> ascending dates \<Longrightarrow>
    \<forall>date \<in> set dates. after previous date \<and> after until date \<and> date \<le> to \<Longrightarrow> twins rs ws c n sim twin \<Longrightarrow>
    same_result (twins (map (fold advanced dates) rs) (map (fold advanced dates) ws) c n)
      (result_fold (simulateDate D js_pow options) dates sim) (result_fold (simulateDate D js_pow options) dates twin) \<and>
    list_all2 (paired definition previous to (if dates = [] then until else Some (last dates)))
      (map (fold advanced dates) rs) (map (fold advanced dates) ws)"
proof (induction dates arbitrary: until rs ws sim twin)
  case (Cons date dates)
  let ?rs = "map (advanced date) rs" and ?ws = "map (advanced date) ws"
  have date: "after previous date" "after until date" "date \<le> to" using Cons.prems(3) by simp_all
  note step = paired_step [OF _ date order]
  have alike: "list_all2 (seen_alike date) ?rs ?ws"
    using Cons.prems(1) by (auto simp: list_all2_map1 list_all2_map2 intro: step(1) elim!: list_all2_mono)
  have pairs: "list_all2 (paired definition previous to (Some date)) ?rs ?ws"
    using Cons.prems(1) by (auto simp: list_all2_map1 list_all2_map2 intro: step(2) elim!: list_all2_mono)
  have later: "ascending dates" "\<forall>d \<in> set dates. after previous d \<and> after (Some date) d \<and> d \<le> to"
    using Cons.prems(2,3) by auto
  note rest = Cons.IH [OF pairs later]
  have runs: "same_result (twins (map (fold advanced dates) ?rs) (map (fold advanced dates) ?ws) c n)
      (result_fold (simulateDate D js_pow options) (date # dates) sim)
      (result_fold (simulateDate D js_pow options) (date # dates) twin)"
    unfolding result_fold.simps
    by (rule same_result_bind [OF simulateDate_twins [OF alike Cons.prems(4)]]) (rule rest [THEN conjunct1])
  have "twins ?rs ?ws c n (sim\<lparr>sim_runtimes := ?rs\<rparr>) (with_runtimes ?ws c n (sim\<lparr>sim_runtimes := ?rs\<rparr>))"
    by (simp add: twins_def)
  from rest [OF this] runs show ?case by (auto simp: comp_def)
qed simp

lemma ready_mono:
  assumes "ready until r" "\<And>u. until = Some u \<Longrightarrow> u \<le> to"
  shows "ready (Some to) r"
  using assms by (cases until) (auto simp: ready_def intro: le_less_trans)

subsection \<open>Opening and closing a window\<close>

lemma open_runtimes_windows:
  assumes order: "\<And>p. previous = Some p \<Longrightarrow> p \<le> to" and sound: "market_supported definition"
  shows "list_all2 (\<lambda>r portion. tracked definition previous c r \<and> window_frame previous to (runtime_frame r) portion) rs portions \<Longrightarrow>
    \<exists>ws. open_runtimes definition c index (map runtime_setup rs) portions = Inr ws \<and>
      list_all2 (paired definition previous to previous) rs ws"
proof (induction arbitrary: index rule: list_all2_induct)
  case (Cons r rs portion portions)
  let ?f = "runtime_frame r"
  from Cons.hyps(1) have t: "tracked definition previous c r" and w: "window_frame previous to ?f portion" by simp_all
  note T = t [unfolded tracked_def]
  have ok: "frame_ok ?f" "js_map_ok (frame_columns ?f)"
    and row: "map_of c (setup_securityId (runtime_setup r)) =
      evaluationFrameContextRow (truncate_frame (sessions_until (frame_dates ?f) previous) ?f)" using T by simp_all
  have owner: "frame_security portion = setup_securityId (runtime_setup r)" using w T by (auto simp: window_frame_def slice_frame_def)
  obtain windowed where win: "withLeadingContextRow portion (map_of c (setup_securityId (runtime_setup r))) = Inr windowed"
    "shown (sessions_until (frame_dates ?f) previous - 1) (dates_through (frame_dates ?f) to) ?f windowed"
    using windowed_shown [OF ok w order] unfolding row by blast
  obtain gates where gates: "buildStrategyGates definition windowed = Inr gates"
    using buildStrategyGates_total [OF sound] by blast
  obtain ws where ws: "open_runtimes definition c (index + 1) (map runtime_setup rs) portions = Inr ws"
    "list_all2 (paired definition previous to previous) rs ws" using Cons.IH by blast
  have "paired definition previous to previous r
      \<lparr>runtime_setup = runtime_setup r, runtime_frame = windowed, runtime_gates = gates, runtime_cursor = 0\<rparr>"
    using T win(2) gates by (simp add: paired_def ready_def cursor_ready_def)
  then show ?case using ws owner win(1) gates by simp
qed simp

lemma kept_context_row:
  "name \<notin> (\<lambda>w. setup_securityId (runtime_setup w)) ` set ws \<Longrightarrow> map_of (foldl keep_context_row c ws) name = map_of c name"
  "distinct (map (\<lambda>w. setup_securityId (runtime_setup w)) ws) \<Longrightarrow> w \<in> set ws \<Longrightarrow>
     map_of (foldl keep_context_row c ws) (setup_securityId (runtime_setup w)) =
       (case evaluationFrameContextRow (runtime_frame w) of
          None \<Rightarrow> map_of c (setup_securityId (runtime_setup w)) | Some row \<Rightarrow> Some row)"
proof -
  show other: "name \<notin> (\<lambda>w. setup_securityId (runtime_setup w)) ` set ws \<Longrightarrow> map_of (foldl keep_context_row c ws) name = map_of c name"
    for name ws c
    by (induction ws arbitrary: c) (auto simp: keep_context_row_def split: option.split)
  have one: "map_of (keep_context_row c v) name =
      (if name = setup_securityId (runtime_setup v) then
         (case evaluationFrameContextRow (runtime_frame v) of None \<Rightarrow> map_of c name | Some row \<Rightarrow> Some row)
       else map_of c name)" for c v name
    by (simp add: keep_context_row_def split: option.split)
  show "distinct (map (\<lambda>w. setup_securityId (runtime_setup w)) ws) \<Longrightarrow> w \<in> set ws \<Longrightarrow>
     map_of (foldl keep_context_row c ws) (setup_securityId (runtime_setup w)) =
       (case evaluationFrameContextRow (runtime_frame w) of
          None \<Rightarrow> map_of c (setup_securityId (runtime_setup w)) | Some row \<Rightarrow> Some row)"
  proof (induction ws arbitrary: c)
    case (Cons v ws)
    have fresh: "setup_securityId (runtime_setup v) \<notin> (\<lambda>w. setup_securityId (runtime_setup w)) ` set ws"
      and rest: "distinct (map (\<lambda>w. setup_securityId (runtime_setup w)) ws)" using Cons.prems(1) by simp_all
    show ?case
    proof (cases "w = v")
      case True
      then show ?thesis using other [OF fresh] one by (simp split: option.split)
    next
      case False
      then have w: "w \<in> set ws" using Cons.prems(2) by simp
      then have "setup_securityId (runtime_setup w) \<noteq> setup_securityId (runtime_setup v)"
        using imageI [OF w, of "\<lambda>w. setup_securityId (runtime_setup w)"] fresh by metis
      then show ?thesis using Cons.IH [OF rest w] one by (simp split: option.split)
    qed
  qed simp
qed

lemma closed_window_tracked:
  assumes pair: "paired definition previous to until r w" and order: "\<And>p. previous = Some p \<Longrightarrow> p \<le> to"
    and until: "\<And>u. until = Some u \<Longrightarrow> u \<le> to" and before: "tracked definition previous c r'"
    and same: "runtime_frame r' = runtime_frame r" "runtime_setup r' = runtime_setup r" "runtime_gates r' = runtime_gates r"
    and kept: "distinct (map (\<lambda>w. setup_securityId (runtime_setup w)) ws)" "w \<in> set ws"
  shows "tracked definition (Some to) (foldl keep_context_row c ws) r"
proof -
  let ?f = "runtime_frame r" and ?id = "setup_securityId (runtime_setup r)"
  define n b where n: "n = sessions_until (frame_dates ?f) previous" and b: "b = dates_through (frame_dates ?f) to"
  note B = before [unfolded tracked_def same, folded n]
  have ok: "frame_ok ?f" and shown: "shown (n - 1) b ?f (runtime_frame w)" and setups: "runtime_setup r = runtime_setup w"
    and ready: "ready until r"
    using pair by (simp_all add: paired_def n b)
  have "n \<le> b" using order by (auto simp: n b sessions_until_def dates_through_mono split: option.split)
  have row: "map_of (foldl keep_context_row c ws) ?id = evaluationFrameContextRow (truncate_frame b ?f)"
  proof (cases "b = 0")
    case True
    then have "evaluationFrameContextRow (runtime_frame w) = None" "map_of c ?id = None"
      using B shown_dates [OF shown] \<open>n \<le> b\<close> by (simp_all add: evaluationFrameContextRow_def)
    then show ?thesis using kept_context_row(2) [OF kept, of c] True by (simp add: setups evaluationFrameContextRow_def)
  next
    case False
    then have "n - 1 < b" using \<open>n \<le> b\<close> by simp
    moreover have "b \<le> length (frame_dates ?f)" by (simp add: b dates_through_le)
    ultimately have "evaluationFrameContextRow (runtime_frame w) = evaluationFrameContextRow (truncate_frame b ?f)"
      by (rule shown_context_row [OF ok shown])
    moreover have "evaluationFrameContextRow (truncate_frame b ?f) \<noteq> None"
      using False \<open>b \<le> _\<close> by (auto simp: evaluationFrameContextRow_def Let_def)
    ultimately show ?thesis using kept_context_row(2) [OF kept, of c] by (auto simp: setups)
  qed
  show ?thesis
    using B row ready_mono [OF ready until] by (simp add: tracked_def sessions_until_def b)
qed


subsection \<open>What no date changes\<close>

definition plan_of :: "simulation \<Rightarrow> simulation_input \<times> execution_window list \<times> nat" where
  "plan_of sim = (sim_input sim, sim_windows sim, sim_nextWindowIndex sim)"

lemma plan_of_ops [simp]:
  "plan_of (recordTrade sim row) = plan_of sim"
  "plan_of (sim\<lparr>sim_positions := ps\<rparr>) = plan_of sim"
  "plan_of (sim\<lparr>sim_runtimes := rs\<rparr>) = plan_of sim"
  "plan_of (close_position D date action source levelId ruleId price p sim) = plan_of sim"
  "plan_of (sell_at_level D date level sold price p sim) = plan_of sim"
  "plan_of (fill_buy D date candidate close price bought amount p sim) = plan_of sim"
  "plan_of (fst (open_position sim date sp close)) = plan_of sim"
  "plan_of (liquidate_position D date sim k) = plan_of sim"
  "plan_of (apply_contribution D contribution sim) = plan_of sim"
  "plan_of (value_holdings date sim) = plan_of sim"
  "plan_of (remember_returns D date sim) = plan_of sim"
  "plan_of (record_day D js_pow options date contribution sim) = plan_of sim"
  by (simp_all add: plan_of_def recordTrade_def book_sale_def close_position_def sell_at_level_def fill_buy_def
      open_position_def liquidate_position_def apply_contribution_def value_holdings_def remember_returns_def
      record_day_def record_equity_def deliver_checkpoint_def Let_def split: prod.splits option.split)

lemma sell_levels_plan:
  "sell_levels D date gates index close previousDate k levels sim = Inr sim' \<Longrightarrow> plan_of sim' = plan_of sim"
proof (induction levels arbitrary: sim)
  case (Cons level levels)
  then show ?case by (fastforce simp: Let_def split: option.splits if_splits sum.splits)
qed simp

lemma exit_position_plan: "exit_position D date k sim = Inr sim' \<Longrightarrow> plan_of sim' = plan_of sim"
  by (auto simp: exit_position_def Let_def result_bind_Inr_iff dest: sell_levels_plan
      split: option.splits if_splits)

lemma buy_candidate_step_plan:
  assumes "buy_candidate_step D date budget candidate sim = Inr sim'"
  shows "plan_of sim' = plan_of sim"
proof -
  have opened: "plan_of s = plan_of sim" if "open_position sim date sp close = (s, p)" for s p sp close
    using that by (metis plan_of_ops(7) fst_conv)
  show ?thesis
    using assms
    by (auto simp: buy_candidate_step_def Let_def dest!: opened split: option.splits if_splits prod.splits)
qed

lemma simulateDate_plan:
  assumes "simulateDate D js_pow options date sim = Inr sim'"
  shows "plan_of sim' = plan_of sim"
proof -
  have fold: "plan_of s' = plan_of s" if "result_fold f xs s = Inr s'" "\<And>x s s'. f x s = Inr s' \<Longrightarrow> plan_of s' = plan_of s"
    for f :: "'x \<Rightarrow> simulation \<Rightarrow> simulation_error + simulation" and xs s s'
    using result_fold_inv [where I = "\<lambda>t. plan_of t = plan_of s", OF _ that(1)] that(2) by simp
  have "plan_of (foldl (liquidate_position D date) s ks) = plan_of s" for s ks
    by (induction ks arbitrary: s) simp_all
  then have liquidated: "plan_of (liquidateRemainingPositions D date s) = plan_of s" for s
    by (simp add: liquidateRemainingPositions_def)
  have exits: "exits D date s = Inr s' \<Longrightarrow> plan_of s' = plan_of s" for s s'
    unfolding exits_def by (erule fold) (rule exit_position_plan)
  have entries: "entries D date deposited opened s = Inr s' \<Longrightarrow> plan_of s' = plan_of s" for deposited opened s s'
    unfolding entries_def Let_def by (erule fold) (rule buy_candidate_step_plan)
  let ?valued = "value_holdings date (apply_contribution D (contribution_on sim date) sim)"
  from assms obtain exited entered settled where
    "exits D date ?valued = Inr exited"
    "entries D date (js_gt (contribution_on sim date) (Fin 0)) (js_keys (sim_positions ?valued)) exited = Inr entered"
    "settled = liquidateRemainingPositions D date entered \<or> settled = entered"
    "sim' = record_day D js_pow options date (contribution_on sim date) (remember_returns D date settled)"
    by (auto simp: simulateDate_def Let_def result_bind_Inr_iff split: if_splits)
  then show ?thesis using liquidated exits entries by fastforce
qed

lemma simulated_dates_plan:
  "result_fold (simulateDate D js_pow options) dates sim = Inr sim' \<Longrightarrow> plan_of sim' = plan_of sim"
  using result_fold_inv [where I = "\<lambda>t. plan_of t = plan_of sim"] simulateDate_plan by metis


subsection \<open>Window after window\<close>

text \<open>The worker's loop over the windows of the simulation, given the frames it loads for each.\<close>

definition run_windows ::
  "decimal_lib \<Rightarrow> (jsnum \<Rightarrow> jsnum \<Rightarrow> jsnum) \<Rightarrow> simulation_options \<Rightarrow> evaluation_frame list list
   \<Rightarrow> simulation \<Rightarrow> simulation_error + simulation"
where
  "run_windows D js_pow options loaded sim =
     result_fold (\<lambda>(window, frames). consumeWindow D js_pow options window frames) (zip (sim_windows sim) loaded) sim"

fun windows_cut ::
  "local_date option \<Rightarrow> evaluation_frame list \<Rightarrow> execution_window list \<Rightarrow> evaluation_frame list list \<Rightarrow> bool"
where
  "windows_cut previous frames [] [] \<longleftrightarrow> True"
| "windows_cut previous frames (w # ws) (portions # loaded) \<longleftrightarrow>
     list_all2 (window_frame previous (window_to w)) frames portions \<and>
     windows_cut (Some (window_to w)) frames ws loaded"
| "windows_cut previous frames _ _ \<longleftrightarrow> False"

text \<open>The state of a whole-period run at the start of a window, and the windowed state at that point.\<close>

definition at_boundary ::
  "strategy_definition \<Rightarrow> evaluation_frame list \<Rightarrow> execution_window list \<Rightarrow> nat \<Rightarrow> local_date option
   \<Rightarrow> simulation \<Rightarrow> simulation \<Rightarrow> bool"
where
  "at_boundary definition frames windows i previous sim twin \<longleftrightarrow>
     (\<exists>rows. twin = with_runtimes [] rows i sim \<and> (\<forall>r \<in> set (sim_runtimes sim). tracked definition previous rows r)) \<and>
     map runtime_frame (sim_runtimes sim) = frames \<and>
     in_definition (sim_input sim) = definition \<and>
     in_securities (sim_input sim) = map runtime_setup (sim_runtimes sim) \<and>
     distinct (map (\<lambda>r. setup_securityId (runtime_setup r)) (sim_runtimes sim)) \<and>
     sim_windows sim = windows \<and> sim_nextWindowIndex sim = length windows"

definition window_good :: "execution_window \<Rightarrow> bool" where
  "window_good w \<longleftrightarrow> window_dates w \<noteq> [] \<and> ascending (window_dates w) \<and>
     (\<forall>date \<in> set (window_dates w). window_from w \<le> date \<and> date \<le> window_to w)"

lemma window_twins:
  assumes start: "at_boundary definition frames windows i previous sim twin"
    and w: "i < length windows" "windows ! i = w" "window_index w = i" "window_good w"
    and portions: "list_all2 (window_frame previous (window_to w)) frames portions"
    and before: "\<And>p. previous = Some p \<Longrightarrow> p < window_from w"
    and sound: "market_supported definition"
  shows "same_result (at_boundary definition frames windows (Suc i) (Some (window_to w)))
    (result_fold (simulateDate D js_pow options) (window_dates w) sim) (consumeWindow D js_pow options w portions twin)"
proof -
  let ?to = "window_to w" and ?rs = "sim_runtimes sim" and ?ds = "window_dates w"
  from start obtain rows where twin: "twin = with_runtimes [] rows i sim"
    and tracked: "\<forall>r \<in> set ?rs. tracked definition previous rows r" unfolding at_boundary_def by blast
  from start have frames: "map runtime_frame ?rs = frames" and input: "in_definition (sim_input sim) = definition"
      "in_securities (sim_input sim) = map runtime_setup ?rs"
    and ids: "distinct (map (\<lambda>r. setup_securityId (runtime_setup r)) ?rs)"
    and plan: "sim_windows sim = windows" "sim_nextWindowIndex sim = length windows"
    by (simp_all add: at_boundary_def)
  have good: "?ds \<noteq> []" "ascending ?ds" "\<forall>date \<in> set ?ds. window_from w \<le> date \<and> date \<le> ?to"
    using w(4) by (simp_all add: window_good_def)
  then have "window_from w \<le> ?to" using order_trans by (metis last_in_set)
  then have order: "p \<le> ?to" if "previous = Some p" for p
    using before [OF that] by (meson less_imp_le less_le_trans)
  have dates: "\<forall>date \<in> set ?ds. after previous date \<and> after previous date \<and> date \<le> ?to"
    using good(3) before by (auto simp: after_def split: option.split intro: less_le_trans)
  have "list_all2 (\<lambda>r portion. tracked definition previous rows r \<and> window_frame previous ?to (runtime_frame r) portion) ?rs portions"
    using portions tracked by (auto simp: frames [symmetric] list_all2_map1 list_all2_conv_all_nth)
  from open_runtimes_windows [OF order sound this, of 0] obtain ws where
    ws: "open_runtimes definition rows 0 (map runtime_setup ?rs) portions = Inr ws"
    and pairs: "list_all2 (paired definition previous ?to previous) ?rs ws" by blast
  have lengths: "length portions = length ?rs" using list_all2_lengthD [OF portions] by (simp add: frames [symmetric])
  let ?t = "with_runtimes ws rows (Suc i) sim"
  have consume: "consumeWindow D js_pow options w portions twin =
      result_map closeWindow (result_fold (simulateDate D js_pow options) ?ds ?t)"
    using w(1-3) lengths ws
    by (simp add: consumeWindow_def simulate_dates_def openWindow_def Let_def twin input plan)
  have "twins ?rs ws rows (Suc i) sim ?t" by (simp add: twins_def)
  from dates_twins [OF order pairs good(2) dates this] good(1)
  have runs: "same_result (twins (map (fold advanced ?ds) ?rs) (map (fold advanced ?ds) ws) rows (Suc i))
      (result_fold (simulateDate D js_pow options) ?ds sim) (result_fold (simulateDate D js_pow options) ?ds ?t)"
    and after: "list_all2 (paired definition previous ?to (Some (last ?ds))) (map (fold advanced ?ds) ?rs) (map (fold advanced ?ds) ws)"
    by simp_all
  have setups: "map runtime_setup ws = map runtime_setup ?rs"
    using pairs by (auto simp: paired_def list_all2_conv_all_nth intro!: nth_equalityI)
  have ids': "distinct (map (\<lambda>w. setup_securityId (runtime_setup w)) (map (fold advanced ?ds) ws))"
    using ids arg_cong [OF setups, of "map setup_securityId"] by (simp add: comp_def)
  have closed: "tracked definition (Some ?to) (foldl keep_context_row rows (map (fold advanced ?ds) ws)) (fold advanced ?ds r)"
    if r: "r \<in> set ?rs" for r
  proof -
    obtain k where k: "k < length ?rs" "r = ?rs ! k" using r by (metis in_set_conv_nth)
    let ?w = "fold advanced ?ds (ws ! k)"
    have len: "length ws = length ?rs" using pairs by (simp add: list_all2_lengthD)
    have pair: "paired definition previous ?to (Some (last ?ds)) (fold advanced ?ds r) ?w"
      using list_all2_nthD [OF after, of k] k len by simp
    have "?w \<in> set (map (fold advanced ?ds) ws)" using k(1) len by simp
    from closed_window_tracked [OF pair order _ _ _ _ _ ids' this] tracked r good(1,3)
    show ?thesis by fastforce
  qed
  show ?thesis
  proof (cases "result_fold (simulateDate D js_pow options) ?ds sim")
    case (Inl e)
    show ?thesis using runs Inl by (cases rule: rel_sum.cases) (simp_all add: consume)
  next
    case (Inr s)
    obtain t where t: "result_fold (simulateDate D js_pow options) ?ds ?t = Inr t"
        "twins (map (fold advanced ?ds) ?rs) (map (fold advanced ?ds) ws) rows (Suc i) s t"
      using runs Inr by (cases rule: rel_sum.cases) auto
    have "plan_of s = plan_of sim" by (rule simulated_dates_plan [OF Inr])
    then have kept: "sim_input s = sim_input sim" "sim_windows s = windows" "sim_nextWindowIndex s = length windows"
      using plan by (simp_all add: plan_of_def)
    have s: "sim_runtimes s = map (fold advanced ?ds) ?rs"
      "closeWindow t = with_runtimes [] (foldl keep_context_row rows (map (fold advanced ?ds) ws)) (Suc i) s"
      using t(2) by (simp_all add: twins_def closeWindow_def)
    have "at_boundary definition frames windows (Suc i) (Some ?to) s (closeWindow t)"
      unfolding at_boundary_def s kept using closed frames input ids by (auto simp: comp_def)
    then show ?thesis by (simp add: consume t(1) Inr)
  qed
qed


lemma windows_twins:
  assumes sound: "market_supported definition"
  shows "windows = past @ ws \<Longrightarrow> \<forall>i < length windows. window_index (windows ! i) = i \<Longrightarrow>
    \<forall>w \<in> set ws. window_good w \<and> (\<forall>p. previous = Some p \<longrightarrow> p < window_from w) \<Longrightarrow>
    sorted_wrt (\<lambda>v w. window_to v < window_from w) ws \<Longrightarrow> windows_cut previous frames ws loaded \<Longrightarrow>
    at_boundary definition frames windows (length past) previous sim twin \<Longrightarrow>
    same_result (\<lambda>s t. \<exists>p. at_boundary definition frames windows (length windows) p s t)
      (result_fold (\<lambda>w. result_fold (simulateDate D js_pow options) (window_dates w)) ws sim)
      (result_fold (\<lambda>(w, portions). consumeWindow D js_pow options w portions) (zip ws loaded) twin)"
proof (induction ws arbitrary: past previous loaded sim twin)
  case Nil
  then show ?case by (cases loaded) auto
next
  case (Cons w ws)
  from Cons.prems(5) obtain portions rest where loaded: "loaded = portions # rest"
    and portions: "list_all2 (window_frame previous (window_to w)) frames portions"
    and cut_rest: "windows_cut (Some (window_to w)) frames ws rest" by (cases loaded) auto
  have i: "length past < length windows" "windows ! length past = w" using Cons.prems(1) by simp_all
  with Cons.prems(2) have index: "window_index w = length past" by blast
  have good: "window_good w" "\<And>p. previous = Some p \<Longrightarrow> p < window_from w" using Cons.prems(3) by simp_all
  have next_good: "\<forall>v \<in> set ws. window_good v \<and> (\<forall>p. Some (window_to w) = Some p \<longrightarrow> p < window_from v)"
    using Cons.prems(3,4) by simp
  note first = window_twins [OF Cons.prems(6) i index good(1) portions good(2) sound]
  have sorted: "sorted_wrt (\<lambda>v w. window_to v < window_from w) ws" using Cons.prems(4) by simp
  have split: "windows = (past @ [w]) @ ws" using Cons.prems(1) by simp
  have step: "at_boundary definition frames windows (Suc (length past)) (Some (window_to w)) s t \<Longrightarrow>
      at_boundary definition frames windows (length (past @ [w])) (Some (window_to w)) s t" for s t by simp
  show ?case
    unfolding loaded zip_Cons_Cons result_fold.simps prod.case
    by (rule same_result_bind [OF first], assumption)
      (rule Cons.IH [OF split Cons.prems(2) next_good sorted cut_rest step])
qed

lemma result_fold_concat:
  "result_fold f (concat xss) s = result_fold (\<lambda>xs. result_fold f xs) xss s"
proof (induction xss arbitrary: s)
  case (Cons xs xss)
  then show ?case by (simp add: result_fold_append) (metis ext)
qed simp

lemma open_runtimes_whole:
  "list_all2 (\<lambda>sp frame. frame_security frame = setup_securityId sp) sps frames \<Longrightarrow> market_supported definition \<Longrightarrow>
    \<forall>frame \<in> set frames. frame_ok frame \<and> js_map_ok (frame_columns frame) \<Longrightarrow>
    \<exists>rs. open_runtimes definition [] index sps frames = Inr rs \<and> map runtime_frame rs = frames \<and>
      map runtime_setup rs = sps \<and> (\<forall>r \<in> set rs. tracked definition None [] r)"
proof (induction arbitrary: index rule: list_all2_induct)
  case (Cons sp sps frame frames)
  obtain gates where gates: "buildStrategyGates definition frame = Inr gates"
    using buildStrategyGates_total [OF Cons.prems(1)] by blast
  obtain rs where rs: "open_runtimes definition [] (index + 1) sps frames = Inr rs" "map runtime_frame rs = frames"
    "map runtime_setup rs = sps" "\<forall>r \<in> set rs. tracked definition None [] r"
    using Cons.IH [OF Cons.prems(1)] Cons.prems(2) by auto
  let ?r = "\<lparr>runtime_setup = sp, runtime_frame = frame, runtime_gates = gates, runtime_cursor = 0\<rparr>"
  have "tracked definition None [] ?r"
    using Cons.hyps(1) Cons.prems(2) gates
    by (simp add: tracked_def ready_def cursor_ready_def sessions_until_def evaluationFrameContextRow_def)
  then show ?case using Cons.hyps(1) gates rs by (simp add: withLeadingContextRow_def)
qed simp


lemma result_fold_map: "result_fold f (map g xs) s = result_fold (\<lambda>x. f (g x)) xs s"
proof (induction xs arbitrary: s)
  case (Cons x xs)
  then show ?case by simp (metis ext)
qed simp

lemma ascending_concat: "ascending (concat xss) \<Longrightarrow> xs \<in> set xss \<Longrightarrow> ascending xs"
  by (induction xss) (auto simp: ascending_append)

lemma planned_windows_good:
  assumes "ascending calendar" "\<forall>d \<in> set calendar. isLocalDate d \<and> startDate \<le> d \<and> d \<le> endDate"
  shows "\<forall>w \<in> set (planExecutionWindows calendar startDate endDate). window_good w"
    and "sorted_wrt (\<lambda>v w. window_to v < window_from w) (planExecutionWindows calendar startDate endDate)"
proof -
  note facts = windows_partition_calendar_facts [OF assms]
  show "\<forall>w \<in> set (planExecutionWindows calendar startDate endDate). window_good w"
  proof
    fix w assume w: "w \<in> set (planExecutionWindows calendar startDate endDate)"
    then have "window_dates w \<noteq> []" using facts(2) by (metis in_set_conv_nth)
    moreover have "ascending (window_dates w)"
      by (rule ascending_concat [of "map window_dates (planExecutionWindows calendar startDate endDate)"])
        (simp_all only: facts(1) assms(1) set_map imageI [OF w])
    ultimately show "window_good w" using facts(3) [OF w] by (simp add: window_good_def)
  qed
  show "sorted_wrt (\<lambda>v w. window_to v < window_from w) (planExecutionWindows calendar startDate endDate)"
    using facts(4) by (simp add: sorted_wrt_iff_nth_less)
qed

lemma finished_at_boundary:
  assumes "at_boundary definition frames windows (length windows) p s t"
  shows "sim_checkpoints (closeWindow s) = sim_checkpoints t \<and> finish D js_pow (closeWindow s) = finish D js_pow t"
  using assms
  by (auto simp: at_boundary_def finish_def closeWindow_def count_trades_def Let_def split: prod.split option.split)

text \<open>
  C1. The year boundary is invisible: a backtest consumed window by window, each window seeing only its
  own sessions plus the context row carried over from the window before, delivers the checkpoints and
  the result of the same backtest consumed over whole-period frames, and fails where that one fails.
  The frames are well formed and in the order of the securities, their ids differ, every window's frame
  ends with the window and starts no later than its first unseen session, and the strategy uses
  supported operators and metrics.
\<close>

theorem year_boundary_is_invisible:
  assumes run: "new_BacktestSimulation D input = Inr sim"
    and dates: "\<forall>date \<in> set (in_executionCalendar input). isLocalDate date"
    and frames: "list_all2 (\<lambda>sp frame. frame_security frame = setup_securityId sp) (in_securities input) frames"
    and ids: "distinct (map setup_securityId (in_securities input))"
    and ok: "\<forall>frame \<in> set frames. frame_ok frame \<and> js_map_ok (frame_columns frame)"
    and sound: "market_supported (in_definition input)"
    and loaded: "windows_cut None frames (sim_windows sim) loaded"
  shows "same_result (\<lambda>whole windowed. sim_checkpoints whole = sim_checkpoints windowed \<and>
      finish D js_pow whole = finish D js_pow windowed)
    (consumeWholePeriod D js_pow options frames sim) (run_windows D js_pow options loaded sim)"
proof -
  let ?windows = "sim_windows sim" and ?def = "in_definition input"
  from run have fields: "sim_input sim = input" "sim_contextRows sim = []" "sim_nextWindowIndex sim = 0" "sim_runtimes sim = []"
    "sim_calendar sim = buildExecutionCalendar (in_startDate input) (in_endDate input) (in_executionCalendar input)"
    "?windows = planExecutionWindows (sim_calendar sim) (in_startDate input) (in_endDate input)"
    by (auto simp: new_BacktestSimulation_def Let_def split: option.splits if_splits)
  have asc: "ascending (sim_calendar sim)" by (simp add: fields(5) buildExecutionCalendar_def)
  have within: "\<forall>d \<in> set (sim_calendar sim). isLocalDate d \<and> in_startDate input \<le> d \<and> d \<le> in_endDate input"
    using dates by (simp add: fields(5) buildExecutionCalendar_def)
  note partition = windows_partition_calendar_facts [OF asc within, folded fields(6)]
  note good = planned_windows_good [OF asc within, folded fields(6)]
  obtain rs where rs: "open_runtimes ?def [] 0 (in_securities input) frames = Inr rs" "map runtime_frame rs = frames"
    "map runtime_setup rs = in_securities input" "\<forall>r \<in> set rs. tracked ?def None [] r"
    using open_runtimes_whole [OF frames sound ok] by blast
  define opened where "opened = sim\<lparr>sim_nextWindowIndex := length ?windows, sim_runtimes := rs\<rparr>"
  have open_whole: "openWindow frames (sim\<lparr>sim_nextWindowIndex := length ?windows\<rparr>) = Inr opened"
    using list_all2_lengthD [OF frames] rs(1) by (simp add: openWindow_def fields opened_def)
  have ids': "distinct (map (\<lambda>r. setup_securityId (runtime_setup r)) rs)"
    using ids rs(3) by (metis map_map comp_def list.map_cong0)
  have "at_boundary ?def frames ?windows (length ([] :: execution_window list)) None opened sim"
    unfolding at_boundary_def using rs ids' by (auto simp: opened_def fields intro!: exI [of _ "[]"])
  from windows_twins [where past = "[]", OF sound _ _ _ good(2) loaded this]
  have "same_result (\<lambda>s t. \<exists>p. at_boundary ?def frames ?windows (length ?windows) p s t)
      (result_fold (\<lambda>w. result_fold (simulateDate D js_pow options) (window_dates w)) ?windows opened)
      (run_windows D js_pow options loaded sim)"
    using good(1) partition(2) by (simp add: run_windows_def)
  moreover have "consumeWholePeriod D js_pow options frames sim =
      result_map closeWindow (result_fold (\<lambda>w. result_fold (simulateDate D js_pow options) (window_dates w)) ?windows opened)"
    unfolding result_fold_map [symmetric, of "result_fold (simulateDate D js_pow options)" window_dates]
      result_fold_concat [symmetric] partition(1)
    by (simp add: consumeWholePeriod_def fields(3) simulate_dates_def open_whole)
  ultimately show ?thesis
    by (auto elim!: rel_sum.cases simp: finished_at_boundary)
qed


subsection \<open>A run of two years\<close>

definition two_year_frame :: evaluation_frame where
  "two_year_frame =
     \<lparr>frame_security = ''s'', frame_symbol = ''S'', frame_name = ''N'',
      frame_dates = [''2020-12-30'', ''2020-12-31'', ''2021-01-04''],
      frame_closes = [Fin 10, Fin 11, Fin 12], frame_columns = [], periodStartIndex = 0\<rparr>"

definition two_year_input :: simulation_input where
  "two_year_input = example_input
     \<lparr>in_executionCalendar := frame_dates two_year_frame, in_endDate := ''2021-01-31'',
      in_securities := map securitySetup example_securities\<rparr>"

definition two_year_start :: simulation where
  "two_year_start = projr (new_BacktestSimulation decimal_js two_year_input)"

lemma two_year_start:
  "new_BacktestSimulation decimal_js two_year_input = Inr two_year_start"
  "sim_windows two_year_start = planExecutionWindows (frame_dates two_year_frame) ''2020-12-01'' ''2021-01-31''"
proof -
  have input: "assertInput two_year_input = None" by code_simp
  have cal: "buildExecutionCalendar (in_startDate two_year_input) (in_endDate two_year_input)
      (in_executionCalendar two_year_input) = frame_dates two_year_frame"
    "in_executionCalendar two_year_input \<noteq> []" "frame_dates two_year_frame \<noteq> []"
    "in_startDate two_year_input = ''2020-12-01''" "in_endDate two_year_input = ''2021-01-31''" by code_simp+
  note facts = two_year_start_def new_BacktestSimulation_def input cal(1) if_not_P [OF cal(2)] if_not_P [OF cal(3)] Let_def option.case
  show "new_BacktestSimulation decimal_js two_year_input = Inr two_year_start" unfolding facts by simp
  show "sim_windows two_year_start = planExecutionWindows (frame_dates two_year_frame) ''2020-12-01'' ''2021-01-31''"
    unfolding facts by (simp add: cal(4,5))
qed

theorem year_boundary_is_invisible_witness:
  "same_result (\<lambda>whole windowed. sim_checkpoints whole = sim_checkpoints windowed \<and>
      finish decimal_js (\<lambda>x y. x) whole = finish decimal_js (\<lambda>x y. x) windowed)
    (consumeWholePeriod decimal_js (\<lambda>x y. x) DEFAULT_OPTIONS [two_year_frame] two_year_start)
    (run_windows decimal_js (\<lambda>x y. x) DEFAULT_OPTIONS
       [[truncate_frame 2 two_year_frame], [slice_frame 2 two_year_frame]] two_year_start)"
proof (rule year_boundary_is_invisible [OF two_year_start(1)])
  show "\<forall>date \<in> set (in_executionCalendar two_year_input). isLocalDate date" by code_simp
  show "list_all2 (\<lambda>sp frame. frame_security frame = setup_securityId sp) (in_securities two_year_input) [two_year_frame]"
    by code_simp
  show "distinct (map setup_securityId (in_securities two_year_input))" by code_simp
  show "\<forall>frame \<in> set [two_year_frame]. frame_ok frame \<and> js_map_ok (frame_columns frame)"
    by (simp add: two_year_frame_def frame_ok_def js_map_ok_def)
  have "metricOperand (PRICE None) = Inr (Some PRICE_OPERAND)" by code_simp
  then show "market_supported (in_definition two_year_input)"
    by (simp add: market_supported_def two_year_input_def example_input_def example_definition_def final_exit_rules_def
        signal_predicates_def isMarketDerivedPredicate_def)
  have windows: "map window_to (sim_windows two_year_start) = [''2020-12-31'', ''2021-01-31'']"
    unfolding two_year_start(2) by code_simp
  then obtain v w where vw: "sim_windows two_year_start = [v, w]" "window_to v = ''2020-12-31''" "window_to w = ''2021-01-31''"
    by auto
  have through: "dates_through (frame_dates two_year_frame) ''2020-12-31'' = 2"
    "dates_through (frame_dates two_year_frame) ''2021-01-31'' = 3" by code_simp+
  have "slice_frame 0 (truncate_frame 2 two_year_frame)\<lparr>periodStartIndex := 0\<rparr> = truncate_frame 2 two_year_frame"
    "slice_frame 2 (truncate_frame 3 two_year_frame)\<lparr>periodStartIndex := 0\<rparr> = slice_frame 2 two_year_frame"
    by (simp_all add: two_year_frame_def slice_frame_def truncate_frame_def)
  then have "\<exists>p. truncate_frame 2 two_year_frame = slice_frame 0 (truncate_frame 2 two_year_frame)\<lparr>periodStartIndex := p\<rparr>"
    "\<exists>a \<le> 2. \<exists>p. slice_frame 2 two_year_frame = slice_frame a (truncate_frame 3 two_year_frame)\<lparr>periodStartIndex := p\<rparr>"
    by (metis order_refl)+
  then show "windows_cut None [two_year_frame] (sim_windows two_year_start)
      [[truncate_frame 2 two_year_frame], [slice_frame 2 two_year_frame]]"
    unfolding vw windows_cut.simps window_frame_def sessions_until_def vw(2,3) through
    by (simp add: through)
qed

end
