(* ===== verification/MonitorLifecycle.thy ===== *)
theory MonitorLifecycle
  imports Evaluability
begin

section \<open>The monitor signal lifecycle\<close>

text \<open>
  \<open>packages/strategy/src/monitor-lifecycle.ts\<close>: the pure reducer of one monitored level. A level keeps
  the lifecycle of every rule and a state of its own; an observation first ends what it ends and then
  begins what it begins. Records keyed by rule id are association lists.
\<close>

subsection \<open>States\<close>

datatype lifecycle_state = INACTIVE | PENDING_TRIGGER | ACTIVE | RESOLVED

datatype transition_reason =
  CONDITIONS_MET | SETUP_STARTED | TRIGGER_FIRED | CONDITIONS_ENDED | EVENT_SESSION_ENDED
| BUY_WINDOW_CLOSED | LOGIC_CHANGED | LEVEL_REMOVED | MEMBER_REMOVED | MONITOR_REBOUND
| RECONSTRUCTED | MEMBERSHIP_CHANGED

record rule_lifecycle =
  rule_state :: lifecycle_state
  rule_since :: "local_date option"
  rule_triggerDate :: "local_date option"

record level_lifecycle =
  level_state :: lifecycle_state
  level_since :: "local_date option"
  level_rules :: "(string \<times> rule_lifecycle) list"

definition INITIAL_MONITOR_LEVEL_LIFECYCLE :: level_lifecycle where
  "INITIAL_MONITOR_LEVEL_LIFECYCLE = \<lparr>level_state = INACTIVE, level_since = None, level_rules = []\<rparr>"

text \<open>A rule without conditions or without a trigger observes \<open>None\<close> for that part.\<close>

record rule_observation =
  obs_key :: string
  obs_exitRuleId :: "string option"
  obs_conditions :: "evaluability option"
  obs_trigger :: "evaluability option"

record level_step =
  step_date :: local_date
  step_eligible :: bool
  step_rules :: "rule_observation list"

record lifecycle_transition =
  from_state :: lifecycle_state
  to_state :: lifecycle_state
  transition_reason :: transition_reason
  transition_exitRuleId :: "string option"
  transition_date :: local_date

record level_step_result =
  step_next :: level_lifecycle
  step_transitions :: "lifecycle_transition list"
  step_closed :: "transition_reason option"
  step_opened :: bool
  step_changed :: bool

record rule_step =
  afterClose :: rule_lifecycle
  afterOpen :: rule_lifecycle
  closeReason :: "transition_reason option"
  openReason :: "transition_reason option"

definition inheritedRule :: "level_lifecycle \<Rightarrow> rule_lifecycle" where
  "inheritedRule level =
     \<lparr>rule_state = level_state level, rule_since = level_since level,
      rule_triggerDate = (if level_state level = ACTIVE then level_since level else None)\<rparr>"

subsection \<open>One rule\<close>

fun ended :: "lifecycle_state \<Rightarrow> lifecycle_state option" where
  "ended ACTIVE = Some RESOLVED"
| "ended PENDING_TRIGGER = Some INACTIVE"
| "ended _ = None"

text \<open>The state the close phase moves to, if any, and the reason it would record.\<close>

definition close_phase ::
  "rule_lifecycle \<Rightarrow> rule_observation \<Rightarrow> local_date \<Rightarrow> bool \<Rightarrow> lifecycle_state option \<times> transition_reason option"
where
  "close_phase rule observation date eligible =
     (if \<not> eligible then (ended (rule_state rule), Some BUY_WINDOW_CLOSED)
      else if obs_conditions observation \<noteq> None then
        (if obs_conditions observation = Some FALSE then ended (rule_state rule) else None, Some CONDITIONS_ENDED)
      else if rule_state rule = ACTIVE \<and> (case rule_since rule of None \<Rightarrow> True | Some since \<Rightarrow> date > since)
      then (Some RESOLVED, Some EVENT_SESSION_ENDED)
      else (None, None))"

definition open_phase ::
  "rule_lifecycle \<Rightarrow> rule_observation \<Rightarrow> local_date \<Rightarrow> rule_lifecycle \<times> transition_reason option"
where
  "open_phase current observation date =
     (let freshTrigger = (obs_trigger observation = Some TRUE \<and>
            (case rule_triggerDate current of None \<Rightarrow> True | Some consumed \<Rightarrow> date > consumed));
          fired = \<lparr>rule_state = ACTIVE, rule_since = Some date, rule_triggerDate = Some date\<rparr>
      in if obs_conditions observation = None then
           (if freshTrigger then (fired, Some TRIGGER_FIRED) else (current, None))
         else if obs_conditions observation = Some TRUE then
           (if obs_trigger observation = None
            then (current\<lparr>rule_state := ACTIVE, rule_since := Some date\<rparr>, Some CONDITIONS_MET)
            else if freshTrigger then (fired, Some TRIGGER_FIRED)
            else if rule_state current \<noteq> PENDING_TRIGGER
            then (current\<lparr>rule_state := PENDING_TRIGGER, rule_since := Some date\<rparr>, Some SETUP_STARTED)
            else (current, None))
         else (current, None))"

definition stepRule :: "rule_lifecycle \<Rightarrow> rule_observation \<Rightarrow> local_date \<Rightarrow> bool \<Rightarrow> rule_step" where
  "stepRule rule observation date eligible =
     (if (case rule_since rule of None \<Rightarrow> False | Some since \<Rightarrow> date < since)
      then \<lparr>afterClose = rule, afterOpen = rule, closeReason = None, openReason = None\<rparr>
      else
        (let (closeTo, reason) = close_phase rule observation date eligible;
             current = (case closeTo of None \<Rightarrow> rule
               | Some state \<Rightarrow> rule\<lparr>rule_state := state, rule_since := Some date\<rparr>);
             (opened, opening) =
               (if eligible \<and> rule_state current \<noteq> ACTIVE then open_phase current observation date
                else (current, None))
         in \<lparr>afterClose = current, afterOpen = opened,
              closeReason = (if closeTo = None then None else reason), openReason = opening\<rparr>))"

subsection \<open>One level\<close>

definition levelOf :: "rule_lifecycle list \<Rightarrow> lifecycle_state option" where
  "levelOf rules =
     (if list_ex (\<lambda>rule. rule_state rule = ACTIVE) rules then Some ACTIVE
      else if list_ex (\<lambda>rule. rule_state rule = PENDING_TRIGGER) rules then Some PENDING_TRIGGER
      else None)"

fun find_index :: "('a \<Rightarrow> bool) \<Rightarrow> 'a list \<Rightarrow> nat option" where
  "find_index P [] = None"
| "find_index P (x # xs) = (if P x then Some 0 else map_option Suc (find_index P xs))"

definition rule_before :: "level_lifecycle \<Rightarrow> rule_observation \<Rightarrow> rule_lifecycle" where
  "rule_before previous observation =
     (case map_of (level_rules previous) (obs_key observation) of
        None \<Rightarrow> inheritedRule previous | Some rule \<Rightarrow> rule)"

definition sameLifecycle :: "level_lifecycle \<Rightarrow> level_lifecycle \<Rightarrow> bool" where
  "sameLifecycle left right =
     (level_state left = level_state right \<and> level_since left = level_since right \<and>
      length (js_keys (level_rules left)) = length (js_keys (level_rules right)) \<and>
      list_all (\<lambda>key. map_of (level_rules left) key \<noteq> None \<and>
        map_of (level_rules left) key = map_of (level_rules right) key) (js_keys (level_rules left)))"

text \<open>The level after the close phase, before and after the correction for a rule taking over.\<close>

definition level_closed :: "lifecycle_state \<Rightarrow> rule_step list \<Rightarrow> lifecycle_state" where
  "level_closed prior steps =
     (let closedAggregate = levelOf (map afterClose steps)
      in if prior = ACTIVE \<and> closedAggregate \<noteq> Some ACTIVE then RESOLVED
         else if prior = PENDING_TRIGGER \<and> closedAggregate = None then INACTIVE
         else prior)"

definition level_opened :: "lifecycle_state \<Rightarrow> rule_step list \<Rightarrow> lifecycle_state" where
  "level_opened prior steps =
     (case levelOf (map afterOpen steps) of None \<Rightarrow> level_closed prior steps | Some state \<Rightarrow> state)"

definition level_settled :: "lifecycle_state \<Rightarrow> rule_step list \<Rightarrow> lifecycle_state" where
  "level_settled prior steps =
     (if prior = ACTIVE \<and> level_closed prior steps = RESOLVED \<and> level_opened prior steps = ACTIVE \<and>
         list_ex (\<lambda>entry. openReason entry \<noteq> None \<and> closeReason entry = None
           \<and> rule_state (afterOpen entry) = ACTIVE) steps
      then ACTIVE else level_closed prior steps)"

text \<open>The index of the rule a state ended or began with, and the reason recorded.\<close>

definition ending_rule :: "lifecycle_state \<Rightarrow> rule_lifecycle list \<Rightarrow> rule_step list \<Rightarrow> (nat \<times> transition_reason option) option" where
  "ending_rule prior befores steps =
     map_option (\<lambda>i. (i, closeReason (steps ! i)))
       (find_index (\<lambda>(before, entry). closeReason entry \<noteq> None \<and> rule_state before = prior) (zip befores steps))"

definition beginning_rule :: "lifecycle_state \<Rightarrow> rule_step list \<Rightarrow> (nat \<times> transition_reason option) option" where
  "beginning_rule opened steps =
     (case find_index (\<lambda>entry. openReason entry \<noteq> None \<and> rule_state (afterOpen entry) = opened) steps of
        Some i \<Rightarrow> Some (i, openReason (steps ! i))
      | None \<Rightarrow>
          if opened = PENDING_TRIGGER
          then map_option (\<lambda>i. (i, Some SETUP_STARTED))
            (find_index (\<lambda>entry. rule_state (afterOpen entry) = PENDING_TRIGGER) steps)
          else None)"

definition transition_of ::
  "lifecycle_state \<Rightarrow> lifecycle_state \<Rightarrow> rule_observation list \<Rightarrow> local_date
   \<Rightarrow> (nat \<times> transition_reason option) option \<Rightarrow> lifecycle_transition list"
where
  "transition_of a b rules date found =
     (case found of
        Some (i, Some reason) \<Rightarrow>
          if b \<noteq> a
          then [\<lparr>from_state = a, to_state = b, transition_reason = reason,
                 transition_exitRuleId = obs_exitRuleId (rules ! i), transition_date = date\<rparr>]
          else []
      | _ \<Rightarrow> [])"

definition stepMonitorLevel :: "level_lifecycle \<Rightarrow> level_step \<Rightarrow> level_step_result" where
  "stepMonitorLevel previous step =
     (let befores = map (rule_before previous) (step_rules step);
          steps = map2 (\<lambda>before observation. stepRule before observation (step_date step) (step_eligible step))
            befores (step_rules step);
          prior = level_state previous;
          closed = level_settled prior steps;
          opened = level_opened prior steps;
          ending = ending_rule prior befores steps;
          transitions =
            (if prior = PENDING_TRIGGER \<and> closed = INACTIVE \<and> opened = PENDING_TRIGGER then []
             else transition_of prior closed (step_rules step) (step_date step) ending
               @ transition_of closed opened (step_rules step) (step_date step) (beginning_rule opened steps));
          next_level =
            \<lparr>level_state = (if transitions \<noteq> [] then opened else prior),
             level_since = (if transitions \<noteq> [] then Some (step_date step) else level_since previous),
             level_rules = foldl (\<lambda>rules (observation, entry). js_map_set (obs_key observation) (afterOpen entry) rules)
               [] (zip (step_rules step) steps)\<rparr>
      in \<lparr>step_next = next_level, step_transitions = transitions,
          step_closed =
            (if prior = ACTIVE \<and> closed = RESOLVED
             then (case ending of None \<Rightarrow> None | Some (_, reason) \<Rightarrow> reason) else None),
          step_opened = (opened = ACTIVE \<and> closed \<noteq> ACTIVE),
          step_changed = (\<not> sameLifecycle previous next_level)\<rparr>)"

subsection \<open>Replay and reconstruction\<close>

definition replayMonitorLevel :: "level_step list \<Rightarrow> level_lifecycle \<Rightarrow> level_lifecycle" where
  "replayMonitorLevel steps initial = foldl (\<lambda>current step. step_next (stepMonitorLevel current step)) initial steps"

definition isRestingMonitorStep :: "level_step \<Rightarrow> bool" where
  "isRestingMonitorStep step =
     list_all (\<lambda>rule. \<not> step_eligible step \<or>
       (case obs_conditions rule of
          Some value \<Rightarrow> value = FALSE
        | None \<Rightarrow> obs_trigger rule \<noteq> Some TRUE)) (step_rules step)"

definition at_rest :: "lifecycle_state \<Rightarrow> bool" where
  "at_rest state \<longleftrightarrow> state \<noteq> ACTIVE \<and> state \<noteq> PENDING_TRIGGER"

definition settle_rule :: "local_date \<Rightarrow> rule_lifecycle \<Rightarrow> rule_lifecycle" where
  "settle_rule anchor rule =
     (if at_rest (rule_state rule) \<and> (case rule_since rule of None \<Rightarrow> True | Some since \<Rightarrow> since \<le> anchor)
      then \<lparr>rule_state = INACTIVE, rule_since = Some anchor, rule_triggerDate = None\<rparr>
      else rule\<lparr>rule_triggerDate :=
        (case rule_triggerDate rule of
           None \<Rightarrow> None | Some consumed \<Rightarrow> if consumed < anchor then None else Some consumed)\<rparr>)"

definition settleMonitorLevelLifecycle :: "level_lifecycle \<Rightarrow> local_date \<Rightarrow> level_lifecycle" where
  "settleMonitorLevelLifecycle lifecycle anchor =
     (let settled = (at_rest (level_state lifecycle) \<and>
            (case level_since lifecycle of None \<Rightarrow> True | Some since \<Rightarrow> since \<le> anchor))
      in \<lparr>level_state = (if settled then INACTIVE else level_state lifecycle),
          level_since = (if settled then Some anchor else level_since lifecycle),
          level_rules = map (\<lambda>p. (fst p, settle_rule anchor (snd p))) (level_rules lifecycle)\<rparr>)"

record level_reconstruction =
  recon_exact :: bool
  recon_lifecycle :: level_lifecycle
  recon_live :: level_step_result
  recon_anchor :: "local_date option"
  recon_replayed :: nat

text \<open>The loop that walks back to the latest resting observation; \<open>- 1\<close> when there is none.\<close>

fun latest_resting :: "level_step list \<Rightarrow> int" where
  "latest_resting [] = - 1"
| "latest_resting (step # steps) =
     (let later = latest_resting steps
      in if 0 \<le> later then later + 1 else if isRestingMonitorStep step then 0 else - 1)"

definition reconstructMonitorLevel :: "level_step list \<Rightarrow> level_step \<Rightarrow> bool \<Rightarrow> level_reconstruction" where
  "reconstructMonitorLevel history live is_complete =
     (let start = latest_resting history;
          historyAnchor = (if 0 \<le> start then Some (step_date (history ! nat start)) else None);
          liveRests = isRestingMonitorStep live;
          begin_at = nat (max start 0);
          current = replayMonitorLevel (drop begin_at history) INITIAL_MONITOR_LEVEL_LIFECYCLE;
          result = stepMonitorLevel current live;
          anchor = (case historyAnchor of Some date \<Rightarrow> Some date
            | None \<Rightarrow> if liveRests then Some (step_date live) else None)
      in \<lparr>recon_exact = (historyAnchor \<noteq> None \<or> liveRests \<or> is_complete),
          recon_lifecycle = (case anchor of None \<Rightarrow> step_next result
            | Some date \<Rightarrow> settleMonitorLevelLifecycle (step_next result) date),
          recon_live = result, recon_anchor = anchor, recon_replayed = length history - begin_at\<rparr>)"


subsection \<open>The documented state machine\<close>

text \<open>
  The moves of a level: an occurrence begins at rest or from a waiting setup, a setup begins at rest,
  an occurrence resolves and a setup that never fired returns to \<open>INACTIVE\<close>.
\<close>

inductive lifecycle_move :: "lifecycle_state \<Rightarrow> transition_reason \<Rightarrow> lifecycle_state \<Rightarrow> bool" where
  begins: "s \<noteq> ACTIVE \<Longrightarrow> reason \<in> {CONDITIONS_MET, TRIGGER_FIRED} \<Longrightarrow> lifecycle_move s reason ACTIVE"
| waits: "at_rest s \<Longrightarrow> lifecycle_move s SETUP_STARTED PENDING_TRIGGER"
| resolves: "reason \<in> {CONDITIONS_ENDED, EVENT_SESSION_ENDED, BUY_WINDOW_CLOSED} \<Longrightarrow> lifecycle_move ACTIVE reason RESOLVED"
| drops: "reason \<in> {CONDITIONS_ENDED, BUY_WINDOW_CLOSED} \<Longrightarrow> lifecycle_move PENDING_TRIGGER reason INACTIVE"

inductive_simps lifecycle_move_iff: "lifecycle_move s reason s'"

inductive lifecycle_path :: "lifecycle_state \<Rightarrow> lifecycle_transition list \<Rightarrow> lifecycle_state \<Rightarrow> bool" where
  stays: "lifecycle_path s [] s"
| moves: "lifecycle_move (from_state t) (transition_reason t) (to_state t) \<Longrightarrow> lifecycle_path (to_state t) ts s \<Longrightarrow>
    lifecycle_path (from_state t) (t # ts) s"

inductive_simps lifecycle_path_simps [simp]: "lifecycle_path s [] s'" "lifecycle_path s (t # ts) s'"

lemma lifecycle_path_append: "lifecycle_path s (ts @ us) s' \<longleftrightarrow> (\<exists>m. lifecycle_path s ts m \<and> lifecycle_path m us s')"
  by (induction ts arbitrary: s) auto

subsection \<open>What a rule's step can do\<close>

lemma ended_cases: "ended s = Some s' \<longleftrightarrow> s = ACTIVE \<and> s' = RESOLVED \<or> s = PENDING_TRIGGER \<and> s' = INACTIVE"
  by (cases s) auto

definition rule_closes :: "rule_lifecycle \<Rightarrow> rule_step \<Rightarrow> bool" where
  "rule_closes before entry \<longleftrightarrow>
     closeReason entry = None \<and> afterClose entry = before \<or>
     (\<exists>reason. closeReason entry = Some reason \<and> rule_state before = ACTIVE \<and>
        rule_state (afterClose entry) = RESOLVED \<and>
        reason \<in> {CONDITIONS_ENDED, EVENT_SESSION_ENDED, BUY_WINDOW_CLOSED}) \<or>
     (\<exists>reason. closeReason entry = Some reason \<and> rule_state before = PENDING_TRIGGER \<and>
        rule_state (afterClose entry) = INACTIVE \<and> reason \<in> {CONDITIONS_ENDED, BUY_WINDOW_CLOSED})"

definition rule_opens :: "rule_step \<Rightarrow> bool" where
  "rule_opens entry \<longleftrightarrow>
     openReason entry = None \<and> afterOpen entry = afterClose entry \<or>
     (\<exists>reason. openReason entry = Some reason \<and> rule_state (afterClose entry) \<noteq> ACTIVE \<and>
        rule_state (afterOpen entry) = ACTIVE \<and> reason \<in> {CONDITIONS_MET, TRIGGER_FIRED}) \<or>
     openReason entry = Some SETUP_STARTED \<and> at_rest (rule_state (afterClose entry)) \<and>
        rule_state (afterOpen entry) = PENDING_TRIGGER"

lemma stepRule_closes: "rule_closes before (stepRule before observation date eligible)"
  unfolding rule_closes_def stepRule_def Let_def close_phase_def
  by (cases "rule_state before") (auto split: option.splits prod.splits)

lemma stepRule_opens: "rule_opens (stepRule before observation date eligible)"
  unfolding rule_opens_def stepRule_def Let_def open_phase_def at_rest_def
  by (auto split: option.splits prod.splits)

subsection \<open>The level agrees with its rules\<close>

definition agrees :: "lifecycle_state \<Rightarrow> rule_lifecycle list \<Rightarrow> bool" where
  "agrees state rules \<longleftrightarrow> (case levelOf rules of Some s \<Rightarrow> state = s | None \<Rightarrow> at_rest state)"

lemma levelOf_iff:
  "levelOf rules = Some ACTIVE \<longleftrightarrow> (\<exists>r \<in> set rules. rule_state r = ACTIVE)"
  "levelOf rules = Some PENDING_TRIGGER \<longleftrightarrow>
     (\<forall>r \<in> set rules. rule_state r \<noteq> ACTIVE) \<and> (\<exists>r \<in> set rules. rule_state r = PENDING_TRIGGER)"
  "levelOf rules = None \<longleftrightarrow> (\<forall>r \<in> set rules. at_rest (rule_state r))"
  by (auto simp: levelOf_def list_ex_iff at_rest_def)

lemma levelOf_cases:
  obtains "levelOf rules = Some ACTIVE" | "levelOf rules = Some PENDING_TRIGGER" | "levelOf rules = None"
  by (metis levelOf_def)

lemma find_index_Some: "find_index P xs = Some i \<Longrightarrow> i < length xs \<and> P (xs ! i)"
  by (induction xs arbitrary: i) (auto split: if_splits)

lemma find_index_None: "find_index P xs = None \<longleftrightarrow> (\<forall>x \<in> set xs. \<not> P x)"
  by (induction xs) auto


lemma find_index_hit: "x \<in> set xs \<Longrightarrow> P x \<Longrightarrow> \<exists>k. find_index P xs = Some k"
  using find_index_None [of P xs] by blast

lemma ending_found:
  assumes closes: "list_all2 rule_closes befores steps"
    and found: "i < length steps" "closeReason (steps ! i) \<noteq> None" "rule_state (befores ! i) = prior"
  obtains k reason where "ending_rule prior befores steps = Some (k, Some reason)" "lifecycle_move prior reason (the (ended prior))"
proof -
  let ?P = "\<lambda>(before, entry). closeReason entry \<noteq> None \<and> rule_state before = prior"
  have len: "length befores = length steps" by (rule list_all2_lengthD [OF closes])
  then have "zip befores steps ! i \<in> set (zip befores steps)" "?P (zip befores steps ! i)"
    using found nth_mem [of i "zip befores steps"] by simp_all
  then obtain k where k: "find_index ?P (zip befores steps) = Some k" using find_index_hit by metis
  from find_index_Some [OF k] len have k': "k < length steps" "closeReason (steps ! k) \<noteq> None" "rule_state (befores ! k) = prior"
    by auto
  have "rule_closes (befores ! k) (steps ! k)" using list_all2_nthD2 [OF closes k'(1)] .
  then obtain reason where "closeReason (steps ! k) = Some reason" "lifecycle_move prior reason (the (ended prior))"
    using k'(2,3) by (auto simp: rule_closes_def lifecycle_move_iff)
  with k show ?thesis using that by (simp add: ending_rule_def)
qed

lemma ending_not_found:
  "\<forall>e \<in> set steps. closeReason e = None \<Longrightarrow> ending_rule prior befores steps = None"
  by (auto simp: ending_rule_def find_index_None dest: set_zip_rightD)

lemma beginning_active:
  assumes opens: "\<forall>e \<in> set steps. rule_opens e" and aggregate: "levelOf (map afterOpen steps) = Some ACTIVE"
    and before: "levelOf (map afterClose steps) \<noteq> Some ACTIVE"
  obtains k reason where "beginning_rule ACTIVE steps = Some (k, Some reason)" "reason \<in> {CONDITIONS_MET, TRIGGER_FIRED}"
    and "k < length steps" "rule_state (afterOpen (steps ! k)) = ACTIVE" "openReason (steps ! k) \<noteq> None"
proof -
  let ?P = "\<lambda>entry. openReason entry \<noteq> None \<and> rule_state (afterOpen entry) = ACTIVE"
  obtain e where e: "e \<in> set steps" "rule_state (afterOpen e) = ACTIVE" using aggregate by (auto simp: levelOf_iff)
  then have "rule_state (afterClose e) \<noteq> ACTIVE" using before by (auto simp: levelOf_iff)
  then have "openReason e \<noteq> None" using opens e by (auto simp: rule_opens_def)
  then have "find_index ?P steps \<noteq> None" using e by (auto simp: find_index_None)
  then obtain k where k: "find_index ?P steps = Some k" by auto
  from find_index_Some [OF k] have k': "k < length steps" "?P (steps ! k)" by blast+
  then have "rule_opens (steps ! k)" using opens by simp
  then obtain reason where "openReason (steps ! k) = Some reason" "reason \<in> {CONDITIONS_MET, TRIGGER_FIRED}"
    using k'(2) by (auto simp: rule_opens_def)
  with k k' show ?thesis using that by (simp add: beginning_rule_def)
qed

lemma beginning_pending:
  assumes opens: "\<forall>e \<in> set steps. rule_opens e" and aggregate: "levelOf (map afterOpen steps) = Some PENDING_TRIGGER"
  obtains k where "beginning_rule PENDING_TRIGGER steps = Some (k, Some SETUP_STARTED)"
proof (cases "find_index (\<lambda>e. openReason e \<noteq> None \<and> rule_state (afterOpen e) = PENDING_TRIGGER) steps")
  case None
  obtain e where "e \<in> set steps" "rule_state (afterOpen e) = PENDING_TRIGGER" using aggregate by (auto simp: levelOf_iff)
  then have "find_index (\<lambda>e. rule_state (afterOpen e) = PENDING_TRIGGER) steps \<noteq> None" by (auto simp: find_index_None)
  then show ?thesis using that None by (auto simp: beginning_rule_def)
next
  case (Some k)
  from find_index_Some [OF this] have k: "k < length steps" "openReason (steps ! k) \<noteq> None"
    "rule_state (afterOpen (steps ! k)) = PENDING_TRIGGER" by blast+
  then have "rule_opens (steps ! k)" using opens by simp
  then have "openReason (steps ! k) = Some SETUP_STARTED" using k by (auto simp: rule_opens_def)
  then show ?thesis using that Some by (simp add: beginning_rule_def)
qed

text \<open>The transitions of one observation and the state they lead to.\<close>

definition level_moves ::
  "lifecycle_state \<Rightarrow> rule_lifecycle list \<Rightarrow> rule_step list \<Rightarrow> rule_observation list \<Rightarrow> local_date \<Rightarrow> lifecycle_transition list"
where
  "level_moves prior befores steps rules date =
     (let closed = level_settled prior steps; opened = level_opened prior steps
      in if prior = PENDING_TRIGGER \<and> closed = INACTIVE \<and> opened = PENDING_TRIGGER then []
         else transition_of prior closed rules date (ending_rule prior befores steps)
           @ transition_of closed opened rules date (beginning_rule opened steps))"

definition level_after :: "lifecycle_state \<Rightarrow> rule_step list \<Rightarrow> lifecycle_transition list \<Rightarrow> lifecycle_state" where
  "level_after prior steps moved = (if moved \<noteq> [] then level_opened prior steps else prior)"

definition occurrence_agrees :: "lifecycle_state \<Rightarrow> rule_lifecycle list \<Rightarrow> rule_step list \<Rightarrow> lifecycle_transition list \<Rightarrow> bool" where
  "occurrence_agrees prior befores steps moved \<longleftrightarrow>
     (level_opened prior steps = ACTIVE \<and> level_settled prior steps \<noteq> ACTIVE \<longleftrightarrow> (\<exists>t \<in> set moved. to_state t = ACTIVE)) \<and>
     (\<forall>reason. (prior = ACTIVE \<and> level_settled prior steps = RESOLVED \<and>
        (\<exists>k. ending_rule prior befores steps = Some (k, Some reason))) \<longleftrightarrow>
        (\<exists>t \<in> set moved. from_state t = ACTIVE \<and> transition_reason t = reason))"

lemma transition_of_Some:
  "transition_of a b rules date (Some (i, Some reason)) =
     (if b \<noteq> a then [\<lparr>from_state = a, to_state = b, transition_reason = reason,
        transition_exitRuleId = obs_exitRuleId (rules ! i), transition_date = date\<rparr>] else [])"
  by (simp add: transition_of_def)

lemma transition_of_none [simp]: "transition_of a a rules date found = []" "transition_of a b rules date None = []"
  by (auto simp: transition_of_def split: option.split)

lemma level_step_active:
  assumes agree: "agrees ACTIVE befores" and closes: "list_all2 rule_closes befores steps"
    and opens: "\<forall>e \<in> set steps. rule_opens e" and moved: "moved = level_moves ACTIVE befores steps rules date"
  shows "lifecycle_path ACTIVE moved (level_after ACTIVE steps moved) \<and>
    agrees (level_after ACTIVE steps moved) (map afterOpen steps) \<and> occurrence_agrees ACTIVE befores steps moved"
proof (cases "levelOf (map afterClose steps) = Some ACTIVE")
  case True
  then obtain e where e: "e \<in> set steps" "rule_state (afterClose e) = ACTIVE" by (auto simp: levelOf_iff)
  then have "afterOpen e = afterClose e" using opens by (auto simp: rule_opens_def at_rest_def)
  with e have "\<exists>e \<in> set steps. rule_state (afterOpen e) = ACTIVE" by (intro bexI [of _ e]) simp_all
  then have after: "levelOf (map afterOpen steps) = Some ACTIVE" by (simp add: levelOf_iff)
  have "level_settled ACTIVE steps = ACTIVE" "level_opened ACTIVE steps = ACTIVE"
    using True after by (simp_all add: level_settled_def level_closed_def level_opened_def)
  then show ?thesis
    using after by (simp add: moved level_moves_def level_after_def agrees_def occurrence_agrees_def)
next
  case False
  have closed: "level_closed ACTIVE steps = RESOLVED" using False by (simp add: level_closed_def)
  have len: "length befores = length steps" by (rule list_all2_lengthD [OF closes])
  obtain b where b: "b \<in> set befores" "rule_state b = ACTIVE"
    using agree by (cases rule: levelOf_cases [of befores]) (auto simp: agrees_def levelOf_iff at_rest_def)
  then obtain i where i: "i < length steps" "rule_state (befores ! i) = ACTIVE" using len by (metis in_set_conv_nth)
  have "rule_closes (befores ! i) (steps ! i)" using list_all2_nthD2 [OF closes i(1)] .
  moreover have "rule_state (afterClose (steps ! i)) \<noteq> ACTIVE" using False i(1) by (auto simp: levelOf_iff)
  ultimately have "closeReason (steps ! i) \<noteq> None" using i(2) by (auto simp: rule_closes_def)
  then obtain k reason where ending: "ending_rule ACTIVE befores steps = Some (k, Some reason)"
      "lifecycle_move ACTIVE reason RESOLVED"
    using ending_found [OF closes i(1) _ i(2)] by auto
  show ?thesis
  proof (cases rule: levelOf_cases [of "map afterOpen steps"])
    case 1
    then have opened: "level_opened ACTIVE steps = ACTIVE" by (simp add: level_opened_def)
    obtain j begin_reason where begins: "beginning_rule ACTIVE steps = Some (j, Some begin_reason)"
        "begin_reason \<in> {CONDITIONS_MET, TRIGGER_FIRED}" by (rule beginning_active [OF opens 1 False])
    show ?thesis
    proof (cases "level_settled ACTIVE steps = ACTIVE")
      case True
      then show ?thesis using 1 opened
        by (simp add: moved level_moves_def level_after_def agrees_def occurrence_agrees_def Let_def)
    next
      case False
      then have "level_settled ACTIVE steps = RESOLVED"
        using closed unfolding level_settled_def by (meson)
      then show ?thesis using 1 opened ending begins
        by (auto simp: moved level_moves_def level_after_def agrees_def occurrence_agrees_def Let_def
            transition_of_Some lifecycle_move_iff)
    qed
  next
    case 2
    then have opened: "level_opened ACTIVE steps = PENDING_TRIGGER" by (simp add: level_opened_def)
    then have settled: "level_settled ACTIVE steps = RESOLVED" using closed by (simp add: level_settled_def)
    obtain j where "beginning_rule PENDING_TRIGGER steps = Some (j, Some SETUP_STARTED)"
      by (rule beginning_pending [OF opens 2])
    then show ?thesis using 2 opened settled ending
      by (auto simp: moved level_moves_def level_after_def agrees_def occurrence_agrees_def Let_def
          transition_of_Some lifecycle_move_iff at_rest_def)
  next
    case 3
    then have opened: "level_opened ACTIVE steps = RESOLVED" using closed by (simp add: level_opened_def)
    then have settled: "level_settled ACTIVE steps = RESOLVED" using closed by (simp add: level_settled_def)
    show ?thesis using 3 opened settled ending
      by (auto simp: moved level_moves_def level_after_def agrees_def occurrence_agrees_def Let_def
          transition_of_Some lifecycle_move_iff at_rest_def)
  qed
qed


lemma level_step_pending:
  assumes agree: "agrees PENDING_TRIGGER befores" and closes: "list_all2 rule_closes befores steps"
    and opens: "\<forall>e \<in> set steps. rule_opens e" and moved: "moved = level_moves PENDING_TRIGGER befores steps rules date"
  shows "lifecycle_path PENDING_TRIGGER moved (level_after PENDING_TRIGGER steps moved) \<and>
    agrees (level_after PENDING_TRIGGER steps moved) (map afterOpen steps) \<and>
    occurrence_agrees PENDING_TRIGGER befores steps moved"
proof -
  have len: "length befores = length steps" by (rule list_all2_lengthD [OF closes])
  have settled: "level_settled PENDING_TRIGGER steps = level_closed PENDING_TRIGGER steps" by (simp add: level_settled_def)
  from agree have pending: "levelOf befores = Some PENDING_TRIGGER"
    by (cases rule: levelOf_cases [of befores]) (auto simp: agrees_def at_rest_def)
  then obtain i where i: "i < length steps" "rule_state (befores ! i) = PENDING_TRIGGER"
    using len by (auto simp: levelOf_iff in_set_conv_nth)
  have rule: "rule_closes (befores ! k) (steps ! k)" "rule_state (befores ! k) \<noteq> ACTIVE" if "k < length steps" for k
    using list_all2_nthD2 [OF closes that] pending that len by (auto simp: levelOf_iff)
  have inactive: "rule_state (afterClose e) \<noteq> ACTIVE" if e: "e \<in> set steps" for e
  proof -
    obtain k where k: "k < length steps" "e = steps ! k" using e by (metis in_set_conv_nth)
    show ?thesis using rule [OF k(1)] k(2) by (auto simp: rule_closes_def)
  qed
  then have not_active: "levelOf (map afterClose steps) \<noteq> Some ACTIVE" by (auto simp: levelOf_iff)
  show ?thesis
  proof (cases "levelOf (map afterClose steps) = None")
    case True
    then have closed: "level_closed PENDING_TRIGGER steps = INACTIVE" by (simp add: level_closed_def)
    have "at_rest (rule_state (afterClose (steps ! i)))" using True i(1) by (auto simp: levelOf_iff)
    then have "closeReason (steps ! i) \<noteq> None" using rule(1) [OF i(1)] i(2) by (auto simp: rule_closes_def at_rest_def)
    then obtain k reason where ending: "ending_rule PENDING_TRIGGER befores steps = Some (k, Some reason)"
        "lifecycle_move PENDING_TRIGGER reason INACTIVE"
      using ending_found [OF closes i(1) _ i(2)] by auto
    show ?thesis
    proof (cases rule: levelOf_cases [of "map afterOpen steps"])
      case 1
      then have opened: "level_opened PENDING_TRIGGER steps = ACTIVE" by (simp add: level_opened_def)
      obtain j begin_reason where "beginning_rule ACTIVE steps = Some (j, Some begin_reason)"
          "begin_reason \<in> {CONDITIONS_MET, TRIGGER_FIRED}" by (rule beginning_active [OF opens 1 not_active])
      then show ?thesis using 1 opened settled closed ending
        by (auto simp: moved level_moves_def level_after_def agrees_def occurrence_agrees_def Let_def
            transition_of_Some lifecycle_move_iff)
    next
      case 2
      then have "level_opened PENDING_TRIGGER steps = PENDING_TRIGGER" by (simp add: level_opened_def)
      then show ?thesis using 2 settled closed
        by (simp add: moved level_moves_def level_after_def agrees_def occurrence_agrees_def Let_def)
    next
      case 3
      then have "level_opened PENDING_TRIGGER steps = INACTIVE" using closed by (simp add: level_opened_def)
      then show ?thesis using 3 settled closed ending
        by (auto simp: moved level_moves_def level_after_def agrees_def occurrence_agrees_def Let_def
            transition_of_Some lifecycle_move_iff at_rest_def)
    qed
  next
    case False
    then have waiting: "levelOf (map afterClose steps) = Some PENDING_TRIGGER"
      using not_active by (cases rule: levelOf_cases [of "map afterClose steps"]) auto
    then have closed: "level_closed PENDING_TRIGGER steps = PENDING_TRIGGER" by (simp add: level_closed_def)
    show ?thesis
    proof (cases rule: levelOf_cases [of "map afterOpen steps"])
      case 1
      then have opened: "level_opened PENDING_TRIGGER steps = ACTIVE" by (simp add: level_opened_def)
      obtain j begin_reason where "beginning_rule ACTIVE steps = Some (j, Some begin_reason)"
          "begin_reason \<in> {CONDITIONS_MET, TRIGGER_FIRED}" by (rule beginning_active [OF opens 1 not_active])
      then show ?thesis using 1 opened settled closed
        by (auto simp: moved level_moves_def level_after_def agrees_def occurrence_agrees_def Let_def
            transition_of_Some lifecycle_move_iff)
    next
      case 2
      then have "level_opened PENDING_TRIGGER steps = PENDING_TRIGGER" by (simp add: level_opened_def)
      then show ?thesis using 2 settled closed
        by (simp add: moved level_moves_def level_after_def agrees_def occurrence_agrees_def Let_def)
    next
      case 3
      obtain e where "e \<in> set steps" "rule_state (afterClose e) = PENDING_TRIGGER" using waiting by (auto simp: levelOf_iff)
      then have "\<exists>e \<in> set steps. \<not> at_rest (rule_state (afterOpen e))"
        using opens by (intro bexI [of _ e]) (auto simp: rule_opens_def at_rest_def)
      then show ?thesis using 3 by (simp add: levelOf_iff)
    qed
  qed
qed

lemma level_step_resting:
  assumes rest: "at_rest prior" and agree: "agrees prior befores" and closes: "list_all2 rule_closes befores steps"
    and opens: "\<forall>e \<in> set steps. rule_opens e" and moved: "moved = level_moves prior befores steps rules date"
  shows "lifecycle_path prior moved (level_after prior steps moved) \<and>
    agrees (level_after prior steps moved) (map afterOpen steps) \<and> occurrence_agrees prior befores steps moved"
proof -
  have resting: "levelOf befores = None"
    using agree rest by (cases rule: levelOf_cases [of befores]) (auto simp: agrees_def at_rest_def)
  have unclosed: "closeReason e = None" "at_rest (rule_state (afterClose e))" if e: "e \<in> set steps" for e
  proof -
    obtain k where k: "k < length steps" "e = steps ! k" using e by (metis in_set_conv_nth)
    have "rule_closes (befores ! k) e" using list_all2_nthD2 [OF closes k(1)] k(2) by simp
    moreover have "at_rest (rule_state (befores ! k))"
      using resting k(1) list_all2_lengthD [OF closes] by (simp add: levelOf_iff)
    ultimately show "closeReason e = None" "at_rest (rule_state (afterClose e))"
      by (auto simp: rule_closes_def at_rest_def)
  qed
  have none: "levelOf (map afterClose steps) = None" using unclosed(2) by (simp add: levelOf_iff)
  have prior: "prior \<noteq> ACTIVE" "prior \<noteq> PENDING_TRIGGER" using rest by (simp_all add: at_rest_def)
  have closed: "level_settled prior steps = prior" using prior by (simp add: level_settled_def level_closed_def)
  have closed': "level_closed prior steps = prior" using prior by (simp add: level_closed_def)
  have ending: "ending_rule prior befores steps = None" using unclosed(1) by (intro ending_not_found) blast
  show ?thesis
  proof (cases rule: levelOf_cases [of "map afterOpen steps"])
    case 1
    then have opened: "level_opened prior steps = ACTIVE" by (simp add: level_opened_def)
    obtain j begin_reason where "beginning_rule ACTIVE steps = Some (j, Some begin_reason)"
        "begin_reason \<in> {CONDITIONS_MET, TRIGGER_FIRED}" using none by (rule_tac beginning_active [OF opens 1]) simp_all
    then show ?thesis using 1 opened closed ending prior
      by (auto simp: moved level_moves_def level_after_def agrees_def occurrence_agrees_def Let_def
          transition_of_Some lifecycle_move_iff)
  next
    case 2
    then have opened: "level_opened prior steps = PENDING_TRIGGER" by (simp add: level_opened_def)
    obtain j where "beginning_rule PENDING_TRIGGER steps = Some (j, Some SETUP_STARTED)"
      by (rule beginning_pending [OF opens 2])
    then show ?thesis using 2 opened closed ending prior rest
      by (auto simp: moved level_moves_def level_after_def agrees_def occurrence_agrees_def Let_def
          transition_of_Some lifecycle_move_iff)
  next
    case 3
    then have "level_opened prior steps = prior" using closed' by (simp add: level_opened_def)
    then show ?thesis using 3 closed ending prior rest
      by (auto simp: moved level_moves_def level_after_def agrees_def occurrence_agrees_def Let_def)
  qed
qed

lemmas level_step_agrees = level_step_active level_step_pending level_step_resting

end
