(* ===== verification/MonitorReplay.thy ===== *)
theory MonitorReplay
  imports MonitorLifecycle
begin

section \<open>Replaying and reconstructing a monitored level\<close>

text \<open>
  The reducer over whole histories: the stored state, the recorded transitions and the occurrences agree;
  observing the same session twice changes nothing; and a replay from the latest resting session stands
  where the replay of the whole history stands.
\<close>

subsection \<open>Levels whose observations name the same rules\<close>

definition observes :: "string list \<Rightarrow> level_step \<Rightarrow> bool" where
  "observes keys step \<longleftrightarrow> map obs_key (step_rules step) = keys"

text \<open>A stored level has one lifecycle per rule; a level without any is a fresh one.\<close>

definition level_ok :: "string list \<Rightarrow> level_lifecycle \<Rightarrow> bool" where
  "level_ok keys level \<longleftrightarrow>
     level_rules level = [] \<or>
     js_keys (level_rules level) = keys \<and> agrees (level_state level) (map snd (level_rules level))"

abbreviation befores_of :: "level_lifecycle \<Rightarrow> level_step \<Rightarrow> rule_lifecycle list" where
  "befores_of previous step \<equiv> map (rule_before previous) (step_rules step)"

abbreviation entries_of :: "level_lifecycle \<Rightarrow> level_step \<Rightarrow> rule_step list" where
  "entries_of previous step \<equiv>
     map (\<lambda>observation. stepRule (rule_before previous observation) observation (step_date step) (step_eligible step))
       (step_rules step)"

lemma map2_rules:
  "map2 (\<lambda>before observation. f before observation) (map g xs) xs = map (\<lambda>x. f (g x) x) xs"
  by (induction xs) simp_all

lemma update_fresh: "k \<notin> set (js_keys m) \<Longrightarrow> js_map_set k v m = m @ [(k, v)]"
  by (induction m) auto

lemma recorded_rules:
  "distinct (js_keys m @ map obs_key rules) \<Longrightarrow>
     foldl (\<lambda>rules (observation, entry). js_map_set (obs_key observation) (afterOpen entry) rules) m
       (zip rules (map f rules)) = m @ map (\<lambda>rule. (obs_key rule, afterOpen (f rule))) rules"
  by (induction rules arbitrary: m) (simp_all add: update_fresh)

lemma stepMonitorLevel_fields:
  fixes previous step
  defines "prior \<equiv> level_state previous" and "entries \<equiv> entries_of previous step"
  defines "moved \<equiv> level_moves prior (befores_of previous step) entries (step_rules step) (step_date step)"
  assumes "distinct (map obs_key (step_rules step))"
  shows "step_transitions (stepMonitorLevel previous step) = moved"
    and "level_state (step_next (stepMonitorLevel previous step)) = level_after prior entries moved"
    and "level_since (step_next (stepMonitorLevel previous step)) =
      (if moved \<noteq> [] then Some (step_date step) else level_since previous)"
    and "level_rules (step_next (stepMonitorLevel previous step)) = zip (map obs_key (step_rules step)) (map afterOpen entries)"
    and "step_opened (stepMonitorLevel previous step) \<longleftrightarrow> level_opened prior entries = ACTIVE \<and> level_settled prior entries \<noteq> ACTIVE"
    and "step_closed (stepMonitorLevel previous step) =
      (if prior = ACTIVE \<and> level_settled prior entries = RESOLVED
       then Option.bind (ending_rule prior (befores_of previous step) entries) snd else None)"
    and "step_changed (stepMonitorLevel previous step) \<longleftrightarrow> \<not> sameLifecycle previous (step_next (stepMonitorLevel previous step))"
proof -
  have rules: "foldl (\<lambda>rules (observation, entry). js_map_set (obs_key observation) (afterOpen entry) rules) []
      (zip (step_rules step) entries) = zip (map obs_key (step_rules step)) (map afterOpen entries)"
    using recorded_rules [of "[]" "step_rules step"] assms(4) by (simp add: entries_def zip_map_map comp_def zip_same_conv_map)
  show "step_transitions (stepMonitorLevel previous step) = moved"
    "level_state (step_next (stepMonitorLevel previous step)) = level_after prior entries moved"
    "level_since (step_next (stepMonitorLevel previous step)) =
      (if moved \<noteq> [] then Some (step_date step) else level_since previous)"
    "level_rules (step_next (stepMonitorLevel previous step)) = zip (map obs_key (step_rules step)) (map afterOpen entries)"
    "step_opened (stepMonitorLevel previous step) \<longleftrightarrow> level_opened prior entries = ACTIVE \<and> level_settled prior entries \<noteq> ACTIVE"
    "step_changed (stepMonitorLevel previous step) \<longleftrightarrow> \<not> sameLifecycle previous (step_next (stepMonitorLevel previous step))"
    unfolding stepMonitorLevel_def Let_def map2_rules entries_def [symmetric] rules moved_def level_moves_def level_after_def
      prior_def by simp_all
  show "step_closed (stepMonitorLevel previous step) =
      (if prior = ACTIVE \<and> level_settled prior entries = RESOLVED
       then Option.bind (ending_rule prior (befores_of previous step) entries) snd else None)"
    unfolding stepMonitorLevel_def Let_def map2_rules entries_def [symmetric] prior_def
    by (auto split: option.split)
qed

lemma rule_before_stored:
  assumes "js_keys (level_rules level) = keys" "observes keys step" "distinct keys"
  shows "befores_of level step = map snd (level_rules level)"
proof -
  have "befores_of level step = map (\<lambda>k. case map_of (level_rules level) k of None \<Rightarrow> inheritedRule level | Some r \<Rightarrow> r) keys"
    using assms(2) by (auto simp: observes_def rule_before_def)
  also have "\<dots> = map snd (level_rules level)"
    unfolding assms(1) [symmetric] map_map using assms(1,3) by (auto simp: map_of_is_SomeI)
  finally show ?thesis .
qed

lemma befores_agree:
  assumes "level_ok keys level" "observes keys step" "distinct keys" "keys \<noteq> []"
  shows "agrees (level_state level) (befores_of level step)"
proof (cases "level_rules level = []")
  case True
  obtain observation where "observation \<in> set (step_rules step)" using assms(2,4) by (cases "step_rules step") (auto simp: observes_def)
  moreover have "rule_state (rule_before level x) = level_state level" for x
    by (simp add: rule_before_def True inheritedRule_def)
  ultimately show ?thesis
    by (cases "level_state level") (auto simp: agrees_def levelOf_def list_ex_iff at_rest_def)
next
  case False
  then have keys: "js_keys (level_rules level) = keys" and agree: "agrees (level_state level) (map snd (level_rules level))"
    using assms(1) by (simp_all add: level_ok_def)
  then show ?thesis using rule_before_stored [OF keys assms(2,3)] by simp
qed

lemma level_step_ok:
  assumes ok: "level_ok keys level" "observes keys step" "distinct keys" "keys \<noteq> []"
  defines "r \<equiv> stepMonitorLevel level step"
  shows "lifecycle_path (level_state level) (step_transitions r) (level_state (step_next r))"
    and "js_keys (level_rules (step_next r)) = keys" "agrees (level_state (step_next r)) (map snd (level_rules (step_next r)))"
    and "level_ok keys (step_next r)"
    and "step_opened r \<longleftrightarrow> (\<exists>t \<in> set (step_transitions r). to_state t = ACTIVE)"
    and "step_closed r = Some reason \<longleftrightarrow> (\<exists>t \<in> set (step_transitions r). from_state t = ACTIVE \<and> transition_reason t = reason)"
proof -
  have keys: "distinct (map obs_key (step_rules step))" "map obs_key (step_rules step) = keys" using ok(2,3) by (simp_all add: observes_def)
  note fields = stepMonitorLevel_fields [OF keys(1), of level, folded r_def]
  let ?moved = "level_moves (level_state level) (befores_of level step) (entries_of level step) (step_rules step) (step_date step)"
  have closes: "list_all2 rule_closes (befores_of level step) (entries_of level step)"
    by (simp add: list_all2_map1 list_all2_map2 list_all2_same stepRule_closes)
  have opens: "\<forall>e \<in> set (entries_of level step). rule_opens e" by (simp add: stepRule_opens)
  have all: "lifecycle_path (level_state level) ?moved (level_after (level_state level) (entries_of level step) ?moved) \<and>
      agrees (level_after (level_state level) (entries_of level step) ?moved) (map afterOpen (entries_of level step)) \<and>
      occurrence_agrees (level_state level) (befores_of level step) (entries_of level step) ?moved"
    using befores_agree [OF ok] level_step_agrees(1,2) [OF _ closes opens refl]
      level_step_resting [OF _ _ closes opens refl]
    by (cases "level_state level") (auto simp: at_rest_def)
  show "lifecycle_path (level_state level) (step_transitions r) (level_state (step_next r))"
    using all by (simp add: fields(1,2))
  have size: "length keys = length (step_rules step)" unfolding keys(2) [symmetric] by simp
  then show k: "js_keys (level_rules (step_next r)) = keys" by (simp add: fields(4) keys(2))
  show a: "agrees (level_state (step_next r)) (map snd (level_rules (step_next r)))"
    using all size by (simp add: fields(2,4) keys(2))
  show "level_ok keys (step_next r)" using k a by (simp add: level_ok_def)
  show "step_opened r \<longleftrightarrow> (\<exists>t \<in> set (step_transitions r). to_state t = ACTIVE)"
    using all by (simp add: fields(1,5) occurrence_agrees_def)
  show "step_closed r = Some reason \<longleftrightarrow> (\<exists>t \<in> set (step_transitions r). from_state t = ACTIVE \<and> transition_reason t = reason)"
    using all by (auto simp: fields(1,6) occurrence_agrees_def bind_eq_Some_conv)
qed

lemma replay_ok:
  assumes "distinct keys" "keys \<noteq> []"
  shows "\<forall>step \<in> set steps. observes keys step \<Longrightarrow> level_ok keys level \<Longrightarrow> level_ok keys (replayMonitorLevel steps level)"
  by (induction steps arbitrary: level) (simp_all add: replayMonitorLevel_def level_step_ok(4) [OF _ _ assms])

lemma initial_ok [simp]: "level_ok keys INITIAL_MONITOR_LEVEL_LIFECYCLE"
  by (simp add: level_ok_def INITIAL_MONITOR_LEVEL_LIFECYCLE_def)

text \<open>
  C3. Stored state, transition history and occurrences agree: whatever sessions a level has observed, the
  transitions the next observation records are moves of the documented state machine that lead from the
  stored state to the next one, the next state is the disjunction of its rules' states, an occurrence is
  reported opened exactly when a transition enters \<open>ACTIVE\<close>, and closed with the reason of the
  transition that leaves it.
\<close>

theorem lifecycle_follows_machine:
  assumes "distinct keys" "keys \<noteq> []" "\<forall>s \<in> set steps. observes keys s" "observes keys step"
  defines "level \<equiv> replayMonitorLevel steps INITIAL_MONITOR_LEVEL_LIFECYCLE"
  defines "r \<equiv> stepMonitorLevel level step"
  shows "lifecycle_path (level_state level) (step_transitions r) (level_state (step_next r)) \<and>
    agrees (level_state (step_next r)) (map snd (level_rules (step_next r))) \<and>
    (step_opened r \<longleftrightarrow> (\<exists>t \<in> set (step_transitions r). to_state t = ACTIVE)) \<and>
    (\<forall>reason. step_closed r = Some reason \<longleftrightarrow>
       (\<exists>t \<in> set (step_transitions r). from_state t = ACTIVE \<and> transition_reason t = reason))"
proof -
  have "level_ok keys level" unfolding level_def by (rule replay_ok [OF assms(1-3) initial_ok])
  from level_step_ok [OF this assms(4,1,2), folded r_def] show ?thesis by blast
qed


text \<open>A rule with conditions and a trigger: its setup starts, then its trigger fires.\<close>

definition example_step :: "local_date \<Rightarrow> evaluability \<Rightarrow> evaluability \<Rightarrow> level_step" where
  "example_step date conditions trigger =
     \<lparr>step_date = date, step_eligible = True,
      step_rules = [\<lparr>obs_key = ''b1'', obs_exitRuleId = None, obs_conditions = Some conditions, obs_trigger = Some trigger\<rparr>]\<rparr>"

lemma example_observes: "observes [''b1''] (example_step date conditions trigger)"
  by (simp add: observes_def example_step_def)

lemma lifecycle_follows_machine_witness:
  "let level = replayMonitorLevel [example_step ''2024-01-02'' TRUE FALSE] INITIAL_MONITOR_LEVEL_LIFECYCLE;
       r = stepMonitorLevel level (example_step ''2024-01-03'' TRUE TRUE)
   in level_state level = PENDING_TRIGGER \<and> level_state (step_next r) = ACTIVE \<and>
      lifecycle_path (level_state level) (step_transitions r) (level_state (step_next r)) \<and>
      (\<exists>t \<in> set (step_transitions r). to_state t = ACTIVE)"
proof -
  define level where "level = replayMonitorLevel [example_step ''2024-01-02'' TRUE FALSE] INITIAL_MONITOR_LEVEL_LIFECYCLE"
  define r where "r = stepMonitorLevel level (example_step ''2024-01-03'' TRUE TRUE)"
  note claim = lifecycle_follows_machine [of "[''b1'']" "[example_step ''2024-01-02'' TRUE FALSE]" "example_step ''2024-01-03'' TRUE TRUE",
      folded level_def, folded r_def, simplified example_observes, simplified]
  have "level_state level = PENDING_TRIGGER" unfolding level_def by code_simp
  moreover have "level_state (step_next r) = ACTIVE" unfolding r_def level_def by code_simp
  moreover have "step_opened r" unfolding r_def level_def by code_simp
  ultimately show ?thesis unfolding Let_def level_def [symmetric] r_def [symmetric] using claim [OF example_observes] by blast
qed


subsection \<open>Observing a session twice\<close>

lemma stepRule_again:
  "stepRule (afterOpen (stepRule rule observation date eligible)) observation date eligible =
     \<lparr>afterClose = afterOpen (stepRule rule observation date eligible),
      afterOpen = afterOpen (stepRule rule observation date eligible), closeReason = None, openReason = None\<rparr>"
proof -
  obtain st since td where rule: "rule = \<lparr>rule_state = st, rule_since = since, rule_triggerDate = td\<rparr>" by (cases rule)
  obtain key ex c t where observation: "observation =
      \<lparr>obs_key = key, obs_exitRuleId = ex, obs_conditions = c, obs_trigger = t\<rparr>" by (cases observation)
  show ?thesis
  proof (cases "\<exists>s. since = Some s \<and> date < s")
    case True
    then show ?thesis by (auto simp: stepRule_def rule)
  next
    case False
    then have fresh: "(case since of None \<Rightarrow> False | Some s \<Rightarrow> date < s) = False" by (auto split: option.split)
    show ?thesis
      using False
      by (cases eligible; cases c; cases st; cases t; cases td)
        (simp_all add: stepRule_def close_phase_def open_phase_def Let_def rule observation split: option.split)
  qed
qed


lemma sameLifecycle_refl: "sameLifecycle level level"
  by (auto simp: sameLifecycle_def list_all_iff map_of_eq_None_iff image_iff)

lemma quiet_entries:
  assumes agree: "agrees prior befores"
    and steps: "steps = map (\<lambda>b. \<lparr>afterClose = b, afterOpen = b, closeReason = None, openReason = None\<rparr>) befores"
  shows "level_moves prior befores steps rules date = []"
proof -
  have states: "map afterClose steps = befores" "map afterOpen steps = befores" by (simp_all add: steps comp_def)
  have closed: "level_closed prior steps = prior"
    using agree by (cases rule: levelOf_cases [of befores]) (auto simp: level_closed_def states agrees_def at_rest_def)
  then have "level_settled prior steps = prior" by (simp add: level_settled_def)
  moreover have "level_opened prior steps = prior"
    using agree closed by (cases rule: levelOf_cases [of befores]) (auto simp: level_opened_def states agrees_def)
  ultimately show ?thesis by (simp add: level_moves_def Let_def)
qed

text \<open>
  C4. Re-applying an observation changes nothing: once a session has been observed, observing it again
  records no transition, opens and closes no occurrence and leaves everything stored as it is.
\<close>

theorem repeated_observation_changes_nothing:
  assumes "distinct keys" "keys \<noteq> []" "\<forall>s \<in> set steps. observes keys s" "observes keys step"
  defines "level \<equiv> replayMonitorLevel (steps @ [step]) INITIAL_MONITOR_LEVEL_LIFECYCLE"
  defines "again \<equiv> stepMonitorLevel level step"
  shows "step_transitions again = [] \<and> \<not> step_changed again \<and> \<not> step_opened again \<and> step_closed again = None \<and>
    step_next again = level"
proof -
  define before where "before = replayMonitorLevel steps INITIAL_MONITOR_LEVEL_LIFECYCLE"
  have level: "level = step_next (stepMonitorLevel before step)" by (simp add: level_def before_def replayMonitorLevel_def)
  have "level_ok keys before" unfolding before_def by (rule replay_ok [OF assms(1-3) initial_ok])
  note ok = level_step_ok [OF this assms(4,1,2), folded level]
  have keys: "distinct (map obs_key (step_rules step))" using assms(1,4) by (simp add: observes_def)
  have stored: "level_rules level = zip keys (map afterOpen (entries_of before step))"
    using stepMonitorLevel_fields(4) [OF keys, of before] assms(4) by (simp add: level observes_def)
  have size: "length keys = length (step_rules step)" using assms(4) by (auto simp: observes_def)
  note befores = rule_before_stored [OF ok(2) assms(4,1)]
  have same: "map (rule_before level) (step_rules step) = map (\<lambda>x. afterOpen (stepRule (rule_before before x) x (step_date step) (step_eligible step))) (step_rules step)"
    using befores size by (simp add: stored comp_def)
  then have each: "rule_before level x = afterOpen (stepRule (rule_before before x) x (step_date step) (step_eligible step))"
    if "x \<in> set (step_rules step)" for x using that by simp
  have entries: "entries_of level step = map (\<lambda>b. \<lparr>afterClose = b, afterOpen = b, closeReason = None, openReason = None\<rparr>) (befores_of level step)"
    using each by (simp add: stepRule_again)
  have "agrees (level_state level) (befores_of level step)" using ok(3) befores by simp
  note quiet = quiet_entries [OF this entries]
  note fields = stepMonitorLevel_fields [OF keys, of level, unfolded quiet, folded again_def]
  have states: "map afterOpen (entries_of level step) = map snd (level_rules level)"
    unfolding entries befores by (simp add: comp_def)
  have "level_rules (step_next again) = level_rules level"
    unfolding fields(4) states using zip_map_fst_snd [of "level_rules level"] ok(2) assms(4) by (simp add: observes_def)
  then have next_level: "step_next again = level"
    using fields(2,3) by (intro level_lifecycle.equality) (simp_all add: level_after_def)
  have "level_ok keys level" by (rule ok(4))
  note reported = level_step_ok(5,6) [OF this assms(4,1,2), folded again_def]
  show ?thesis
    using fields(1,7) next_level reported by (auto simp: sameLifecycle_refl)
qed

lemma repeated_observation_changes_nothing_witness:
  "let step = example_step ''2024-01-03'' TRUE TRUE;
       level = replayMonitorLevel ([example_step ''2024-01-02'' TRUE FALSE] @ [step]) INITIAL_MONITOR_LEVEL_LIFECYCLE
   in level_state level = ACTIVE \<and> step_transitions (stepMonitorLevel level step) = [] \<and> step_next (stepMonitorLevel level step) = level"
proof -
  have "level_state (replayMonitorLevel ([example_step ''2024-01-02'' TRUE FALSE] @ [example_step ''2024-01-03'' TRUE TRUE])
      INITIAL_MONITOR_LEVEL_LIFECYCLE) = ACTIVE" by code_simp
  then show ?thesis
    using repeated_observation_changes_nothing [of "[''b1'']" "[example_step ''2024-01-02'' TRUE FALSE]" "example_step ''2024-01-03'' TRUE TRUE"]
    by (simp add: example_observes Let_def)
qed

subsection \<open>Nothing before a resting session matters\<close>

text \<open>A date that lies before the anchor, or none.\<close>

definition not_after :: "local_date \<Rightarrow> local_date option \<Rightarrow> bool" where
  "not_after anchor date \<longleftrightarrow> (case date of None \<Rightarrow> True | Some d \<Rightarrow> d \<le> anchor)"

definition earlier :: "local_date \<Rightarrow> local_date option \<Rightarrow> bool" where
  "earlier anchor date \<longleftrightarrow> (case date of None \<Rightarrow> True | Some d \<Rightarrow> d < anchor)"

lemma before_simps [simp]:
  "not_after anchor None" "not_after anchor (Some d) \<longleftrightarrow> d \<le> anchor"
  "earlier anchor None" "earlier anchor (Some d) \<longleftrightarrow> d < anchor"
  by (simp_all add: not_after_def earlier_def)

text \<open>A rule at rest since the anchor or longer, and two rules that differ only in what came before it.\<close>

definition rule_rests :: "local_date \<Rightarrow> rule_lifecycle \<Rightarrow> bool" where
  "rule_rests anchor rule \<longleftrightarrow> at_rest (rule_state rule) \<and> not_after anchor (rule_since rule) \<and> earlier anchor (rule_triggerDate rule)"

definition rules_match :: "local_date \<Rightarrow> rule_lifecycle \<Rightarrow> rule_lifecycle \<Rightarrow> bool" where
  "rules_match anchor r s \<longleftrightarrow>
     rule_rests anchor r \<and> rule_rests anchor s \<or>
     rule_state r = rule_state s \<and> rule_since r = rule_since s \<and> \<not> not_after anchor (rule_since r) \<and>
     (rule_triggerDate r = rule_triggerDate s \<or> earlier anchor (rule_triggerDate r) \<and> earlier anchor (rule_triggerDate s))"

definition entries_match :: "local_date \<Rightarrow> rule_step \<Rightarrow> rule_step \<Rightarrow> bool" where
  "entries_match anchor x y \<longleftrightarrow>
     closeReason x = closeReason y \<and> openReason x = openReason y \<and>
     rules_match anchor (afterClose x) (afterClose y) \<and> rules_match anchor (afterOpen x) (afterOpen y)"

lemma settle_match: "rules_match anchor r s \<Longrightarrow> settle_rule anchor r = settle_rule anchor s"
  unfolding rules_match_def rule_rests_def settle_rule_def
  by (cases r; cases s) (auto simp: not_after_def earlier_def split: option.splits)

lemma fresh_match:
  assumes "rules_match anchor r s" "anchor < date"
  shows "(case rule_triggerDate r of None \<Rightarrow> True | Some d \<Rightarrow> d < date) = (case rule_triggerDate s of None \<Rightarrow> True | Some d \<Rightarrow> d < date)"
proof -
  have "(case d of None \<Rightarrow> True | Some d \<Rightarrow> d < date)" if "earlier anchor d" for d
    using that assms(2) by (auto simp: earlier_def split: option.splits)
  then show ?thesis using assms(1) by (auto simp: rules_match_def rule_rests_def)
qed

lemma rules_match_moved:
  "rules_match anchor r s \<Longrightarrow> anchor < date \<Longrightarrow>
     rules_match anchor (r\<lparr>rule_state := state, rule_since := Some date\<rparr>) (s\<lparr>rule_state := state, rule_since := Some date\<rparr>)"
  by (auto simp: rules_match_def rule_rests_def)

lemma open_phase_match:
  assumes match: "rules_match anchor r s" and date: "anchor < date"
  shows "snd (open_phase r observation date) = snd (open_phase s observation date) \<and>
    rules_match anchor (fst (open_phase r observation date)) (fst (open_phase s observation date))"
proof -
  have fired: "rules_match anchor x x" if "rule_since x = Some date" for x :: rule_lifecycle
    using that date by (simp add: rules_match_def not_le)
  have pending: "rule_state r = PENDING_TRIGGER \<longleftrightarrow> rule_state s = PENDING_TRIGGER"
    using match by (auto simp: rules_match_def rule_rests_def at_rest_def)
  show ?thesis
    using match rules_match_moved [OF match date] fired
    unfolding open_phase_def Let_def fresh_match [OF match date] pending by simp
qed

lemma close_phase_match:
  assumes match: "rules_match anchor r s" and date: "anchor < date"
  shows "(fst (close_phase r observation date eligible) = None \<and> fst (close_phase s observation date eligible) = None) \<or>
    close_phase r observation date eligible = close_phase s observation date eligible"
  using match
  by (cases "rule_state r"; cases "rule_state s")
    (auto simp: rules_match_def rule_rests_def at_rest_def close_phase_def)

lemma stepRule_match:
  assumes match: "rules_match anchor r s" and date: "anchor < date"
  shows "entries_match anchor (stepRule r observation date eligible) (stepRule s observation date eligible)"
proof -
  let ?stale = "\<lambda>rule. case rule_since rule of None \<Rightarrow> False | Some since \<Rightarrow> date < since"
  let ?current = "\<lambda>rule. case fst (close_phase rule observation date eligible) of None \<Rightarrow> rule
    | Some state \<Rightarrow> rule\<lparr>rule_state := state, rule_since := Some date\<rparr>"
  have stale: "?stale r = ?stale s"
    using match date by (auto simp: rules_match_def rule_rests_def not_after_def split: option.splits)
  have current: "rules_match anchor (?current r) (?current s)"
    using close_phase_match [OF match date, of observation eligible] match rules_match_moved [OF match date]
    by (auto split: option.split)
  have active: "rule_state (?current r) = ACTIVE \<longleftrightarrow> rule_state (?current s) = ACTIVE"
    using current by (auto simp: rules_match_def rule_rests_def at_rest_def)
  note opened = open_phase_match [OF current date, of observation]
  show ?thesis
    unfolding stepRule_def stale Let_def case_prod_beta entries_match_def
    using close_phase_match [OF match date, of observation eligible] match current active opened
    by auto
qed


text \<open>Two levels over the same rules that differ only in what came before the anchor.\<close>

definition levels_match :: "local_date \<Rightarrow> level_lifecycle \<Rightarrow> level_lifecycle \<Rightarrow> bool" where
  "levels_match anchor a b \<longleftrightarrow>
     js_keys (level_rules a) = js_keys (level_rules b) \<and>
     list_all2 (rules_match anchor) (map snd (level_rules a)) (map snd (level_rules b)) \<and>
     (at_rest (level_state a) \<and> not_after anchor (level_since a) \<and>
      at_rest (level_state b) \<and> not_after anchor (level_since b) \<or>
      level_state a = level_state b \<and> level_since a = level_since b \<and> \<not> not_after anchor (level_since a))"

lemma settle_levels_match:
  assumes "levels_match anchor a b"
  shows "settleMonitorLevelLifecycle a anchor = settleMonitorLevelLifecycle b anchor"
proof -
  let ?settled = "\<lambda>l. map (\<lambda>p. (fst p, settle_rule anchor (snd p))) (level_rules l)"
  have rules: "?settled a = ?settled b"
  proof (rule nth_equalityI)
    have keys: "js_keys (level_rules a) = js_keys (level_rules b)" using assms by (simp add: levels_match_def)
    have len: "length (level_rules a) = length (level_rules b)" using arg_cong [OF keys, of length] by simp
    then show "length (map (\<lambda>p. (fst p, settle_rule anchor (snd p))) (level_rules a)) =
        length (map (\<lambda>p. (fst p, settle_rule anchor (snd p))) (level_rules b))" by simp
    fix i assume "i < length (map (\<lambda>p. (fst p, settle_rule anchor (snd p))) (level_rules a))"
    then have i: "i < length (level_rules a)" "i < length (level_rules b)" using len by simp_all
    have "fst (level_rules a ! i) = fst (level_rules b ! i)"
      using arg_cong [OF keys, of "\<lambda>ks. ks ! i"] i by simp
    moreover have "rules_match anchor (snd (level_rules a ! i)) (snd (level_rules b ! i))"
      using assms i by (auto simp: levels_match_def list_all2_conv_all_nth)
    ultimately show "map (\<lambda>p. (fst p, settle_rule anchor (snd p))) (level_rules a) ! i =
        map (\<lambda>p. (fst p, settle_rule anchor (snd p))) (level_rules b) ! i"
      using i settle_match by simp
  qed
  have form: "settleMonitorLevelLifecycle l anchor =
      (if at_rest (level_state l) \<and> not_after anchor (level_since l)
       then \<lparr>level_state = INACTIVE, level_since = Some anchor, level_rules = ?settled l\<rparr>
       else \<lparr>level_state = level_state l, level_since = level_since l, level_rules = ?settled l\<rparr>)" for l
    unfolding settleMonitorLevelLifecycle_def Let_def not_after_def [symmetric] by (simp only: if_True if_False split: if_split) blast
  from assms consider
    "at_rest (level_state a) \<and> not_after anchor (level_since a)" "at_rest (level_state b) \<and> not_after anchor (level_since b)"
    | "level_state a = level_state b" "level_since a = level_since b"
    unfolding levels_match_def by blast
  then show ?thesis
  proof cases
    case 1
    then show ?thesis unfolding form rules by (simp only: if_True simp_thms)
  next
    case 2
    show ?thesis unfolding form rules 2 ..
  qed
qed

lemma levelOf_match: "list_all2 (rules_match anchor) rs ss \<Longrightarrow> levelOf rs = levelOf ss"
proof (induction rule: list_all2_induct)
  case (Cons r rs s ss)
  then show ?case
    by (auto simp: levelOf_def rules_match_def rule_rests_def at_rest_def split: if_splits)
qed (simp add: levelOf_def)

lemma find_index_match:
  "list_all2 (\<lambda>x y. P x \<longleftrightarrow> Q y) xs ys \<Longrightarrow> find_index P xs = find_index Q ys"
  by (induction rule: list_all2_induct) auto

lemma list_ex_match:
  assumes "list_all2 R xs ys" "\<And>x y. R x y \<Longrightarrow> P x = Q y"
  shows "list_ex P xs = list_ex Q ys"
  using assms(1) by (induction rule: list_all2_induct) (simp_all add: assms(2))

lemma step_states_match:
  assumes "list_all2 (entries_match anchor) xs ys"
  shows "levelOf (map afterClose xs) = levelOf (map afterClose ys)" "levelOf (map afterOpen xs) = levelOf (map afterOpen ys)"
    and "list_ex (\<lambda>e. openReason e \<noteq> None \<and> closeReason e = None \<and> rule_state (afterOpen e) = ACTIVE) xs =
      list_ex (\<lambda>e. openReason e \<noteq> None \<and> closeReason e = None \<and> rule_state (afterOpen e) = ACTIVE) ys"
proof -
  have "list_all2 (rules_match anchor) (map afterClose xs) (map afterClose ys)"
    "list_all2 (rules_match anchor) (map afterOpen xs) (map afterOpen ys)"
    using assms(1) by (auto simp: list_all2_map1 list_all2_map2 entries_match_def elim!: list_all2_mono)
  then show "levelOf (map afterClose xs) = levelOf (map afterClose ys)" "levelOf (map afterOpen xs) = levelOf (map afterOpen ys)"
    by (simp_all add: levelOf_match)
  have "rule_state (afterOpen x) = ACTIVE \<longleftrightarrow> rule_state (afterOpen y) = ACTIVE" if "entries_match anchor x y" for x y
    using that by (auto simp: entries_match_def rules_match_def rule_rests_def at_rest_def)
  then have "entries_match anchor x y \<Longrightarrow>
      (openReason x \<noteq> None \<and> closeReason x = None \<and> rule_state (afterOpen x) = ACTIVE) =
      (openReason y \<noteq> None \<and> closeReason y = None \<and> rule_state (afterOpen y) = ACTIVE)" for x y
    by (auto simp: entries_match_def)
  then show "list_ex (\<lambda>e. openReason e \<noteq> None \<and> closeReason e = None \<and> rule_state (afterOpen e) = ACTIVE) xs =
      list_ex (\<lambda>e. openReason e \<noteq> None \<and> closeReason e = None \<and> rule_state (afterOpen e) = ACTIVE) ys"
    by (rule list_ex_match [OF assms(1)])
qed

lemma resting_moves:
  assumes "at_rest prior" "list_all2 rule_closes befores xs" "\<forall>e \<in> set xs. rule_opens e"
    and inactive: "levelOf (map afterClose xs) \<noteq> Some ACTIVE"
  shows "level_moves prior befores xs rules date \<noteq> [] \<longleftrightarrow> levelOf (map afterOpen xs) \<noteq> None"
proof -
  have prior: "prior \<noteq> ACTIVE" "prior \<noteq> PENDING_TRIGGER" using assms(1) by (simp_all add: at_rest_def)
  have closed: "level_closed prior xs = prior" using prior by (simp add: level_closed_def)
  have settled: "level_settled prior xs = prior" using prior closed by (simp add: level_settled_def)
  have unclosed: "\<not> (case p of (before, entry) \<Rightarrow> closeReason entry \<noteq> None \<and> rule_state before = prior)"
    if p: "p \<in> set (zip befores xs)" for p
  proof -
    obtain before entry where pair: "p = (before, entry)" by (cases p)
    then have "rule_closes before entry" using assms(2) p unfolding list_all2_iff by blast
    then show ?thesis using prior pair unfolding rule_closes_def by auto
  qed
  then have "find_index (\<lambda>(before, entry). closeReason entry \<noteq> None \<and> rule_state before = prior) (zip befores xs) = None"
    unfolding find_index_None by blast
  then have ending: "ending_rule prior befores xs = None" by (simp add: ending_rule_def)
  show ?thesis
  proof (cases rule: levelOf_cases [of "map afterOpen xs"])
    case 1
    from beginning_active [OF assms(3) 1 inactive] obtain k reason where "beginning_rule ACTIVE xs = Some (k, Some reason)" by blast
    then show ?thesis using 1 prior
      by (simp add: level_moves_def Let_def settled level_opened_def ending transition_of_Some)
  next
    case 2
    from beginning_pending [OF assms(3) 2] obtain k where "beginning_rule PENDING_TRIGGER xs = Some (k, Some SETUP_STARTED)" by blast
    then show ?thesis using 2 prior
      by (simp add: level_moves_def Let_def settled level_opened_def ending transition_of_Some)
  next
    case 3
    then show ?thesis using prior by (simp add: level_moves_def Let_def settled level_opened_def closed ending)
  qed
qed

lemma entries_agree:
  assumes "list_all2 (entries_match anchor) xs ys" "list_all2 (rules_match anchor) befores befores'"
    and "\<not> at_rest prior" "\<forall>e \<in> set xs. rule_opens e" "\<forall>e \<in> set ys. rule_opens e"
  shows "level_moves prior befores xs rules date = level_moves prior befores' ys rules date"
    and "level_opened prior xs = level_opened prior ys"
proof -
  note states = step_states_match [OF assms(1)]
  have closed: "level_closed prior xs = level_closed prior ys" by (simp add: level_closed_def states)
  show opened: "level_opened prior xs = level_opened prior ys" unfolding level_opened_def states closed ..
  have settled: "level_settled prior xs = level_settled prior ys" unfolding level_settled_def states(3) closed opened ..
  have entry: "closeReason (xs ! i) = closeReason (ys ! i)" "openReason (xs ! i) = openReason (ys ! i)" if "i < length xs" for i
    using list_all2_nthD [OF assms(1) that] by (simp_all add: entries_match_def)
  have "list_all2 (\<lambda>p q. (case p of (before, entry) \<Rightarrow> closeReason entry \<noteq> None \<and> rule_state before = prior) =
      (case q of (before, entry) \<Rightarrow> closeReason entry \<noteq> None \<and> rule_state before = prior)) (zip befores xs) (zip befores' ys)"
  proof (rule list_all2_all_nthI)
    show "length (zip befores xs) = length (zip befores' ys)"
      using list_all2_lengthD [OF assms(1)] list_all2_lengthD [OF assms(2)] by simp
    fix i assume "i < length (zip befores xs)"
    then have i: "i < length befores" "i < length xs" by simp_all
    have "rules_match anchor (befores ! i) (befores' ! i)" using list_all2_nthD [OF assms(2) i(1)] .
    then have "rule_state (befores ! i) = prior \<longleftrightarrow> rule_state (befores' ! i) = prior"
      using assms(3) by (auto simp: rules_match_def rule_rests_def)
    then show "(case zip befores xs ! i of (before, entry) \<Rightarrow> closeReason entry \<noteq> None \<and> rule_state before = prior) =
      (case zip befores' ys ! i of (before, entry) \<Rightarrow> closeReason entry \<noteq> None \<and> rule_state before = prior)"
      using i entry(1) [OF i(2)] list_all2_lengthD [OF assms(1)] list_all2_lengthD [OF assms(2)] by simp
  qed
  then have found: "find_index (\<lambda>(before, entry). closeReason entry \<noteq> None \<and> rule_state before = prior) (zip befores xs) =
      find_index (\<lambda>(before, entry). closeReason entry \<noteq> None \<and> rule_state before = prior) (zip befores' ys)"
    by (rule find_index_match)
  have ending: "ending_rule prior befores xs = ending_rule prior befores' ys"
    unfolding ending_rule_def found
  proof (rule option.map_cong0)
    fix i assume "i \<in> set_option (find_index (\<lambda>(before, entry). closeReason entry \<noteq> None \<and> rule_state before = prior) (zip befores' ys))"
    then have "i < length ys" using find_index_Some [of _ "zip befores' ys" i] by (auto simp: elem_set)
    then show "(i, closeReason (xs ! i)) = (i, closeReason (ys ! i))" using entry(1) list_all2_lengthD [OF assms(1)] by simp
  qed
  have beginning: "beginning_rule state xs = beginning_rule state ys" for state
  proof -
    have first: "find_index (\<lambda>e. openReason e \<noteq> None \<and> rule_state (afterOpen e) = state) xs =
        find_index (\<lambda>e. openReason e \<noteq> None \<and> rule_state (afterOpen e) = state) ys"
    proof (rule find_index_match, rule list_all2_all_nthI)
      show "length xs = length ys" by (rule list_all2_lengthD [OF assms(1)])
      fix i assume i: "i < length xs"
      then have "rule_opens (xs ! i)" "rule_opens (ys ! i)" "entries_match anchor (xs ! i) (ys ! i)"
        using assms(1,4,5) list_all2_lengthD [OF assms(1)] by (simp_all add: list_all2_nthD)
      then show "(openReason (xs ! i) \<noteq> None \<and> rule_state (afterOpen (xs ! i)) = state) =
          (openReason (ys ! i) \<noteq> None \<and> rule_state (afterOpen (ys ! i)) = state)"
        by (auto simp: entries_match_def rule_opens_def rules_match_def rule_rests_def at_rest_def)
    qed
    have second: "find_index (\<lambda>e. rule_state (afterOpen e) = PENDING_TRIGGER) xs =
        find_index (\<lambda>e. rule_state (afterOpen e) = PENDING_TRIGGER) ys"
      using assms(1) by (intro find_index_match, elim list_all2_mono)
        (auto simp: entries_match_def rules_match_def rule_rests_def at_rest_def)
    have "openReason (xs ! i) = openReason (ys ! i)"
      if "find_index (\<lambda>e. openReason e \<noteq> None \<and> rule_state (afterOpen e) = state) ys = Some i" for i
      using entry(2) find_index_Some [OF that] list_all2_lengthD [OF assms(1)] by simp
    then show ?thesis unfolding beginning_rule_def first second
      by (cases "find_index (\<lambda>e. openReason e \<noteq> None \<and> rule_state (afterOpen e) = state) ys") (simp, simp only: option.case)
  qed
  show "level_moves prior befores xs rules date = level_moves prior befores' ys rules date"
    unfolding level_moves_def settled opened ending beginning ..
qed

text \<open>A level that holds exactly its rules' lifecycles and agrees with them.\<close>

definition level_stored :: "string list \<Rightarrow> level_lifecycle \<Rightarrow> bool" where
  "level_stored keys level \<longleftrightarrow>
     js_keys (level_rules level) = keys \<and> agrees (level_state level) (map snd (level_rules level))"

lemma stored_ok: "level_stored keys level \<Longrightarrow> level_ok keys level"
  by (simp add: level_stored_def level_ok_def)

lemma step_stored:
  assumes "level_ok keys level" "observes keys step" "distinct keys" "keys \<noteq> []"
  shows "level_stored keys (step_next (stepMonitorLevel level step))"
  using level_step_ok(2,3) [OF assms] by (simp add: level_stored_def)

lemma levels_match_step:
  assumes match: "levels_match anchor a b" and stored: "level_stored keys a" "level_stored keys b"
    and obs: "observes keys step" "distinct keys" "keys \<noteq> []" and later: "anchor < step_date step"
  shows "levels_match anchor (step_next (stepMonitorLevel a step)) (step_next (stepMonitorLevel b step))"
proof -
  let ?xs = "entries_of a step" and ?ys = "entries_of b step"
  let ?ma = "level_moves (level_state a) (befores_of a step) ?xs (step_rules step) (step_date step)"
  let ?mb = "level_moves (level_state b) (befores_of b step) ?ys (step_rules step) (step_date step)"
  have keys: "distinct (map obs_key (step_rules step))" "map obs_key (step_rules step) = keys" using obs by (simp_all add: observes_def)
  note fa = stepMonitorLevel_fields [OF keys(1), of a] and fb = stepMonitorLevel_fields [OF keys(1), of b]
  have befores: "befores_of a step = map snd (level_rules a)" "befores_of b step = map snd (level_rules b)"
    using rule_before_stored [OF _ obs(1,2)] stored by (simp_all add: level_stored_def)
  have matched: "list_all2 (rules_match anchor) (befores_of a step) (befores_of b step)"
    unfolding befores using match by (simp add: levels_match_def)
  then have entries: "list_all2 (entries_match anchor) ?xs ?ys"
    by (simp add: list_all2_map1 list_all2_map2 list_all2_same stepRule_match [OF _ later])
  have closes: "list_all2 rule_closes (befores_of l step) (entries_of l step)" for l
    by (simp add: list_all2_map1 list_all2_map2 list_all2_same stepRule_closes)
  have opens: "\<forall>e \<in> set (entries_of l step). rule_opens e" for l by (simp add: stepRule_opens)
  note states = step_states_match [OF entries]
  have size: "length keys = length (step_rules step)" using keys(2) by auto
  have rules: "js_keys (level_rules (step_next (stepMonitorLevel a step))) = js_keys (level_rules (step_next (stepMonitorLevel b step)))"
    using size by (simp add: fa(4) fb(4) keys(2))
  have afters: "list_all2 (rules_match anchor) (map snd (level_rules (step_next (stepMonitorLevel a step))))
      (map snd (level_rules (step_next (stepMonitorLevel b step))))"
    using entries size by (simp add: fa(4) fb(4) keys(2) list_all2_map1 list_all2_map2 entries_match_def) (elim list_all2_mono, simp)
  show ?thesis
  proof (cases "at_rest (level_state a)")
    case True
    then have rest: "at_rest (level_state b)" using match by (auto simp: levels_match_def)
    have inactive: "levelOf (map afterClose (entries_of l step)) \<noteq> Some ACTIVE"
      if "at_rest (level_state l)" "befores_of l step = map snd (level_rules l)" "level_stored keys l" for l
    proof -
      have none: "levelOf (befores_of l step) = None"
        using that(1,3) unfolding that(2)
        by (cases rule: levelOf_cases [of "map snd (level_rules l)"]) (auto simp: level_stored_def agrees_def at_rest_def)
      have "rule_state (afterClose e) \<noteq> ACTIVE" if e: "e \<in> set (entries_of l step)" for e
      proof -
        obtain k where k: "k < length (entries_of l step)" "e = entries_of l step ! k"
          using e [unfolded in_set_conv_nth] by blast
        have "rule_closes (befores_of l step ! k) e" using list_all2_nthD2 [OF closes k(1)] k(2) by simp
        moreover have "at_rest (rule_state (befores_of l step ! k))" using none k(1) by (simp add: levelOf_iff)
        ultimately show ?thesis by (auto simp: rule_closes_def at_rest_def)
      qed
      then show ?thesis by (auto simp: levelOf_iff)
    qed
    have moved: "?ma \<noteq> [] \<longleftrightarrow> levelOf (map afterOpen ?xs) \<noteq> None" "?mb \<noteq> [] \<longleftrightarrow> levelOf (map afterOpen ?ys) \<noteq> None"
      using resting_moves [OF True closes opens inactive [OF True befores(1) stored(1)]]
        resting_moves [OF rest closes opens inactive [OF rest befores(2) stored(2)]] by blast+
    show ?thesis
    proof (cases "levelOf (map afterOpen ?xs)")
      case None
      then have "?ma = []" "?mb = []" using moved states(2) by auto
      then show ?thesis using rules afters match
        by (simp add: levels_match_def fa(2,3) fb(2,3) level_after_def)
    next
      case (Some s)
      then have "?ma \<noteq> []" "?mb \<noteq> []" using moved states(2) by auto
      moreover have "level_opened (level_state a) ?xs = s" "level_opened (level_state b) ?ys = s"
        unfolding level_opened_def states(2) [symmetric] Some by simp_all
      ultimately show ?thesis using rules afters later
        by (simp add: levels_match_def fa(2,3) fb(2,3) level_after_def not_le)
    qed
  next
    case False
    then have same: "level_state a = level_state b" "level_since a = level_since b" "\<not> not_after anchor (level_since a)"
      using match by (auto simp: levels_match_def)
    note agree = entries_agree [OF entries matched False opens opens]
    show ?thesis using rules afters later same
      unfolding levels_match_def fa(2,3) fb(2,3) level_after_def agree same(1) [symmetric] same(2) [symmetric]
      by (simp add: not_le)
  qed
qed

lemma levels_match_replay:
  assumes "levels_match anchor a b" "level_stored keys a" "level_stored keys b" "distinct keys" "keys \<noteq> []"
    and "\<forall>s \<in> set steps. observes keys s \<and> anchor < step_date s"
  shows "levels_match anchor (replayMonitorLevel steps a) (replayMonitorLevel steps b)"
  using assms
proof (induction steps arbitrary: a b)
  case (Cons s steps)
  have s: "observes keys s" "anchor < step_date s" using Cons.prems(6) by simp_all
  have "levels_match anchor (step_next (stepMonitorLevel a s)) (step_next (stepMonitorLevel b s))"
    by (rule levels_match_step [OF Cons.prems(1-3) s(1) Cons.prems(4,5) s(2)])
  moreover have "level_stored keys (step_next (stepMonitorLevel l s))" if "level_stored keys l" for l
    by (rule step_stored [OF stored_ok [OF that] s(1) Cons.prems(4,5)])
  ultimately show ?case
    using Cons.IH Cons.prems by (simp add: replayMonitorLevel_def)
qed (simp add: replayMonitorLevel_def)

subsection \<open>A resting session forgets\<close>

text \<open>Observations of the same rules: their keys, and which of them have conditions.\<close>

definition same_rules :: "string list \<Rightarrow> bool list \<Rightarrow> level_step \<Rightarrow> bool" where
  "same_rules keys shape step \<longleftrightarrow>
     observes keys step \<and> map (\<lambda>rule. obs_conditions rule \<noteq> None) (step_rules step) = shape"

definition rule_older :: "local_date \<Rightarrow> bool \<Rightarrow> rule_lifecycle \<Rightarrow> bool" where
  "rule_older date has_conditions rule \<longleftrightarrow>
     earlier date (rule_since rule) \<and> earlier date (rule_triggerDate rule) \<and>
     (rule_state rule = PENDING_TRIGGER \<longrightarrow> has_conditions)"

text \<open>A fresh level, or a stored one whose dates all lie before \<open>date\<close>.\<close>

definition level_older :: "string list \<Rightarrow> bool list \<Rightarrow> local_date \<Rightarrow> level_lifecycle \<Rightarrow> bool" where
  "level_older keys shape date level \<longleftrightarrow>
     level = INITIAL_MONITOR_LEVEL_LIFECYCLE \<or>
     level_stored keys level \<and> earlier date (level_since level) \<and>
     list_all2 (rule_older date) shape (map snd (level_rules level))"

lemma older_ok: "level_older keys shape date level \<Longrightarrow> level_ok keys level"
  by (auto simp: level_older_def stored_ok)

lemma earlier_later: "earlier date d \<Longrightarrow> date \<le> date' \<Longrightarrow> earlier date' d"
  unfolding earlier_def by (cases d) (simp_all add: less_le_trans)

lemma rule_older_later: "rule_older date c r \<Longrightarrow> date \<le> date' \<Longrightarrow> rule_older date' c r"
  unfolding rule_older_def using earlier_later by blast

lemma level_older_later: "level_older keys shape date level \<Longrightarrow> date \<le> date' \<Longrightarrow> level_older keys shape date' level"
  unfolding level_older_def using earlier_later by (auto elim: list_all2_mono intro: rule_older_later)

lemma stepRule_older:
  assumes "rule_older date (obs_conditions observation \<noteq> None) rule" "date < date'"
  shows "rule_older date' (obs_conditions observation \<noteq> None) (afterOpen (stepRule rule observation date eligible))"
proof -
  have "earlier date' d" if "earlier date d" for d using that assms(2) by (intro earlier_later [OF that]) simp
  then show ?thesis using assms
    by (cases "rule_state rule")
      (auto simp: rule_older_def stepRule_def close_phase_def open_phase_def Let_def split: option.splits)
qed

lemma stepRule_rests:
  assumes "rule_older date (obs_conditions observation \<noteq> None) rule"
    and "\<not> eligible \<or> (case obs_conditions observation of Some v \<Rightarrow> v = FALSE | None \<Rightarrow> obs_trigger observation \<noteq> Some TRUE)"
  shows "rule_rests date (afterOpen (stepRule rule observation date eligible))"
proof -
  have "not_after date d" if "earlier date d" for d using that unfolding earlier_def not_after_def by (cases d) simp_all
  then show ?thesis using assms
    by (cases "rule_state rule"; cases "obs_conditions observation")
      (auto simp: rule_older_def rule_rests_def at_rest_def stepRule_def close_phase_def open_phase_def Let_def
        split: option.splits)
qed

lemma befores_older:
  assumes older: "level_older keys shape date level" and obs: "same_rules keys shape step" "distinct keys"
  shows "list_all2 (\<lambda>observation. rule_older date (obs_conditions observation \<noteq> None)) (step_rules step) (befores_of level step)"
proof (cases "level = INITIAL_MONITOR_LEVEL_LIFECYCLE")
  case True
  then show ?thesis
    by (simp add: list_all2_map2 list_all2_same rule_before_def INITIAL_MONITOR_LEVEL_LIFECYCLE_def inheritedRule_def rule_older_def)
next
  case False
  then have "level_stored keys level" "list_all2 (rule_older date) shape (map snd (level_rules level))"
    using older by (simp_all add: level_older_def)
  moreover have "befores_of level step = map snd (level_rules level)"
    by (rule rule_before_stored) (use calculation obs in \<open>simp_all add: level_stored_def same_rules_def\<close>)
  ultimately show ?thesis using obs(1) by (auto simp: same_rules_def list_all2_map1)
qed

lemma step_rules_after:
  assumes "level_older keys shape (step_date step) level" "same_rules keys shape step" "distinct keys"
    and "\<And>observation rule. observation \<in> set (step_rules step) \<Longrightarrow>
      rule_older (step_date step) (obs_conditions observation \<noteq> None) rule \<Longrightarrow>
      P (obs_conditions observation \<noteq> None) (afterOpen (stepRule rule observation (step_date step) (step_eligible step)))"
  shows "list_all2 P shape (map snd (level_rules (step_next (stepMonitorLevel level step))))"
proof -
  have keys: "distinct (map obs_key (step_rules step))" using assms(2,3) by (simp add: same_rules_def observes_def)
  have "\<forall>x \<in> set (step_rules step). rule_older (step_date step) (obs_conditions x \<noteq> None) (rule_before level x)"
    using befores_older [OF assms(1-3)] by (simp add: list_all2_map2 list_all2_same)
  then have "list_all2 P (map (\<lambda>x. obs_conditions x \<noteq> None) (step_rules step)) (map afterOpen (entries_of level step))"
    using assms(4) by (simp add: list_all2_map1 list_all2_map2 list_all2_same)
  then show ?thesis using assms(2) stepMonitorLevel_fields(4) [OF keys, of level]
    by (auto simp: same_rules_def comp_def)
qed

lemma step_older:
  assumes "level_older keys shape (step_date step) level" "same_rules keys shape step" "distinct keys" "keys \<noteq> []"
    and "step_date step < date"
  shows "level_older keys shape date (step_next (stepMonitorLevel level step))"
proof -
  have obs: "observes keys step" using assms(2) by (simp add: same_rules_def)
  then have keys: "distinct (map obs_key (step_rules step))" using assms(3) by (simp add: observes_def)
  have "list_all2 (rule_older date) shape (map snd (level_rules (step_next (stepMonitorLevel level step))))"
    by (rule step_rules_after [OF assms(1-3)]) (rule stepRule_older [OF _ assms(5)])
  moreover have "earlier (step_date step) (level_since level)"
    using assms(1) by (auto simp: level_older_def INITIAL_MONITOR_LEVEL_LIFECYCLE_def)
  then have "earlier date (level_since (step_next (stepMonitorLevel level step)))"
    using assms(5) by (simp add: stepMonitorLevel_fields(3) [OF keys] earlier_later)
  ultimately show ?thesis
    using step_stored [OF older_ok [OF assms(1)] obs assms(3,4)] by (simp add: level_older_def)
qed

lemma replay_older:
  assumes "distinct keys" "keys \<noteq> []"
  shows "level_older keys shape first level \<Longrightarrow> \<forall>s \<in> set steps. same_rules keys shape s \<Longrightarrow>
    sorted_wrt (<) (map step_date steps) \<Longrightarrow> \<forall>s \<in> set steps. first \<le> step_date s \<and> step_date s < last_date \<Longrightarrow> first \<le> last_date \<Longrightarrow>
    level_older keys shape last_date (replayMonitorLevel steps level)"
proof (induction steps arbitrary: level first)
  case Nil
  then show ?case by (simp add: replayMonitorLevel_def level_older_later)
next
  case (Cons s steps)
  have next_date: "step_date s \<le> step_date t" if "t \<in> set steps" for t using Cons.prems(3) that by auto
  have older: "level_older keys shape (step_date s) level" using Cons.prems(1,4) by (auto intro: level_older_later)
  show ?case
  proof (cases steps)
    case Nil
    have "level_older keys shape last_date (step_next (stepMonitorLevel level s))"
      using Cons.prems(2,4) by (intro step_older [OF older _ assms]) simp_all
    then show ?thesis by (simp add: replayMonitorLevel_def Nil)
  next
    case (Cons t rest)
    have "level_older keys shape (step_date t) (step_next (stepMonitorLevel level s))"
      using Cons.prems Cons by (intro step_older [OF older _ assms]) simp_all
    then have "level_older keys shape last_date (replayMonitorLevel steps (step_next (stepMonitorLevel level s)))"
      using Cons.prems Cons by (intro Cons.IH [where first = "step_date t"]) (auto intro: less_imp_le)
    then show ?thesis by (simp add: replayMonitorLevel_def)
  qed
qed

lemma resting_step_matches:
  assumes "level_older keys shape (step_date step) a" "level_older keys shape (step_date step) b"
    and obs: "same_rules keys shape step" "distinct keys" "keys \<noteq> []" and rests: "isRestingMonitorStep step"
  shows "levels_match (step_date step) (step_next (stepMonitorLevel a step)) (step_next (stepMonitorLevel b step))"
proof -
  let ?n = "\<lambda>l. step_next (stepMonitorLevel l step)"
  have obs': "observes keys step" using obs(1) by (simp add: same_rules_def)
  then have keys: "distinct (map obs_key (step_rules step))" using obs(2) by (simp add: observes_def)
  have one: "level_stored keys (?n l)" "list_all2 (\<lambda>_. rule_rests (step_date step)) shape (map snd (level_rules (?n l)))"
    "at_rest (level_state (?n l))" "not_after (step_date step) (level_since (?n l))"
    if l: "level_older keys shape (step_date step) l" for l
  proof -
    show stored: "level_stored keys (?n l)" by (rule step_stored [OF older_ok [OF l] obs' obs(2,3)])
    show rules: "list_all2 (\<lambda>_. rule_rests (step_date step)) shape (map snd (level_rules (?n l)))"
      by (rule step_rules_after [OF l obs(1,2)], rule stepRule_rests)
        (use rests in \<open>auto simp: isRestingMonitorStep_def list_all_iff split: option.splits\<close>)
    have "\<forall>r \<in> set (map snd (level_rules (?n l))). at_rest (rule_state r)"
      using list_all2_nthD2 [OF rules] list_all2_lengthD [OF rules] unfolding rule_rests_def all_set_conv_all_nth by simp
    then have "levelOf (map snd (level_rules (?n l))) = None" by (simp add: levelOf_iff)
    then show "at_rest (level_state (?n l))" using stored by (simp add: level_stored_def agrees_def)
    have "earlier (step_date step) (level_since l)"
      using l by (auto simp: level_older_def INITIAL_MONITOR_LEVEL_LIFECYCLE_def)
    then show "not_after (step_date step) (level_since (?n l))"
      unfolding stepMonitorLevel_fields(3) [OF keys] by (cases "level_since l") (simp_all add: less_imp_le)
  qed
  note a = one [OF assms(1)] and b = one [OF assms(2)]
  have size: "length (map snd (level_rules (?n a))) = length (map snd (level_rules (?n b)))"
    using list_all2_lengthD [OF a(2)] list_all2_lengthD [OF b(2)] by simp
  have "list_all2 (rules_match (step_date step)) (map snd (level_rules (?n a))) (map snd (level_rules (?n b)))"
    using size list_all2_nthD2 [OF a(2)] list_all2_nthD2 [OF b(2)]
    by (intro list_all2_all_nthI) (simp_all add: rules_match_def)
  then show ?thesis using a(1,3,4) b(1,3,4) by (simp add: levels_match_def level_stored_def)
qed

text \<open>Settling a level is invisible to every later observation.\<close>

lemma settle_stored:
  assumes "level_stored keys level"
  shows "level_stored keys (settleMonitorLevelLifecycle level anchor)"
proof -
  have same: "rule_state (settle_rule anchor r) = ACTIVE \<longleftrightarrow> rule_state r = ACTIVE"
    "rule_state (settle_rule anchor r) = PENDING_TRIGGER \<longleftrightarrow> rule_state r = PENDING_TRIGGER" for r
    by (simp_all add: settle_rule_def at_rest_def)
  have "levelOf (map snd (map (\<lambda>p. (fst p, settle_rule anchor (snd p))) (level_rules level))) = levelOf (map snd (level_rules level))"
    by (simp add: levelOf_def list_ex_iff same)
  then show ?thesis using assms
    by (cases rule: levelOf_cases [of "map snd (level_rules level)"])
      (auto simp: level_stored_def settleMonitorLevelLifecycle_def Let_def comp_def agrees_def at_rest_def)
qed

lemma settle_rule_match: "rules_match anchor r s \<Longrightarrow> rules_match anchor (settle_rule anchor r) s"
  unfolding rules_match_def rule_rests_def settle_rule_def
  by (cases r) (auto simp: at_rest_def split: option.splits)

lemma settle_matches:
  assumes "levels_match anchor level level"
  shows "levels_match anchor (settleMonitorLevelLifecycle level anchor) level"
proof -
  have "list_all2 (rules_match anchor) (map (\<lambda>p. settle_rule anchor (snd p)) (level_rules level)) (map snd (level_rules level))"
    using assms settle_rule_match by (simp add: levels_match_def list_all2_map1 list_all2_map2 list_all2_same)
  then show ?thesis using assms
    by (auto simp: levels_match_def settleMonitorLevelLifecycle_def Let_def comp_def at_rest_def split: option.splits)
qed

lemma levels_match_sym: "levels_match anchor a b \<Longrightarrow> levels_match anchor b a"
proof -
  have "rules_match anchor r s \<Longrightarrow> rules_match anchor s r" for r s by (auto simp: rules_match_def)
  moreover assume "levels_match anchor a b"
  ultimately show ?thesis unfolding levels_match_def by (auto simp: list_all2_conv_all_nth)
qed

lemma levels_match_trans: "levels_match anchor a b \<Longrightarrow> levels_match anchor b c \<Longrightarrow> levels_match anchor a c"
proof -
  have "rules_match anchor r s \<Longrightarrow> rules_match anchor s t \<Longrightarrow> rules_match anchor r t" for r s t
    by (auto simp: rules_match_def rule_rests_def)
  moreover assume "levels_match anchor a b" "levels_match anchor b c"
  ultimately show ?thesis unfolding levels_match_def by (auto elim: list_all2_trans [rotated])
qed

subsection \<open>Reconstruction\<close>

lemma latest_resting_found:
  "0 \<le> latest_resting steps \<Longrightarrow> nat (latest_resting steps) < length steps \<and> isRestingMonitorStep (steps ! nat (latest_resting steps))"
  by (induction steps) (auto simp: Let_def nat_add_distrib split: if_splits)

lemma replay_append: "replayMonitorLevel (xs @ ys) level = replayMonitorLevel ys (replayMonitorLevel xs level)"
  by (simp add: replayMonitorLevel_def)

lemma replay_Cons: "replayMonitorLevel (x # xs) level = replayMonitorLevel xs (step_next (stepMonitorLevel level x))"
  by (simp add: replayMonitorLevel_def)

lemma older_split:
  assumes keys: "distinct keys" "keys \<noteq> []" and shaped: "\<forall>s \<in> set (steps @ [step]). same_rules keys shape s"
    and dates: "sorted_wrt (<) (map step_date (steps @ [step]))"
  shows "level_older keys shape (step_date step) (replayMonitorLevel steps INITIAL_MONITOR_LEVEL_LIFECYCLE)"
proof (cases steps)
  case Nil
  then show ?thesis by (simp add: replayMonitorLevel_def level_older_def)
next
  case (Cons s rest)
  have "level_older keys shape (step_date s) INITIAL_MONITOR_LEVEL_LIFECYCLE" by (simp add: level_older_def)
  then show ?thesis
    using shaped dates Cons
    by (intro replay_older [OF keys, where first = "step_date s"]) (auto simp: sorted_wrt_append intro: less_imp_le)
qed

text \<open>From a resting session on, a bounded replay and the full one stay matched.\<close>

lemma bounded_replay_matches:
  assumes keys: "distinct keys" "keys \<noteq> []" and shaped: "\<forall>s \<in> set (older @ near @ [step] @ later). same_rules keys shape s"
    and dates: "sorted_wrt (<) (map step_date (older @ near @ [step] @ later))" and rests: "isRestingMonitorStep step"
  shows "levels_match (step_date step)
      (replayMonitorLevel (near @ [step] @ later) INITIAL_MONITOR_LEVEL_LIFECYCLE)
      (replayMonitorLevel (older @ near @ [step] @ later) INITIAL_MONITOR_LEVEL_LIFECYCLE)"
    and "level_stored keys (replayMonitorLevel (near @ [step] @ later) INITIAL_MONITOR_LEVEL_LIFECYCLE)"
    and "level_stored keys (replayMonitorLevel (older @ near @ [step] @ later) INITIAL_MONITOR_LEVEL_LIFECYCLE)"
proof -
  have older: "level_older keys shape (step_date step) (replayMonitorLevel near INITIAL_MONITOR_LEVEL_LIFECYCLE)"
    "level_older keys shape (step_date step) (replayMonitorLevel (older @ near) INITIAL_MONITOR_LEVEL_LIFECYCLE)"
    using shaped dates by (intro older_split [OF keys]; auto simp: sorted_wrt_append)+
  have step: "same_rules keys shape step" and obs: "observes keys step" using shaped by (simp_all add: same_rules_def)
  have rest: "\<forall>s \<in> set later. observes keys s \<and> step_date step < step_date s"
    using shaped dates by (auto simp: same_rules_def sorted_wrt_append)
  let ?a = "step_next (stepMonitorLevel (replayMonitorLevel near INITIAL_MONITOR_LEVEL_LIFECYCLE) step)"
  let ?b = "step_next (stepMonitorLevel (replayMonitorLevel (older @ near) INITIAL_MONITOR_LEVEL_LIFECYCLE) step)"
  have match: "levels_match (step_date step) ?a ?b" by (rule resting_step_matches [OF older step keys rests])
  have stored: "level_stored keys ?a" "level_stored keys ?b"
    using older_ok [OF older(1)] older_ok [OF older(2)] by (simp_all add: step_stored [OF _ obs keys])
  have replay: "level_stored keys (replayMonitorLevel later l)" if "level_stored keys l" for l
    using rest that
  proof (induction later arbitrary: l)
    case (Cons s later)
    then show ?case using step_stored [OF stored_ok [OF Cons.prems(2)] _ keys] by (simp add: replay_Cons)
  qed (simp add: replayMonitorLevel_def)
  show "levels_match (step_date step)
      (replayMonitorLevel (near @ [step] @ later) INITIAL_MONITOR_LEVEL_LIFECYCLE)
      (replayMonitorLevel (older @ near @ [step] @ later) INITIAL_MONITOR_LEVEL_LIFECYCLE)"
    using levels_match_replay [OF match stored keys rest] by (simp add: replay_append replay_Cons)
  show "level_stored keys (replayMonitorLevel (near @ [step] @ later) INITIAL_MONITOR_LEVEL_LIFECYCLE)"
    "level_stored keys (replayMonitorLevel (older @ near @ [step] @ later) INITIAL_MONITOR_LEVEL_LIFECYCLE)"
    using replay [OF stored(1)] replay [OF stored(2)] by (simp_all add: replay_append replay_Cons)
qed

lemma reconstruct_anchored:
  assumes "recon_anchor (reconstructMonitorLevel history live is_complete) = Some anchor"
  obtains near step later where "history @ [live] = take (nat (max (latest_resting history) 0)) history @ near @ [step] @ later"
    and "isRestingMonitorStep step" "step_date step = anchor"
    and "recon_lifecycle (reconstructMonitorLevel history live is_complete) =
      settleMonitorLevelLifecycle (replayMonitorLevel (near @ [step] @ later) INITIAL_MONITOR_LEVEL_LIFECYCLE) anchor"
proof (cases "0 \<le> latest_resting history")
  case True
  let ?k = "nat (latest_resting history)"
  have k: "?k < length history" "isRestingMonitorStep (history ! ?k)" using latest_resting_found [OF True] by simp_all
  have "drop ?k history = history ! ?k # drop (Suc ?k) history" using k(1) by (simp add: Cons_nth_drop_Suc)
  moreover have "step_date (history ! ?k) = anchor" using assms True by (simp add: reconstructMonitorLevel_def Let_def)
  ultimately show ?thesis
    using that [of "[]" "history ! ?k" "drop (Suc ?k) history @ [live]"] k(2) True append_take_drop_id [of ?k history]
    by (simp add: reconstructMonitorLevel_def Let_def replay_append replay_Cons) (simp add: replayMonitorLevel_def)
next
  case False
  then have "isRestingMonitorStep live" "step_date live = anchor"
    using assms by (simp_all add: reconstructMonitorLevel_def Let_def split: if_splits)
  then show ?thesis
    using that [of history live "[]"] False
    by (simp add: reconstructMonitorLevel_def Let_def replay_append replay_Cons) (simp add: replayMonitorLevel_def)
qed

text \<open>
  C2. Reconstruction is exact: whenever the reconstruction from a bounded history claims to be exact, the
  level it returns is the replay of the security's whole history, settled at the anchor, and whatever is
  observed afterwards, the reconstructed level and the fully replayed one stay equal up to that settling.
\<close>

theorem reconstruction_is_full_replay:
  fixes is_complete :: bool
  assumes "distinct keys" "keys \<noteq> []" "\<forall>s \<in> set (older @ history @ [live] @ later). same_rules keys shape s"
    and "sorted_wrt (<) (map step_date (older @ history @ [live] @ later))"
  defines "r \<equiv> reconstructMonitorLevel history live is_complete"
  defines "full \<equiv> replayMonitorLevel (older @ history @ [live]) INITIAL_MONITOR_LEVEL_LIFECYCLE"
  assumes "recon_exact r" "is_complete \<Longrightarrow> older = []"
  shows "case recon_anchor r of
      None \<Rightarrow> recon_lifecycle r = full
    | Some anchor \<Rightarrow> recon_lifecycle r = settleMonitorLevelLifecycle full anchor \<and>
        settleMonitorLevelLifecycle (replayMonitorLevel later (recon_lifecycle r)) anchor =
        settleMonitorLevelLifecycle (replayMonitorLevel later full) anchor"
proof (cases "recon_anchor r")
  case None
  then have "latest_resting history < 0" "\<not> isRestingMonitorStep live"
    by (auto simp: r_def reconstructMonitorLevel_def Let_def split: if_splits)
  then have "is_complete" using assms(7) by (simp add: r_def reconstructMonitorLevel_def Let_def)
  then show ?thesis
    using None assms(8) \<open>latest_resting history < 0\<close> \<open>\<not> isRestingMonitorStep live\<close>
    by (simp add: r_def full_def reconstructMonitorLevel_def Let_def replayMonitorLevel_def)
next
  case (Some anchor)
  let ?skipped = "take (nat (max (latest_resting history) 0)) history"
  obtain near step after where split: "history @ [live] = ?skipped @ near @ [step] @ after"
    and rests: "isRestingMonitorStep step" and anchor: "step_date step = anchor"
    and lifecycle: "recon_lifecycle r =
      settleMonitorLevelLifecycle (replayMonitorLevel (near @ [step] @ after) INITIAL_MONITOR_LEVEL_LIFECYCLE) anchor"
    using reconstruct_anchored [OF Some [unfolded r_def]] unfolding r_def by metis
  have all: "older @ history @ [live] = (older @ ?skipped) @ near @ [step] @ after" using split by simp
  have prefix: "set ((older @ ?skipped) @ near @ [step] @ after) \<subseteq> set (older @ history @ [live] @ later)"
    "sorted_wrt (<) (map step_date ((older @ ?skipped) @ near @ [step] @ after))"
    unfolding all [symmetric] using assms(4) by (auto simp: sorted_wrt_append)
  have shaped: "\<forall>s \<in> set ((older @ ?skipped) @ near @ [step] @ after). same_rules keys shape s"
    using assms(3) prefix(1) by blast
  note bounded = bounded_replay_matches [OF assms(1,2) shaped prefix(2) rests, folded all, folded full_def, unfolded anchor]
  let ?near = "replayMonitorLevel (near @ [step] @ after) INITIAL_MONITOR_LEVEL_LIFECYCLE"
  have settled: "recon_lifecycle r = settleMonitorLevelLifecycle full anchor"
    unfolding lifecycle by (rule settle_levels_match [OF bounded(1)])
  have self: "levels_match anchor full full"
    using levels_match_trans [OF levels_match_sym [OF bounded(1)] bounded(1)] .
  have "step \<in> set (history @ [live])" using split by simp
  then have after: "\<forall>s \<in> set later. observes keys s \<and> anchor < step_date s"
    using assms(3,4) anchor by (auto simp: same_rules_def sorted_wrt_append)
  have "levels_match anchor (replayMonitorLevel later (recon_lifecycle r)) (replayMonitorLevel later full)"
    unfolding settled
    by (rule levels_match_replay [OF settle_matches [OF self] settle_stored [OF bounded(3)] bounded(3) assms(1,2) after])
  then show ?thesis using Some settled settle_levels_match by simp
qed

lemma example_same_rules: "same_rules [''b1''] [True] (example_step date conditions trigger)"
  by (simp add: same_rules_def observes_def example_step_def)

lemma reconstruction_is_full_replay_witness:
  "let history = [example_step ''2024-01-03'' FALSE FALSE, example_step ''2024-01-04'' TRUE FALSE];
       live = example_step ''2024-01-05'' TRUE TRUE;
       r = reconstructMonitorLevel history live False
   in recon_anchor r = Some ''2024-01-03'' \<and>
      recon_lifecycle r = settleMonitorLevelLifecycle
        (replayMonitorLevel (example_step ''2024-01-02'' TRUE TRUE # history @ [live]) INITIAL_MONITOR_LEVEL_LIFECYCLE) ''2024-01-03''"
proof -
  let ?history = "[example_step ''2024-01-03'' FALSE FALSE, example_step ''2024-01-04'' TRUE FALSE]"
  let ?live = "example_step ''2024-01-05'' TRUE TRUE"
  have anchor: "recon_anchor (reconstructMonitorLevel ?history ?live False) = Some ''2024-01-03''" by code_simp
  have exact: "recon_exact (reconstructMonitorLevel ?history ?live False)" by code_simp
  have dates: "sorted_wrt (<) (map step_date ([example_step ''2024-01-02'' TRUE TRUE] @ ?history @ [?live] @ []))" by code_simp
  have "recon_lifecycle (reconstructMonitorLevel ?history ?live False) = settleMonitorLevelLifecycle
      (replayMonitorLevel ([example_step ''2024-01-02'' TRUE TRUE] @ ?history @ [?live]) INITIAL_MONITOR_LEVEL_LIFECYCLE) ''2024-01-03''"
    using reconstruction_is_full_replay [of "[''b1'']" "[example_step ''2024-01-02'' TRUE TRUE]" ?history ?live "[]" "[True]" False,
        OF _ _ _ dates exact] anchor
    by (simp add: example_same_rules)
  then show ?thesis using anchor unfolding Let_def by simp
qed

end
