(* ===== verification/Digest.thy ===== *)
theory Digest
  imports Prelude "HOL-Library.Word"
begin

section \<open>The digest of a selection\<close>

text \<open>
  \<open>packages/contracts/src/digest.ts\<close>: SHA-256 in plain TypeScript. Numbers under the bitwise
  operators and the entries of a \<open>Uint32Array\<close> are words of 32 bits; every sum stays below
  \<open>2 ^ 53\<close> before it is reduced, so adding words is what the code computes. A text is the list of
  its code points.
\<close>

unbundle bit_operations_syntax

subsection \<open>The code\<close>

definition ROUND_CONSTANTS :: "32 word list" where
  "ROUND_CONSTANTS =
    [0x428A2F98, 0x71374491, 0xB5C0FBCF, 0xE9B5DBA5, 0x3956C25B, 0x59F111F1,
     0x923F82A4, 0xAB1C5ED5, 0xD807AA98, 0x12835B01, 0x243185BE, 0x550C7DC3,
     0x72BE5D74, 0x80DEB1FE, 0x9BDC06A7, 0xC19BF174, 0xE49B69C1, 0xEFBE4786,
     0x0FC19DC6, 0x240CA1CC, 0x2DE92C6F, 0x4A7484AA, 0x5CB0A9DC, 0x76F988DA,
     0x983E5152, 0xA831C66D, 0xB00327C8, 0xBF597FC7, 0xC6E00BF3, 0xD5A79147,
     0x06CA6351, 0x14292967, 0x27B70A85, 0x2E1B2138, 0x4D2C6DFC, 0x53380D13,
     0x650A7354, 0x766A0ABB, 0x81C2C92E, 0x92722C85, 0xA2BFE8A1, 0xA81A664B,
     0xC24B8B70, 0xC76C51A3, 0xD192E819, 0xD6990624, 0xF40E3585, 0x106AA070,
     0x19A4C116, 0x1E376C08, 0x2748774C, 0x34B0BCB5, 0x391C0CB3, 0x4ED8AA4A,
     0x5B9CCA4F, 0x682E6FF3, 0x748F82EE, 0x78A5636F, 0x84C87814, 0x8CC70208,
     0x90BEFFFA, 0xA4506CEB, 0xBEF9A3F7, 0xC67178F2]"

definition INITIAL_STATE :: "32 word list" where
  "INITIAL_STATE =
    [0x6A09E667, 0xBB67AE85, 0x3C6EF372, 0xA54FF53A, 0x510E527F, 0x9B05688C, 0x1F83D9AB, 0x5BE0CD19]"

definition point_bytes :: "nat \<Rightarrow> 32 word list" where
  "point_bytes code_point =
     (let point = of_nat code_point
      in if code_point < 0x80 then [point]
         else if code_point < 0x800 then [0xc0 OR drop_bit 6 point, 0x80 OR (point AND 0x3f)]
         else if code_point < 0x10000
         then [0xe0 OR drop_bit 12 point, 0x80 OR (drop_bit 6 point AND 0x3f), 0x80 OR (point AND 0x3f)]
         else [0xf0 OR drop_bit 18 point, 0x80 OR (drop_bit 12 point AND 0x3f),
               0x80 OR (drop_bit 6 point AND 0x3f), 0x80 OR (point AND 0x3f)])"

definition utf8Bytes :: "nat list \<Rightarrow> 32 word list" where
  "utf8Bytes text = concat (map point_bytes text)"

definition rotateRight :: "32 word \<Rightarrow> nat \<Rightarrow> 32 word" where
  "rotateRight value_word bits = drop_bit bits value_word OR push_bit (32 - bits) value_word"

text \<open>The loop that pushes zero bytes until 56 bytes remain of the last block.\<close>

function pad_zeros :: "32 word list \<Rightarrow> 32 word list" where
  "pad_zeros bytes = (if length bytes mod 64 = 56 then bytes else pad_zeros (bytes @ [0]))"
  by auto
termination
  by (relation "measure (\<lambda>bytes. let m = length bytes mod 64 in if m \<le> 56 then 56 - m else 120 - m)")
    (auto simp: Let_def mod_Suc)

declare pad_zeros.simps [simp del]

definition word_bytes :: "32 word \<Rightarrow> 32 word list" where
  "word_bytes word = [drop_bit 24 word AND 0xff, drop_bit 16 word AND 0xff, drop_bit 8 word AND 0xff, word AND 0xff]"

definition padded_bytes :: "32 word list \<Rightarrow> 32 word list" where
  "padded_bytes bytes =
     (let bitLength = length bytes * 8;
          high = bitLength div 0x100000000;
          low = bitLength mod 0x100000000
      in pad_zeros (bytes @ [0x80]) @ word_bytes (of_nat high) @ word_bytes (of_nat low))"

definition message_word :: "32 word list \<Rightarrow> nat \<Rightarrow> nat \<Rightarrow> 32 word" where
  "message_word bytes offset index =
     (let start = offset + index * 4
      in push_bit 24 (bytes ! start) OR push_bit 16 (bytes ! (start + 1)) OR
         push_bit 8 (bytes ! (start + 2)) OR bytes ! (start + 3))"

definition schedule_entry :: "32 word list \<Rightarrow> nat \<Rightarrow> 32 word" where
  "schedule_entry schedule index =
     (let previous = schedule ! (index - 15);
          recent = schedule ! (index - 2);
          small0 = rotateRight previous 7 XOR rotateRight previous 18 XOR drop_bit 3 previous;
          small1 = rotateRight recent 17 XOR rotateRight recent 19 XOR drop_bit 10 recent
      in schedule ! (index - 16) + small0 + schedule ! (index - 7) + small1)"

definition fill_schedule :: "32 word list \<Rightarrow> nat \<Rightarrow> 32 word list \<Rightarrow> 32 word list" where
  "fill_schedule bytes offset schedule =
     foldl (\<lambda>schedule index. schedule[index := schedule_entry schedule index])
       (foldl (\<lambda>schedule index. schedule[index := message_word bytes offset index]) schedule [0..<16])
       [16..<64]"

fun round_step ::
  "32 word list \<Rightarrow> nat \<Rightarrow> 32 word list \<Rightarrow> 32 word list"
where
  "round_step schedule index [a, b, c, d, e, f, g, h] =
     (let big1 = rotateRight e 6 XOR rotateRight e 11 XOR rotateRight e 25;
          choice = (e AND f) XOR (NOT e AND g);
          first = h + big1 + choice + ROUND_CONSTANTS ! index + schedule ! index;
          big0 = rotateRight a 2 XOR rotateRight a 13 XOR rotateRight a 22;
          majority = (a AND b) XOR (a AND c) XOR (b AND c);
          second = big0 + majority
      in [first + second, a, b, c, d + first, e, f, g])"
| "round_step schedule index other = other"

definition digest_block :: "32 word list \<Rightarrow> 32 word list \<times> 32 word list \<Rightarrow> nat \<Rightarrow> 32 word list \<times> 32 word list" where
  "digest_block bytes = (\<lambda>(schedule, state) offset.
     let schedule = fill_schedule bytes offset schedule;
         worked = foldl (\<lambda>working index. round_step schedule index working) state [0..<64]
     in (schedule, map2 (+) state worked))"

fun hex_digit :: "nat \<Rightarrow> char" where
  "hex_digit n = ''0123456789abcdef'' ! n"

function hex_text :: "nat \<Rightarrow> string" where
  "hex_text n = (if n < 16 then [hex_digit n] else hex_text (n div 16) @ [hex_digit (n mod 16)])"
  by auto
termination by (relation "measure id") auto

declare hex_text.simps [simp del]

definition padStart :: "nat \<Rightarrow> char \<Rightarrow> string \<Rightarrow> string" where
  "padStart width c s = replicate (width - length s) c @ s"

definition sha256_state :: "32 word list \<Rightarrow> 32 word list" where
  "sha256_state bytes =
     snd (foldl (digest_block bytes) (replicate 64 0, INITIAL_STATE)
       (map (\<lambda>block. block * 64) [0..<(length bytes + 63) div 64]))"

definition sha256Hex :: "nat list \<Rightarrow> string" where
  "sha256Hex text =
     concat (map (\<lambda>word. padStart 8 CHR ''0'' (hex_text (unat word))) (sha256_state (padded_bytes (utf8Bytes text))))"

subsection \<open>The standard\<close>

text \<open>
  FIPS 180-4 for messages of bits: the constants from the first primes, the padding, the message
  schedule and the compression.
\<close>

definition is_prime :: "nat \<Rightarrow> bool" where
  "is_prime p \<longleftrightarrow> 2 \<le> p \<and> (\<forall>d \<in> set [2..<p]. p mod d \<noteq> 0)"

definition first_primes :: "nat \<Rightarrow> nat list" where
  "first_primes n = take n (filter is_prime [2..<312])"

text \<open>The first 32 bits of the fractional part of a root.\<close>

definition root_fraction :: "nat \<Rightarrow> nat \<Rightarrow> 32 word" where
  "root_fraction k p = of_nat (Max {n. n ^ k \<le> p * 2 ^ (32 * k)})"

definition fips_K :: "nat \<Rightarrow> 32 word" where
  "fips_K t = root_fraction 3 (first_primes 64 ! t)"

definition fips_H0 :: "32 word list" where
  "fips_H0 = map (root_fraction 2) (first_primes 8)"

definition Ch :: "32 word \<Rightarrow> 32 word \<Rightarrow> 32 word \<Rightarrow> 32 word" where
  "Ch x y z = (x AND y) XOR (NOT x AND z)"

definition Maj :: "32 word \<Rightarrow> 32 word \<Rightarrow> 32 word \<Rightarrow> 32 word" where
  "Maj x y z = (x AND y) XOR (x AND z) XOR (y AND z)"

definition Sigma0 :: "32 word \<Rightarrow> 32 word" where
  "Sigma0 x = word_rotr 2 x XOR word_rotr 13 x XOR word_rotr 22 x"

definition Sigma1 :: "32 word \<Rightarrow> 32 word" where
  "Sigma1 x = word_rotr 6 x XOR word_rotr 11 x XOR word_rotr 25 x"

definition sigma0 :: "32 word \<Rightarrow> 32 word" where
  "sigma0 x = word_rotr 7 x XOR word_rotr 18 x XOR drop_bit 3 x"

definition sigma1 :: "32 word \<Rightarrow> 32 word" where
  "sigma1 x = word_rotr 17 x XOR word_rotr 19 x XOR drop_bit 10 x"

fun fips_W :: "(nat \<Rightarrow> 32 word) \<Rightarrow> nat \<Rightarrow> 32 word" where
  "fips_W M t =
     (if t < 16 then M t
      else sigma1 (fips_W M (t - 2)) + fips_W M (t - 7) + sigma0 (fips_W M (t - 15)) + fips_W M (t - 16))"

declare fips_W.simps [simp del]

fun fips_round :: "(nat \<Rightarrow> 32 word) \<Rightarrow> 32 word list \<Rightarrow> nat \<Rightarrow> 32 word list" where
  "fips_round W [a, b, c, d, e, f, g, h] t =
     (let T1 = h + Sigma1 e + Ch e f g + fips_K t + W t;
          T2 = Sigma0 a + Maj a b c
      in [T1 + T2, a, b, c, d + T1, e, f, g])"
| "fips_round W other t = other"

definition fips_compress :: "32 word list \<Rightarrow> (nat \<Rightarrow> 32 word) \<Rightarrow> 32 word list" where
  "fips_compress H M = map2 (+) H (foldl (fips_round (fips_W M)) H [0..<64])"

text \<open>Bits, most significant first.\<close>

definition bits_of :: "nat \<Rightarrow> nat \<Rightarrow> bool list" where
  "bits_of width n = map (\<lambda>i. odd (n div 2 ^ i)) (rev [0..<width])"

definition word_of_bits :: "bool list \<Rightarrow> 32 word" where
  "word_of_bits bits = foldl (\<lambda>w b. 2 * w + of_bool b) 0 bits"

definition fips_pad :: "bool list \<Rightarrow> bool list" where
  "fips_pad bits =
     bits @ [True] @ replicate (LEAST k. (length bits + 1 + k) mod 512 = 448) False @ bits_of 64 (length bits)"

definition fips_sha256 :: "bool list \<Rightarrow> 32 word list" where
  "fips_sha256 bits =
     (let padded = fips_pad bits
      in foldl (\<lambda>H i. fips_compress H (\<lambda>t. word_of_bits (take 32 (drop (512 * i + 32 * t) padded))))
           fips_H0 [0..<length padded div 512])"

definition fips_hex :: "32 word \<Rightarrow> string" where
  "fips_hex word = map (\<lambda>i. hex_digit (unat word div 16 ^ i mod 16)) (rev [0..<8])"

subsection \<open>Constants and operations\<close>

definition PRIMES :: "nat list" where
  "PRIMES =
    [2, 3, 5, 7, 11, 13, 17, 19, 23, 29, 31, 37, 41, 43, 47, 53, 59, 61, 67, 71, 73, 79, 83, 89, 97, 101, 103, 107, 109, 113, 127, 131, 137, 139, 149, 151, 157, 163, 167, 173, 179, 181, 191, 193, 197, 199, 211, 223, 227, 229, 233, 239, 241, 251, 257, 263, 269, 271, 277, 281, 283, 293, 307, 311]"

definition CUBE_ROOTS :: "nat list" where
  "CUBE_ROOTS =
    [0x1428a2f98, 0x171374491, 0x1b5c0fbcf, 0x1e9b5dba5, 0x23956c25b, 0x259f111f1,
     0x2923f82a4, 0x2ab1c5ed5, 0x2d807aa98, 0x312835b01, 0x3243185be, 0x3550c7dc3,
     0x372be5d74, 0x380deb1fe, 0x39bdc06a7, 0x3c19bf174, 0x3e49b69c1, 0x3efbe4786,
     0x40fc19dc6, 0x4240ca1cc, 0x42de92c6f, 0x44a7484aa, 0x45cb0a9dc, 0x476f988da,
     0x4983e5152, 0x4a831c66d, 0x4b00327c8, 0x4bf597fc7, 0x4c6e00bf3, 0x4d5a79147,
     0x506ca6351, 0x514292967, 0x527b70a85, 0x52e1b2138, 0x54d2c6dfc, 0x553380d13,
     0x5650a7354, 0x5766a0abb, 0x581c2c92e, 0x592722c85, 0x5a2bfe8a1, 0x5a81a664b,
     0x5c24b8b70, 0x5c76c51a3, 0x5d192e819, 0x5d6990624, 0x5f40e3585, 0x6106aa070,
     0x619a4c116, 0x61e376c08, 0x62748774c, 0x634b0bcb5, 0x6391c0cb3, 0x64ed8aa4a,
     0x65b9cca4f, 0x6682e6ff3, 0x6748f82ee, 0x678a5636f, 0x684c87814, 0x68cc70208,
     0x690befffa, 0x6a4506ceb, 0x6bef9a3f7, 0x6c67178f2]"

definition SQUARE_ROOTS :: "nat list" where
  "SQUARE_ROOTS = [0x16a09e667, 0x1bb67ae85, 0x23c6ef372, 0x2a54ff53a, 0x3510e527f, 0x39b05688c, 0x41f83d9ab, 0x45be0cd19]"

lemma small_divisor:
  assumes "2 \<le> d" "d < (19 :: nat)"
  obtains q where "q \<in> {2, 3, 5, 7, 11, 13, 17}" "q dvd d"
proof -
  have "d \<in> {2, 3, 4, 5, 6, 7, 8, 9, 10, 11, 12, 13, 14, 15, 16, 17, 18}" using assms by simp presburger
  then have "2 dvd d \<or> 3 dvd d \<or> 5 dvd d \<or> 7 dvd d \<or> 11 dvd d \<or> 13 dvd d \<or> 17 dvd d" by auto
  then show ?thesis using that by blast
qed

lemma is_prime_small:
  assumes "2 \<le> p" "p < 361"
  shows "is_prime p \<longleftrightarrow> (\<forall>q \<in> {2, 3, 5, 7, 11, 13, 17}. p mod q = 0 \<longrightarrow> p = q)"
proof
  assume prime: "is_prime p"
  show "\<forall>q \<in> {2, 3, 5, 7, 11, 13, 17}. p mod q = 0 \<longrightarrow> p = q"
  proof (intro ballI impI)
    fix q assume q: "q \<in> {2, 3, 5, 7, 11, 13, 17 :: nat}" "p mod q = 0"
    then have "2 \<le> q" "q \<le> p" using assms(1) by (auto intro: dvd_imp_le)
    moreover have "q < p \<Longrightarrow> p mod q \<noteq> 0" using prime \<open>2 \<le> q\<close> by (simp add: is_prime_def)
    ultimately show "p = q" using q(2) by (metis le_neq_implies_less)
  qed
next
  assume small: "\<forall>q \<in> {2, 3, 5, 7, 11, 13, 17}. p mod q = 0 \<longrightarrow> p = q"
  have "p mod d \<noteq> 0" if d: "2 \<le> d" "d < p" for d
  proof
    assume "p mod d = 0"
    then obtain e where e: "p = d * e" by auto
    have "2 \<le> e" using e d assms(1) by (cases e; cases "e = 1") auto
    have "d < 19 \<or> e < 19"
    proof (rule ccontr)
      assume "\<not> (d < 19 \<or> e < 19)"
      then have "19 * 19 \<le> d * e" by (intro mult_le_mono) simp_all
      then show False using e assms(2) by simp
    qed
    then obtain f where f: "2 \<le> f" "f < 19" "f dvd p" "f < p"
    proof (elim disjE)
      assume "d < 19"
      then show thesis using that [of d] d e by simp
    next
      assume "e < 19"
      moreover have "e < p" using e d \<open>2 \<le> e\<close> by simp
      ultimately show thesis using that [of e] e \<open>2 \<le> e\<close> by simp
    qed
    obtain q where q: "q \<in> {2, 3, 5, 7, 11, 13, 17}" "q dvd f" by (rule small_divisor [OF f(1,2)])
    then have "q dvd p" "q \<le> f" using f dvd_trans by (auto intro: dvd_imp_le)
    then have "p = q" using small q(1) by (simp only: dvd_eq_mod_eq_0)
    then show False using \<open>q \<le> f\<close> f(4) by simp
  qed
  then show "is_prime p" using assms(1) by (auto simp: is_prime_def)
qed

definition sieve :: "nat \<Rightarrow> bool" where
  "sieve p \<longleftrightarrow> (\<forall>q \<in> {2, 3, 5, 7, 11, 13, 17}. p mod q = 0 \<longrightarrow> p = q)"

lemma sieved_primes: "filter sieve [2..<312] = PRIMES"
proof -
  have "filter sieve [2..<64] = [2, 3, 5, 7, 11, 13, 17, 19, 23, 29, 31, 37, 41, 43, 47, 53, 59, 61]"
    by (simp add: sieve_def)
  moreover have "filter sieve [64..<126] = [67, 71, 73, 79, 83, 89, 97, 101, 103, 107, 109, 113]"
    by (simp add: sieve_def)
  moreover have "filter sieve [126..<188] = [127, 131, 137, 139, 149, 151, 157, 163, 167, 173, 179, 181]"
    by (simp add: sieve_def)
  moreover have "filter sieve [188..<250] = [191, 193, 197, 199, 211, 223, 227, 229, 233, 239, 241]"
    by (simp add: sieve_def)
  moreover have "filter sieve [250..<312] = [251, 257, 263, 269, 271, 277, 281, 283, 293, 307, 311]"
    by (simp add: sieve_def)
  moreover have "[2..<312] = [2..<64] @ [64..<126] @ [126..<188] @ [188..<250] @ [250..<312]"
    using upt_add_eq_append [of 2 64 248] upt_add_eq_append [of 64 126 186] upt_add_eq_append [of 126 188 124]
      upt_add_eq_append [of 188 250 62] by simp
  ultimately show ?thesis by (simp only: filter_append PRIMES_def append.simps)
qed

lemma first_primes_64: "first_primes 64 = PRIMES"
proof -
  have same: "filter is_prime [2..<312] = filter sieve [2..<312]"
  proof (rule filter_cong [OF refl])
    fix p :: nat assume "p \<in> set [2..<312]"
    then have "2 \<le> p" "p < 312" unfolding set_upt atLeastLessThan_iff by blast+
    then show "is_prime p = sieve p" by (simp add: is_prime_small sieve_def)
  qed
  show ?thesis unfolding first_primes_def same sieved_primes PRIMES_def by simp
qed

lemma first_primes_8: "first_primes 8 = take 8 PRIMES"
proof -
  have shorter: "take 8 (take 64 xs) = take 8 xs" for xs :: "nat list" by simp
  have "first_primes 8 = take 8 (first_primes 64)" unfolding first_primes_def shorter ..
  then show ?thesis by (simp only: first_primes_64)
qed

lemma root_fraction_eq:
  assumes "n ^ k \<le> p * 2 ^ (32 * k)" "p * 2 ^ (32 * k) < (n + 1) ^ k"
  shows "root_fraction k p = of_nat n"
proof -
  have upper: "m \<le> n" if "m ^ k \<le> p * 2 ^ (32 * k)" for m
  proof (rule ccontr)
    assume "\<not> m \<le> n"
    then have "(n + 1) ^ k \<le> m ^ k" by (intro power_mono) simp_all
    then show False using that assms(2) by simp
  qed
  have "{n. n ^ k \<le> p * 2 ^ (32 * k)} \<subseteq> {..n}" using upper by auto
  then have "finite {n. n ^ k \<le> p * 2 ^ (32 * k)}" using finite_subset by blast
  then have "Max {n. n ^ k \<le> p * 2 ^ (32 * k)} = n"
    using assms(1) upper by (intro Max_eqI) auto
  then show ?thesis by (simp add: root_fraction_def)
qed

lemma cube_roots: "list_all (\<lambda>(n, p). n ^ 3 \<le> p * 2 ^ 96 \<and> p * 2 ^ 96 < (n + 1) ^ 3) (zip CUBE_ROOTS PRIMES)"
  by (simp add: CUBE_ROOTS_def PRIMES_def)

lemma square_roots: "list_all (\<lambda>(n, p). n ^ 2 \<le> p * 2 ^ 64 \<and> p * 2 ^ 64 < (n + 1) ^ 2) (zip SQUARE_ROOTS (take 8 PRIMES))"
  by (simp add: SQUARE_ROOTS_def PRIMES_def)

lemma root_words: "map of_nat CUBE_ROOTS = ROUND_CONSTANTS" "map of_nat SQUARE_ROOTS = INITIAL_STATE"
  by (simp_all add: CUBE_ROOTS_def ROUND_CONSTANTS_def SQUARE_ROOTS_def INITIAL_STATE_def)

lemma root_lengths: "length PRIMES = 64" "length CUBE_ROOTS = 64" "length SQUARE_ROOTS = 8"
  by (simp_all add: PRIMES_def CUBE_ROOTS_def SQUARE_ROOTS_def)

lemma round_constants: "t < 64 \<Longrightarrow> ROUND_CONSTANTS ! t = fips_K t"
proof -
  assume t: "t < 64"
  then have "(CUBE_ROOTS ! t) ^ 3 \<le> PRIMES ! t * 2 ^ (32 * 3) \<and> PRIMES ! t * 2 ^ (32 * 3) < (CUBE_ROOTS ! t + 1) ^ 3"
    using cube_roots by (simp add: list_all_length root_lengths)
  then have "root_fraction 3 (PRIMES ! t) = of_nat (CUBE_ROOTS ! t)" by (intro root_fraction_eq) simp_all
  also have "\<dots> = ROUND_CONSTANTS ! t" using t by (simp add: root_words(1) [symmetric] root_lengths)
  finally show ?thesis by (simp add: fips_K_def first_primes_64)
qed

lemma initial_state: "INITIAL_STATE = fips_H0"
proof (rule nth_equalityI)
  show "length INITIAL_STATE = length fips_H0"
    by (simp add: fips_H0_def first_primes_8 root_lengths INITIAL_STATE_def)
  fix t assume "t < length INITIAL_STATE"
  then have t: "t < 8" by (simp add: INITIAL_STATE_def)
  then have "(SQUARE_ROOTS ! t) ^ 2 \<le> PRIMES ! t * 2 ^ (32 * 2) \<and> PRIMES ! t * 2 ^ (32 * 2) < (SQUARE_ROOTS ! t + 1) ^ 2"
    using square_roots by (simp add: list_all_length root_lengths)
  then have "root_fraction 2 (PRIMES ! t) = of_nat (SQUARE_ROOTS ! t)" by (intro root_fraction_eq) simp_all
  then show "INITIAL_STATE ! t = fips_H0 ! t"
    using t by (simp add: fips_H0_def first_primes_8 root_words(2) [symmetric] root_lengths)
qed

lemma rotateRight_rotr: "0 < n \<Longrightarrow> n < 32 \<Longrightarrow> rotateRight w n = word_rotr n w"
proof (rule bit_word_eqI)
  fix i assume n: "0 < n" "n < 32" and i: "i < LENGTH(32)"
  show "bit (rotateRight w n) i = bit (word_rotr n w) i"
  proof (cases "i + n < 32")
    case True
    then show ?thesis using i n by (auto simp: rotateRight_def bit_simps add.commute)
  next
    case False
    then have "(i + n) mod 32 = i - (32 - n)" using i n by (simp add: mod_if)
    moreover have "\<not> bit w (n + i)" using False bit_imp_le_length [of w "n + i"] by auto
    ultimately show ?thesis using i n False by (auto simp: rotateRight_def bit_simps)
  qed
qed

subsection \<open>Bits and bytes\<close>

abbreviation is_byte :: "32 word \<Rightarrow> bool" where
  "is_byte b \<equiv> unat b < 256"

definition byte_bits :: "32 word list \<Rightarrow> bool list" where
  "byte_bits bytes = concat (map (\<lambda>b. bits_of 8 (unat b)) bytes)"

lemma length_bits_of [simp]: "length (bits_of w n) = w" by (simp add: bits_of_def)

lemma byte_bits_simps [simp]:
  "byte_bits [] = []" "byte_bits (b # bs) = bits_of 8 (unat b) @ byte_bits bs"
  "byte_bits (xs @ ys) = byte_bits xs @ byte_bits ys" "length (byte_bits bytes) = 8 * length bytes"
  by (simp_all add: byte_bits_def) (induction bytes; simp)

lemma bits_of_split: "bits_of (a + b) n = bits_of a (n div 2 ^ b) @ bits_of b n"
proof -
  have "map (\<lambda>i. odd (n div 2 ^ i)) (rev [b..<a + b]) = map (\<lambda>i. odd (n div 2 ^ b div 2 ^ i)) (rev [0..<a])"
  proof (rule nth_equalityI)
    fix i assume "i < length (map (\<lambda>i. odd (n div 2 ^ i)) (rev [b..<a + b]))"
    then have i: "i < a" by simp
    have "n div 2 ^ (a + b - Suc i) = n div 2 ^ b div 2 ^ (a - Suc i)"
      using i by (simp add: div_mult2_eq [symmetric] power_add [symmetric] add.commute)
    then show "map (\<lambda>i. odd (n div 2 ^ i)) (rev [b..<a + b]) ! i = map (\<lambda>i. odd (n div 2 ^ b div 2 ^ i)) (rev [0..<a]) ! i"
      using i by (simp add: rev_nth add.commute)
  qed simp
  moreover have "rev [0..<a + b] = rev [b..<a + b] @ rev [0..<b]"
    using upt_add_eq_append [of 0 b a] by (simp add: add.commute)
  ultimately show ?thesis by (simp add: bits_of_def)
qed

lemma bits_of_mod: "bits_of w (n mod 2 ^ w) = bits_of w n"
proof -
  have "odd (n mod 2 ^ w div 2 ^ i) = odd (n div 2 ^ i)" if "i < w" for i
    using that bit_take_bit_iff [of w n i] by (simp add: bit_iff_odd take_bit_eq_mod)
  then show ?thesis by (simp add: bits_of_def)
qed

lemma bits_of_0: "bits_of w 0 = replicate w False"
  by (simp add: bits_of_def map_replicate_const)

lemma horner_bits:
  fixes v :: "'a::comm_semiring_1"
  shows "foldl (\<lambda>w b. 2 * w + of_bool b) v ys = v * 2 ^ length ys + foldl (\<lambda>w b. 2 * w + of_bool b) 0 ys"
proof (induction ys arbitrary: v)
  case (Cons y ys)
  show ?case
    unfolding foldl_Cons Cons [of "2 * v + of_bool y"] Cons [of "2 * 0 + of_bool y"] by (simp add: algebra_simps)
qed simp

lemma word_of_bits_append: "word_of_bits (xs @ ys) = word_of_bits xs * 2 ^ length ys + word_of_bits ys"
  unfolding word_of_bits_def foldl_append by (rule horner_bits)

lemma word_of_bits_of: "word_of_bits (bits_of w n) = of_nat (n mod 2 ^ w)"
proof (induction w arbitrary: n)
  case 0
  then show ?case by (simp add: bits_of_def word_of_bits_def)
next
  case (Suc w)
  have "bits_of (Suc w) n = bits_of w (n div 2) @ [odd n]" using bits_of_split [of w 1 n] by (simp add: bits_of_def)
  then have "word_of_bits (bits_of (Suc w) n) = of_nat (n div 2 mod 2 ^ w) * 2 + of_bool (odd n)"
    using Suc by (simp add: word_of_bits_append) (simp add: word_of_bits_def)
  also have "\<dots> = of_nat (n div 2 mod 2 ^ w * 2 + of_bool (odd n))" by simp
  also have "n div 2 mod 2 ^ w * 2 + of_bool (odd n) = n mod 2 ^ Suc w"
    by (simp add: mod_mult2_eq odd_iff_mod_2_eq_one mult.commute)
  finally show ?case .
qed

lemma byte_word: "is_byte b \<Longrightarrow> word_of_bits (bits_of 8 (unat b)) = b"
  by (simp add: word_of_bits_of)

lemma byte_bit:
  assumes "is_byte w" "8 \<le> i"
  shows "\<not> bit w i"
proof -
  have "(2 :: nat) ^ 8 \<le> 2 ^ i" using assms(2) by (rule power_increasing) simp
  then have "unat w < 2 ^ i" using assms(1) by simp
  then have "\<not> bit (unat w) i" by (simp add: bit_iff_odd)
  then show ?thesis by (simp add: bit_unsigned_iff)
qed

lemma or_parts:
  assumes "is_byte a" "is_byte b" "is_byte c" "is_byte d"
  shows "push_bit 24 a OR push_bit 16 b OR push_bit 8 c OR d = a * 2 ^ 24 + b * 2 ^ 16 + c * 2 ^ 8 + d"
proof -
  note small = byte_bit [OF assms(1)] byte_bit [OF assms(2)] byte_bit [OF assms(3)] byte_bit [OF assms(4)]
  have join: "x OR y = x + y" if "\<And>i. \<not> (bit x i \<and> bit y i)" for x y :: "32 word"
    by (rule disjunctive_add_eq_or [symmetric]) (rule bit_word_eqI, use that in \<open>auto simp: bit_simps\<close>)
  have "push_bit 8 c OR d = push_bit 8 c + d"
    by (rule join) (use small in \<open>auto simp: bit_simps not_le\<close>)
  moreover have "push_bit 16 b OR (push_bit 8 c OR d) = push_bit 16 b + (push_bit 8 c OR d)"
    by (rule join) (use small in \<open>force simp: bit_simps not_le\<close>)
  moreover have "push_bit 24 a OR (push_bit 16 b OR (push_bit 8 c OR d)) = push_bit 24 a + (push_bit 16 b OR (push_bit 8 c OR d))"
    by (rule join) (use small in \<open>force simp: bit_simps not_le\<close>)
  ultimately show ?thesis by (simp add: push_bit_eq_mult or.assoc add.assoc)
qed

lemma drop_byte_bits: "drop (8 * m) (byte_bits bs) = byte_bits (drop m bs)"
proof (induction bs arbitrary: m)
  case (Cons b bs)
  then show ?case by (cases m) simp_all
qed simp

lemma take_byte_bits: "take (8 * m) (byte_bits bs) = byte_bits (take m bs)"
proof (induction bs arbitrary: m)
  case (Cons b bs)
  then show ?case by (cases m) simp_all
qed simp

lemma four_bytes: "k + 3 < length bs \<Longrightarrow> take 4 (drop k bs) = [bs ! k, bs ! (k + 1), bs ! (k + 2), bs ! (k + 3)]"
  by (intro nth_equalityI) (auto simp: less_Suc_eq numeral_eq_Suc)

lemma message_words:
  assumes "list_all is_byte bs" "64 * i + 4 * t + 3 < length bs"
  shows "word_of_bits (take 32 (drop (512 * i + 32 * t) (byte_bits bs))) = message_word bs (i * 64) t"
proof -
  let ?k = "64 * i + 4 * t"
  have "take 32 (drop (512 * i + 32 * t) (byte_bits bs)) = byte_bits (take 4 (drop ?k bs))"
    using drop_byte_bits [of ?k bs] take_byte_bits [of 4 "drop ?k bs"] by simp
  also have "\<dots> = byte_bits [bs ! ?k, bs ! (?k + 1), bs ! (?k + 2), bs ! (?k + 3)]"
    by (simp only: four_bytes [OF assms(2)])
  finally have bits: "take 32 (drop (512 * i + 32 * t) (byte_bits bs)) = \<dots>" .
  have bytes: "is_byte (bs ! ?k)" "is_byte (bs ! (?k + 1))" "is_byte (bs ! (?k + 2))" "is_byte (bs ! (?k + 3))"
    using assms by (simp_all add: list_all_length)
  have "word_of_bits (byte_bits [bs ! ?k, bs ! (?k + 1), bs ! (?k + 2), bs ! (?k + 3)]) =
      bs ! ?k * 2 ^ 24 + bs ! (?k + 1) * 2 ^ 16 + bs ! (?k + 2) * 2 ^ 8 + bs ! (?k + 3)"
    by (simp only: byte_bits_simps word_of_bits_append byte_word [OF bytes(1)] byte_word [OF bytes(2)]
        byte_word [OF bytes(3)] byte_word [OF bytes(4)] length_append length_bits_of append_Nil2) simp
  moreover have "i * 64 + t * 4 = ?k" by simp
  ultimately show ?thesis unfolding bits message_word_def Let_def by (simp only: or_parts [OF bytes])
qed

subsection \<open>The encoding of a text\<close>

lemma or_nat: "x < 2 ^ k \<Longrightarrow> (d * 2 ^ k) OR x = d * 2 ^ k + x" for x :: nat
proof (rule disjunctive_add_eq_or [symmetric], rule bit_eqI)
  fix i assume x: "x < 2 ^ k"
  have "\<not> bit x i" if "k \<le> i"
  proof -
    have "x < 2 ^ i" using x that power_increasing [of k i "2 :: nat"] by linarith
    then show ?thesis by (simp add: bit_iff_odd)
  qed
  then show "bit (d * 2 ^ k AND x) i = bit (0 :: nat) i"
    by (auto simp: bit_simps push_bit_eq_mult [symmetric] not_le)
qed

lemma unat_parts:
  assumes "p < 2 ^ 32"
  shows "unat (of_nat p :: 32 word) = p" "unat (drop_bit k (of_nat p :: 32 word)) = p div 2 ^ k"
    and "unat (drop_bit k (of_nat p :: 32 word) AND 0x3f) = p div 2 ^ k mod 64"
proof -
  show one: "unat (of_nat p :: 32 word) = p" using assms by (simp add: unat_of_nat take_bit_eq_mod)
  have shifted: "unat (drop_bit n (of_nat p :: 32 word)) = p div 2 ^ n" for n
    unfolding unat_drop_bit_eq one by (rule drop_bit_eq_div)
  then show "unat (drop_bit k (of_nat p :: 32 word)) = p div 2 ^ k" .
  have "w AND 0x3f = take_bit 6 w" for w :: "32 word" by (simp add: take_bit_eq_mask mask_eq_exp_minus_1)
  then have "unat (drop_bit k (of_nat p :: 32 word) AND 0x3f) = take_bit 6 (p div 2 ^ k)"
    by (simp only: unsigned_take_bit_eq shifted)
  then show "unat (drop_bit k (of_nat p :: 32 word) AND 0x3f) = p div 2 ^ k mod 64" by (simp add: take_bit_eq_mod)
qed

text \<open>The bytes of a code point, and the decoder of RFC 3629 that reads them back.\<close>

definition point_numbers :: "nat \<Rightarrow> nat list" where
  "point_numbers p =
     (if p < 0x80 then [p]
      else if p < 0x800 then [192 + p div 64, 128 + p mod 64]
      else if p < 0x10000 then [224 + p div 4096, 128 + p div 64 mod 64, 128 + p mod 64]
      else [240 + p div 262144, 128 + p div 4096 mod 64, 128 + p div 64 mod 64, 128 + p mod 64])"

fun utf8_decode :: "nat list \<Rightarrow> nat list option" where
  "utf8_decode [] = Some []"
| "utf8_decode (b # bs) =
     (if b < 128 then map_option ((#) b) (utf8_decode bs)
      else if b < 224 then
        (case bs of c # rest \<Rightarrow> map_option ((#) ((b - 192) * 64 + (c - 128))) (utf8_decode rest) | _ \<Rightarrow> None)
      else if b < 240 then
        (case bs of c # d # rest \<Rightarrow>
           map_option ((#) ((b - 224) * 4096 + (c - 128) * 64 + (d - 128))) (utf8_decode rest) | _ \<Rightarrow> None)
      else
        (case bs of c # d # e # rest \<Rightarrow>
           map_option ((#) ((b - 240) * 262144 + (c - 128) * 4096 + (d - 128) * 64 + (e - 128))) (utf8_decode rest)
         | _ \<Rightarrow> None))"

lemma point_bytes_numbers:
  assumes "p < 0x110000"
  shows "map unat (point_bytes p) = point_numbers p"
proof -
  have p: "p < 2 ^ 32" using assms by simp
  note parts = unat_parts [OF p]
  have unshifted: "unat (of_nat p AND 0x3f :: 32 word) = p mod 64" using parts(3) [of 0] by simp
  have cont: "x < 64 \<Longrightarrow> 128 OR x = 128 + x" for x :: nat using or_nat [of x 6 2] by simp
  have "p < 0x800 \<Longrightarrow> p div 64 < 32" "p < 0x10000 \<Longrightarrow> p div 4096 < 16" "p div 262144 < 8" using assms by auto
  then have lead: "p < 0x800 \<Longrightarrow> 192 OR (p div 64) = 192 + p div 64"
    "p < 0x10000 \<Longrightarrow> 224 OR (p div 4096) = 224 + p div 4096" "240 OR (p div 262144) = 240 + p div 262144"
    using or_nat [of "p div 64" 5 6] or_nat [of "p div 4096" 4 14] or_nat [of "p div 262144" 3 30] by simp_all
  show ?thesis
    unfolding point_bytes_def point_numbers_def Let_def
    by (simp add: unsigned_or_eq parts unshifted cont lead del: drop_bit_of_nat)
qed

lemma point_numbers_byte: "p < 0x110000 \<Longrightarrow> list_all (\<lambda>n. n < 256) (point_numbers p)"
  by (auto simp: point_numbers_def)

lemma utf8_numbers:
  "list_all (\<lambda>p. p < 0x110000) points \<Longrightarrow> map unat (utf8Bytes points) = concat (map point_numbers points)"
  by (induction points) (simp_all add: utf8Bytes_def point_bytes_numbers)

lemma utf8_bytes: "list_all (\<lambda>p. p < 0x110000) points \<Longrightarrow> list_all is_byte (utf8Bytes points)"
proof -
  assume points: "list_all (\<lambda>p. p < 0x110000) points"
  then have "list_all (\<lambda>n. n < 256) (concat (map point_numbers points))"
    using point_numbers_byte by (induction points) auto
  then show ?thesis by (simp add: utf8_numbers [OF points, symmetric] list_all_iff)
qed

lemma decode_point: "p < 0x110000 \<Longrightarrow> utf8_decode (point_numbers p @ bs) = map_option ((#) p) (utf8_decode bs)"
proof -
  assume p: "p < 0x110000"
  have parts: "p = p div 64 * 64 + p mod 64" "p div 64 = p div 4096 * 64 + p div 64 mod 64"
    "p div 4096 = p div 262144 * 64 + p div 4096 mod 64"
    using div_mult_mod_eq [of "p div 64" 64] div_mult_mod_eq [of "p div 4096" 64] by (simp_all add: div_mult2_eq [symmetric])
  have "p div 64 * 64 + p mod 64 = p" by simp
  moreover have "p div 4096 * 4096 + p div 64 mod 64 * 64 + p mod 64 = p" using parts by linarith
  moreover have "p div 262144 * 262144 + p div 4096 mod 64 * 4096 + p div 64 mod 64 * 64 + p mod 64 = p"
    using parts by linarith
  moreover have "p < 0x800 \<Longrightarrow> p div 64 < 32" "p < 0x10000 \<Longrightarrow> p div 4096 < 16" "p div 262144 < 8" using p by auto
  ultimately show ?thesis by (auto simp: point_numbers_def)
qed

lemma utf8_roundtrip: "list_all (\<lambda>p. p < 0x110000) points \<Longrightarrow> utf8_decode (map unat (utf8Bytes points)) = Some points"
proof -
  assume points: "list_all (\<lambda>p. p < 0x110000) points"
  then have "utf8_decode (concat (map point_numbers points)) = Some points"
    by (induction points) (simp_all add: decode_point)
  then show ?thesis by (simp add: utf8_numbers [OF points])
qed

subsection \<open>Padding\<close>

definition zeros :: "nat \<Rightarrow> nat" where
  "zeros n = (if n mod 64 \<le> 56 then 56 - n mod 64 else 120 - n mod 64)"

lemma zeros_Suc: "n mod 64 \<noteq> 56 \<Longrightarrow> zeros n = Suc (zeros (Suc n))"
  by (auto simp: zeros_def mod_Suc)

lemma pad_zeros_eq: "pad_zeros bytes = bytes @ replicate (zeros (length bytes)) 0"
proof (induction bytes rule: pad_zeros.induct)
  case (1 bytes)
  show ?case
  proof (cases "length bytes mod 64 = 56")
    case True
    then show ?thesis by (simp add: pad_zeros.simps [of bytes] zeros_def)
  next
    case False
    then show ?thesis using 1 by (simp add: pad_zeros.simps [of bytes] zeros_Suc replicate_app_Cons_same)
  qed
qed

lemma zeros_fit: "(n + zeros n) mod 64 = 56"
proof -
  have "n mod 64 < 64" by simp
  then have "(n mod 64 + zeros n) mod 64 = 56" by (auto simp: zeros_def)
  then show ?thesis by (simp only: mod_add_left_eq)
qed

lemma zeros_least: "(n + k) mod 64 = 56 \<Longrightarrow> zeros n \<le> k"
proof (rule ccontr)
  assume "(n + k) mod 64 = 56" and less: "\<not> zeros n \<le> k"
  then have k: "(n mod 64 + k) mod 64 = 56" by (simp only: mod_add_left_eq)
  have r: "n mod 64 < 64" by simp
  have short: "x mod 64 = (if x < 64 then x else x - 64)" if "x < 128" for x :: nat using that by (simp add: mod_if)
  show False
  proof (cases "n mod 64 \<le> 56")
    case True
    then have "n mod 64 + k < 56" using less by (simp add: zeros_def)
    then show False using k short [of "n mod 64 + k"] by simp
  next
    case False
    then have "n mod 64 + k < 120" using less r by (simp add: zeros_def)
    then show False using k False short [of "n mod 64 + k"] by (simp split: if_splits)
  qed
qed

lemma least_padding: "(LEAST k. (8 * n + 1 + k) mod 512 = 448) = 7 + 8 * zeros (n + 1)"
proof (rule Least_equality)
  have "8 * ((n + 1 + zeros (n + 1)) mod 64) = 8 * (n + 1 + zeros (n + 1)) mod (8 * 64)" by (rule mult_mod_right)
  then show "(8 * n + 1 + (7 + 8 * zeros (n + 1))) mod 512 = 448"
    using zeros_fit [of "n + 1"] by simp
next
  fix k assume k: "(8 * n + 1 + k) mod 512 = 448"
  have "448 mod 8 = (8 * n + 1 + k) mod 8" using mod_mod_cancel [of 8 512 "8 * n + 1 + k"] unfolding k by simp
  also have "8 * n + 1 + k = 1 + k + 8 * n" by simp
  also have "(1 + k + 8 * n) mod 8 = (1 + k) mod 8" by (rule mod_mult_self2)
  finally have "(1 + k) mod 8 = 0" by simp
  then have "k mod 8 = 7" by presburger
  then obtain j where j: "k = 8 * j + 7"
    using mult_div_mod_eq [of 8 k, symmetric] by metis
  have "8 * ((n + 1 + j) mod 64) = (8 * n + 1 + k) mod 512" using mult_mod_right [of 8 "n + 1 + j" 64] by (simp add: j)
  then show "7 + 8 * zeros (n + 1) \<le> k" using k zeros_least [of "n + 1" j] by (simp add: j)
qed

lemma low_byte: "unat (w AND 0xff) = unat w mod 256" for w :: "32 word"
proof -
  have "w AND 0xff = take_bit 8 w" by (simp add: take_bit_eq_mask mask_eq_exp_minus_1)
  then have "unat (w AND 0xff) = take_bit 8 (unat w)" by (simp only: unsigned_take_bit_eq)
  then show ?thesis unfolding take_bit_eq_mod by simp
qed

lemma byte_bits_word: "byte_bits (word_bytes w) = bits_of 32 (unat w)"
proof -
  have byte: "bits_of 8 (unat (drop_bit k w AND 0xff)) = bits_of 8 (unat w div 2 ^ k)" for k
    unfolding low_byte unat_drop_bit_eq unfolding drop_bit_eq_div using bits_of_mod [of 8 "unat w div 2 ^ k"] by simp
  have "bits_of 32 (unat w) = bits_of 8 (unat w div 2 ^ 24) @ bits_of 8 (unat w div 2 ^ 16) @ bits_of 8 (unat w div 2 ^ 8) @ bits_of 8 (unat w)"
    using bits_of_split [of 24 8 "unat w"] bits_of_split [of 16 8 "unat w div 2 ^ 8"] bits_of_split [of 8 8 "unat w div 2 ^ 8 div 2 ^ 8"]
    by (simp add: div_mult2_eq [symmetric])
  then show ?thesis using byte [of 24] byte [of 16] byte [of 8] byte [of 0] by (simp add: word_bytes_def)
qed

lemma padded_bits:
  assumes "8 * length bytes < 2 ^ 64"
  shows "byte_bits (padded_bytes bytes) = fips_pad (byte_bits bytes)"
proof -
  let ?l = "8 * length bytes"
  have zero: "byte_bits (replicate k 0) = replicate (8 * k) False" for k
    by (induction k) (simp_all add: bits_of_0 replicate_add)
  have one: "bits_of 8 128 = True # replicate 7 False" by code_simp
  have "unat (of_nat (?l div 2 ^ 32) :: 32 word) = ?l div 2 ^ 32" "unat (of_nat (?l mod 2 ^ 32) :: 32 word) = ?l mod 2 ^ 32"
    using assms by (simp_all add: unat_of_nat take_bit_eq_mod less_mult_imp_div_less)
  then have size: "byte_bits (word_bytes (of_nat (?l div 2 ^ 32)) @ word_bytes (of_nat (?l mod 2 ^ 32))) = bits_of 64 ?l"
    using bits_of_split [of 32 32 ?l] bits_of_mod [of 32 ?l] by (simp add: byte_bits_word)
  have "byte_bits (padded_bytes bytes) = byte_bits bytes @ (True # replicate 7 False) @ replicate (8 * zeros (length bytes + 1)) False @ bits_of 64 ?l"
    unfolding padded_bytes_def Let_def size [symmetric] using one zero by (simp add: pad_zeros_eq mult.commute)
  then show ?thesis
    using least_padding [of "length bytes"] by (simp add: fips_pad_def replicate_add [symmetric] add.commute)
qed

lemma length_padded: "length (padded_bytes bytes) mod 64 = 0"
proof -
  have "(length bytes + 1 + zeros (length bytes + 1)) mod 64 = 56" by (rule zeros_fit)
  moreover have "m mod 64 = 56 \<Longrightarrow> (m + 8) mod 64 = 0" for m :: nat by presburger
  moreover have "length (padded_bytes bytes) = length bytes + 1 + zeros (length bytes + 1) + 8"
    by (simp add: padded_bytes_def Let_def pad_zeros_eq word_bytes_def)
  ultimately show ?thesis by (simp only:)
qed

subsection \<open>The hash computation\<close>

lemma fill_first:
  "length schedule = 64 \<Longrightarrow> n \<le> 64 \<Longrightarrow>
     length (foldl (\<lambda>s i. s[i := message_word bytes offset i]) schedule [0..<n]) = 64 \<and>
     (\<forall>i < n. foldl (\<lambda>s i. s[i := message_word bytes offset i]) schedule [0..<n] ! i = message_word bytes offset i)"
proof (induction n)
  case (Suc n)
  then show ?case by (auto simp: nth_list_update less_Suc_eq)
qed simp

lemma schedule_entry_W:
  assumes "16 \<le> n" "\<forall>i < n. schedule ! i = fips_W M i"
  shows "schedule_entry schedule n = fips_W M n"
proof -
  have "schedule ! (n - k) = fips_W M (n - k)" if "0 < k" "k \<le> 16" for k using assms that by simp
  then have "schedule ! (n - 2) = fips_W M (n - 2)" "schedule ! (n - 7) = fips_W M (n - 7)"
    "schedule ! (n - 15) = fips_W M (n - 15)" "schedule ! (n - 16) = fips_W M (n - 16)" by simp_all
  then show ?thesis using assms(1)
    by (simp add: schedule_entry_def Let_def fips_W.simps [of M n] sigma0_def sigma1_def rotateRight_rotr ac_simps)
qed

lemma fill_rest:
  assumes "length schedule = 64" "\<forall>i < 16. schedule ! i = M i"
  shows "16 + n \<le> 64 \<Longrightarrow>
    length (foldl (\<lambda>s i. s[i := schedule_entry s i]) schedule [16..<16 + n]) = 64 \<and>
    (\<forall>i < 16 + n. foldl (\<lambda>s i. s[i := schedule_entry s i]) schedule [16..<16 + n] ! i = fips_W M i)"
proof (induction n)
  case 0
  then show ?case using assms by (simp add: fips_W.simps)
next
  case (Suc n)
  then have "schedule_entry (foldl (\<lambda>s i. s[i := schedule_entry s i]) schedule [16..<16 + n]) (16 + n) = fips_W M (16 + n)"
    by (intro schedule_entry_W) auto
  moreover have "[16..<16 + Suc n] = [16..<16 + n] @ [16 + n]"
    unfolding add_Suc_right by (rule upt_Suc_append) simp
  ultimately show ?case using Suc by (simp only: foldl_append foldl.simps) (auto simp: nth_list_update less_Suc_eq)
qed

lemma fill_schedule_W:
  assumes "length schedule = 64"
  shows "length (fill_schedule bytes offset schedule) = 64"
    and "i < 64 \<Longrightarrow> fill_schedule bytes offset schedule ! i = fips_W (message_word bytes offset) i"
proof -
  let ?s = "foldl (\<lambda>s i. s[i := message_word bytes offset i]) schedule [0..<16]"
  have first: "length ?s = 64 \<and> (\<forall>i < 16. ?s ! i = message_word bytes offset i)"
    by (rule fill_first [OF assms]) simp
  have upper: "(16 :: nat) + 48 = 64" by simp
  note rest = fill_rest [OF conjunct1 [OF first] conjunct2 [OF first], of 48, unfolded upper, OF order_refl]
  show "length (fill_schedule bytes offset schedule) = 64"
    "i < 64 \<Longrightarrow> fill_schedule bytes offset schedule ! i = fips_W (message_word bytes offset) i"
    using rest unfolding fill_schedule_def by blast+
qed

lemma round_step_fips:
  assumes "schedule ! t = W t" "t < 64"
  shows "round_step schedule t working = fips_round W working t"
  using assms
  by (cases "(W, working, t)" rule: fips_round.cases)
    (simp_all add: Let_def Sigma0_def Sigma1_def Ch_def Maj_def rotateRight_rotr round_constants)

lemma digest_block_fips:
  assumes "length schedule = 64"
  shows "snd (digest_block bytes (schedule, state) offset) = fips_compress state (message_word bytes offset)"
    and "length (fst (digest_block bytes (schedule, state) offset)) = 64"
proof -
  let ?s = "fill_schedule bytes offset schedule"
  have "foldl (\<lambda>working index. round_step ?s index working) state [0..<64] =
      foldl (fips_round (fips_W (message_word bytes offset))) state [0..<64]"
    by (rule foldl_cong) (auto simp: round_step_fips fill_schedule_W(2) [OF assms])
  then show "snd (digest_block bytes (schedule, state) offset) = fips_compress state (message_word bytes offset)"
    by (simp add: digest_block_def Let_def fips_compress_def)
  show "length (fst (digest_block bytes (schedule, state) offset)) = 64"
    by (simp add: digest_block_def Let_def fill_schedule_W(1) [OF assms])
qed

lemma digest_blocks_fips:
  "length schedule = 64 \<Longrightarrow>
     snd (foldl (digest_block bytes) (schedule, state) (map (\<lambda>b. b * 64) blocks)) =
     foldl (\<lambda>H i. fips_compress H (message_word bytes (i * 64))) state blocks"
proof (induction blocks arbitrary: schedule state)
  case (Cons b blocks)
  obtain schedule' state' where "digest_block bytes (schedule, state) (b * 64) = (schedule', state')"
    by (cases "digest_block bytes (schedule, state) (b * 64)")
  then show ?case
    using Cons digest_block_fips [OF Cons.prems, of bytes state "b * 64"] by simp
qed simp

text \<open>Only the first 16 words of a block are read from the message.\<close>

lemma fips_W_cong: "\<forall>t < 16. M t = M' t \<Longrightarrow> fips_W M t = fips_W M' t"
proof (induction t rule: less_induct)
  case (less t)
  then show ?case by (simp add: fips_W.simps [of M t] fips_W.simps [of M' t])
qed

lemma fips_compress_cong: "\<forall>t < 16. M t = M' t \<Longrightarrow> fips_compress H M = fips_compress H M'"
  using fips_W_cong [of M M'] by (simp add: fips_compress_def ext [of "fips_W M" "fips_W M'"])

lemma hex_text_digits: "n < 16 ^ k \<Longrightarrow> 0 < k \<Longrightarrow>
    padStart k CHR ''0'' (hex_text n) = map (\<lambda>i. hex_digit (n div 16 ^ i mod 16)) (rev [0..<k])"
proof (induction k arbitrary: n)
  case (Suc k)
  have digits: "map (\<lambda>i. hex_digit (n div 16 ^ i mod 16)) (rev [0..<Suc k]) =
      map (\<lambda>i. hex_digit (n div 16 div 16 ^ i mod 16)) (rev [0..<k]) @ [hex_digit (n mod 16)]"
    by (simp only: upt_conv_Cons [of 0 "Suc k"] map_Suc_upt [symmetric] rev.simps rev_map map_append map_map comp_def
        power_Suc div_mult2_eq) simp
  show ?case
  proof (cases "n < 16")
    case True
    have "map (\<lambda>i. hex_digit (n div 16 div 16 ^ i mod 16)) (rev [0..<k]) = replicate k CHR ''0''"
      using True by (simp add: map_replicate_const)
    then show ?thesis unfolding digits using True by (simp add: hex_text.simps [of n] padStart_def)
  next
    case False
    then have "0 < k" using Suc.prems by (cases k) simp_all
    then have "padStart k CHR ''0'' (hex_text (n div 16)) = map (\<lambda>i. hex_digit (n div 16 div 16 ^ i mod 16)) (rev [0..<k])"
      using Suc.prems by (intro Suc.IH) (simp_all add: less_mult_imp_div_less mult.commute)
    then show ?thesis unfolding digits using False by (simp add: hex_text.simps [of n] padStart_def)
  qed
qed simp

lemma word_hex: "padStart 8 CHR ''0'' (hex_text (unat word)) = fips_hex word" for word :: "32 word"
proof -
  have "unat word < 2 ^ LENGTH(32)" by (rule unsigned_less)
  then have "unat word < 16 ^ 8" by simp
  then show ?thesis unfolding fips_hex_def by (rule hex_text_digits) simp
qed

lemma padded_is_byte: "list_all is_byte bytes \<Longrightarrow> list_all is_byte (padded_bytes bytes)"
  by (simp add: padded_bytes_def Let_def pad_zeros_eq word_bytes_def low_byte list_all_iff set_replicate_conv_if)

lemma sha256_state_fips:
  assumes "list_all is_byte bytes" "8 * length bytes < 2 ^ 64"
  shows "sha256_state (padded_bytes bytes) = fips_sha256 (byte_bits bytes)"
proof -
  let ?p = "padded_bytes bytes"
  have size: "length (fips_pad (byte_bits bytes)) = 8 * length ?p" using padded_bits [OF assms(2)] by (metis byte_bits_simps(4))
  have whole: "64 * (length ?p div 64) = length ?p" using length_padded [of bytes] by auto
  have blocks: "(length ?p + 63) div 64 = length ?p div 64" "8 * length ?p div 512 = length ?p div 64"
  proof -
    obtain q where "length ?p = 64 * q" using whole by metis
    then show "(length ?p + 63) div 64 = length ?p div 64" "8 * length ?p div 512 = length ?p div 64" by simp_all
  qed
  have step: "fips_compress H (message_word ?p (i * 64)) =
      fips_compress H (\<lambda>t. word_of_bits (take 32 (drop (512 * i + 32 * t) (fips_pad (byte_bits bytes)))))"
    if "i < length ?p div 64" for H i
  proof (rule fips_compress_cong, intro allI impI)
    fix t :: nat assume t: "t < 16"
    have "64 * (i + 1) \<le> 64 * (length ?p div 64)" using that by simp
    then have "64 * i + 4 * t + 3 < length ?p" using t unfolding whole by simp
    from message_words [OF padded_is_byte [OF assms(1)] this]
    show "message_word ?p (i * 64) t = word_of_bits (take 32 (drop (512 * i + 32 * t) (fips_pad (byte_bits bytes))))"
      by (simp add: padded_bits [OF assms(2)])
  qed
  have "sha256_state ?p = foldl (\<lambda>H i. fips_compress H (message_word ?p (i * 64))) INITIAL_STATE [0..<length ?p div 64]"
    unfolding sha256_state_def blocks(1) by (rule digest_blocks_fips) simp
  also have "\<dots> = fips_sha256 (byte_bits bytes)"
    unfolding fips_sha256_def Let_def size blocks(2) initial_state by (rule foldl_cong) (simp_all add: step)
  finally show ?thesis .
qed

text \<open>
  C12. The digest is SHA-256: for every text of Unicode code points whose encoding is shorter than
  \<open>2 ^ 61\<close> bytes, the code prints the hash FIPS 180-4 defines for the bits of the UTF-8 encoding, with the
  round constants and the initial value derived from the roots of the first primes, and that encoding
  determines the text.
\<close>

theorem sha256Hex_is_fips:
  assumes "list_all (\<lambda>point. point < 0x110000) points" "length (utf8Bytes points) < 2 ^ 61"
  shows "sha256Hex points = concat (map fips_hex (fips_sha256 (byte_bits (utf8Bytes points)))) \<and>
    utf8_decode (map unat (utf8Bytes points)) = Some points"
proof -
  have "8 * length (utf8Bytes points) < 2 ^ 64" using assms(2) by simp
  then have "sha256_state (padded_bytes (utf8Bytes points)) = fips_sha256 (byte_bits (utf8Bytes points))"
    by (rule sha256_state_fips [OF utf8_bytes [OF assms(1)]])
  then show ?thesis using utf8_roundtrip [OF assms(1)] by (simp add: sha256Hex_def word_hex)
qed

theorem sha256Hex_is_fips_witness:
  "sha256Hex [0x61, 0x20AC] = concat (map fips_hex (fips_sha256 (byte_bits [0x61, 0xE2, 0x82, 0xAC]))) \<and>
   utf8_decode [0x61, 0xE2, 0x82, 0xAC] = Some [0x61, 0x20AC]"
proof -
  have "utf8Bytes [0x61, 0x20AC] = [0x61, 0xE2, 0x82, 0xAC]" by (simp add: utf8Bytes_def point_bytes_def)
  then show ?thesis using sha256Hex_is_fips [of "[0x61, 0x20AC]"] by simp
qed

end
