(* ===== verification/JsText.thy ===== *)
theory JsText
  imports JsStrings Money
begin

section \<open>Numbers and JSON as text\<close>

text \<open>
  The text JavaScript prints for a number (\<open>Number::toString\<close> of ECMAScript, in base ten) and
  \<open>JSON.stringify\<close> on the values the source serializes: null, numbers, strings and arrays. Printed
  numbers read back, and a serialized value is determined by its text.
\<close>

subsection \<open>The shortest decimal that reads back\<close>

text \<open>
  The decimals of \<open>k\<close> digits around a positive number, as digits and exponent of their last digit; the
  closer one that reads back, the even one on a tie.
\<close>

definition shortest_at :: "nat \<Rightarrow> rat \<Rightarrow> (int \<times> int) option" where
  "shortest_at k x =
     (let e = decade x + 1 - int k;
          u = 10 powi e;
          low = \<lfloor>x / u\<rfloor>;
          reads_back = (\<lambda>c. binary64 (of_int c * u) = Fin x);
          d = x / u - of_int low
      in if reads_back low \<and> reads_back (low + 1)
         then Some (if d < 1 / 2 \<or> d = 1 / 2 \<and> even low then low else low + 1, e)
         else if reads_back low then Some (low, e)
         else if reads_back (low + 1) then Some (low + 1, e)
         else None)"

fun shortest_from :: "nat \<Rightarrow> nat \<Rightarrow> rat \<Rightarrow> (int \<times> int) option" where
  "shortest_from 0 k x = None"
| "shortest_from (Suc fuel) k x =
     (case shortest_at k x of Some r \<Rightarrow> Some r | None \<Rightarrow> shortest_from fuel (k + 1) x)"

definition SHORTEST_FUEL :: nat where "SHORTEST_FUEL = 1500"

function strip_zeros :: "int \<Rightarrow> int \<Rightarrow> int \<times> int" where
  "strip_zeros s e = (if 0 < s \<and> s mod 10 = 0 then strip_zeros (s div 10) (e + 1) else (s, e))"
  by auto
termination by (relation "measure (\<lambda>(s, e). nat s)") auto

declare strip_zeros.simps [simp del]

definition format_digits :: "string \<Rightarrow> int \<Rightarrow> string" where
  "format_digits ds n =
     (let k = int (length ds) in
      if k \<le> n \<and> n \<le> 21 then ds @ replicate (nat (n - k)) CHR ''0''
      else if 0 < n \<and> n \<le> 21 then take (nat n) ds @ CHR ''.'' # drop (nat n) ds
      else if - 6 < n \<and> n \<le> 0 then ''0.'' @ replicate (nat (- n)) CHR ''0'' @ ds
      else (if k = 1 then ds else hd ds # CHR ''.'' # tl ds) @
        CHR ''e'' # (if n - 1 < 0 then CHR ''-'' else CHR ''+'') # string_of_nat (nat \<bar>n - 1\<bar>))"

definition positive_text :: "rat \<Rightarrow> string" where
  "positive_text x =
     (case shortest_from SHORTEST_FUEL 1 x of
        None \<Rightarrow> []
      | Some (s, e) \<Rightarrow>
          let (s', e') = strip_zeros s e; ds = string_of_nat (nat s')
          in format_digits ds (e' + int (length ds)))"

fun js_number_text :: "jsnum \<Rightarrow> string" where
  "js_number_text (Fin x) =
     (if x = 0 then ''0'' else if x < 0 then CHR ''-'' # positive_text (- x) else positive_text x)"
| "js_number_text PosInf = ''Infinity''"
| "js_number_text NegInf = ''-Infinity''"
| "js_number_text NotANumber = ''NaN''"

subsection \<open>JSON\<close>

datatype json = JNull | JNumber jsnum | JString string | JArray "json list"

definition BACKSLASH :: char where "BACKSLASH = CHR 0x5C"

definition hex_char :: "nat \<Rightarrow> char" where
  "hex_char n = ''0123456789abcdef'' ! n"

definition quote_char :: "char \<Rightarrow> string" where
  "quote_char c =
     (let n = of_char c :: nat in
      if n = 8 then [BACKSLASH, CHR ''b'']
      else if n = 9 then [BACKSLASH, CHR ''t'']
      else if n = 10 then [BACKSLASH, CHR ''n'']
      else if n = 12 then [BACKSLASH, CHR ''f'']
      else if n = 13 then [BACKSLASH, CHR ''r'']
      else if c = CHR 0x22 \<or> c = BACKSLASH then [BACKSLASH, c]
      else if n < 32 then [BACKSLASH, CHR ''u'', CHR ''0'', CHR ''0'', hex_char (n div 16), hex_char (n mod 16)]
      else [c])"

definition quote_text :: "string \<Rightarrow> string" where
  "quote_text s = CHR 0x22 # concat (map quote_char s) @ [CHR 0x22]"

fun JSON_stringify :: "json \<Rightarrow> string" where
  "JSON_stringify JNull = ''null''"
| "JSON_stringify (JNumber n) = (if isFinite n then js_number_text n else ''null'')"
| "JSON_stringify (JString s) = quote_text s"
| "JSON_stringify (JArray vs) = CHR ''['' # js_join (CHR '','') (map JSON_stringify vs) @ '']''"

lemma number_text_examples:
  "js_number_text (Fin 20) = ''20''" "js_number_text (binary64 (1 / 10)) = ''0.1''"
  "js_number_text (binary64 (10 ^ 23)) = ''1e+23''" "js_number_text (binary64 (- 5 / 10 ^ 7)) = ''-5e-7''"
  by code_simp+

subsection \<open>Printed numbers read back\<close>

abbreviation representable :: "rat \<Rightarrow> bool" where
  "representable x \<equiv> binary64 x = Fin x"

lemma shortest_at_reads_back:
  assumes "shortest_at k x = Some (s, e)" "0 < x"
  shows "binary64 (of_int s * 10 powi e) = Fin x \<and> 0 \<le> s"
proof -
  have "0 \<le> \<lfloor>x / 10 powi (decade x + 1 - int k)\<rfloor>" using assms(2) by simp
  then show ?thesis using assms(1) by (auto simp: shortest_at_def Let_def split: if_splits)
qed

lemma shortest_from_reads_back:
  "shortest_from fuel k x = Some (s, e) \<Longrightarrow> 0 < x \<Longrightarrow> binary64 (of_int s * 10 powi e) = Fin x \<and> 0 \<le> s"
  by (induction fuel k x rule: shortest_from.induct) (auto split: option.splits dest: shortest_at_reads_back)

lemma shortest_from_found:
  "k \<le> j \<Longrightarrow> j < k + fuel \<Longrightarrow> shortest_at j x \<noteq> None \<Longrightarrow> shortest_from fuel k x \<noteq> None"
proof (induction fuel k x rule: shortest_from.induct)
  case (2 fuel k x)
  show ?case
  proof (cases "shortest_at k x")
    case None
    then have "k \<noteq> j" using 2(4) by auto
    then show ?thesis using None 2 by simp
  qed simp
qed simp

text \<open>A double is a whole number of units \<open>2 ^ - 1074\<close>, hence of \<open>10 ^ - 1074\<close>.\<close>

lemma powi_2_10: "(2 :: rat) powi (- int n) = 5 ^ n * 10 powi (- int n)"
proof -
  have "(10 :: rat) ^ n = 2 ^ n * 5 ^ n" by (simp flip: power_mult_distrib)
  then show ?thesis by (simp add: power_int_minus powi10_minus field_simps)
qed

lemma representable_units:
  assumes "representable x"
  obtains m where "x = of_int m * 10 powi (- 1074)"
proof (cases "x = 0")
  case True
  show ?thesis by (rule that [of 0]) (simp only: True of_int_0 mult_zero_left)
next
  case False
  then have "round_at (binary64_exponent x) x = x"
    using assms by (simp add: binary64_def Let_def split: if_splits)
  then obtain j where j: "x = of_int j * 2 powi (binary64_exponent x)" unfolding round_at_def by metis
  define d where "d = nat (binary64_exponent x + 1074)"
  have "binary64_exponent x = int d + - int 1074" unfolding d_def binary64_exponent_def by linarith
  then have "(2 :: rat) powi (binary64_exponent x) = 2 ^ d * 2 powi (- int 1074)"
    by (simp only: powi_add_2 power_int_of_nat)
  also have "\<dots> = 2 ^ d * (5 ^ 1074 * 10 powi (- int 1074))" by (simp only: powi_2_10)
  finally have "x = of_int j * (2 ^ d * (5 ^ 1074 * 10 powi (- int 1074)))" using j by (simp only:)
  also have "\<dots> = of_int (j * 2 ^ d * 5 ^ 1074) * 10 powi (- int 1074)"
    unfolding of_int_mult of_int_power of_int_numeral by (simp only: mult.assoc)
  finally show ?thesis using that [of "j * 2 ^ d * 5 ^ 1074"] by (simp only: of_nat_numeral)
qed

lemma representable_bounds:
  assumes "representable x" "0 < x"
  shows "10 powi (- 1074) \<le> x" "x < 10 powi 400"
proof -
  define u :: rat where "u = 10 powi (- 1074)"
  have u: "0 < u" unfolding u_def by (rule powi10_pos)
  obtain m where m: "x = of_int m * u" unfolding u_def by (rule representable_units [OF assms(1)])
  then have "0 < m" using assms(2) u by (simp add: zero_less_mult_iff)
  then have "(1 :: rat) \<le> of_int m" by simp
  then have "1 * u \<le> of_int m * u" using u by (intro mult_right_mono) simp_all
  then show "10 powi (- 1074) \<le> x" unfolding m u_def [symmetric] by simp
  have "x < 2 ^ 1024" using assms by (auto simp: binary64_def Let_def split: if_splits)
  also have "(2 :: rat) ^ 1024 \<le> 10 ^ 400" by simp
  finally have "x < 10 ^ 400" .
  then show "x < 10 powi 400" unfolding powi10_of_nat [symmetric] of_nat_numeral .
qed

lemma shortest_found:
  assumes "representable x" "0 < x"
  shows "shortest_from SHORTEST_FUEL 1 x \<noteq> None"
proof -
  define u :: rat where "u = 10 powi (- 1074)"
  have u: "u \<noteq> 0" using powi10_pos [of "- 1074"] unfolding u_def by linarith
  obtain m where m: "x = of_int m * u" unfolding u_def by (rule representable_units [OF assms(1)])
  have x: "10 powi decade x \<le> x" "x < 10 powi (decade x + 1)" using decade_bounds [of x] assms(2) by simp_all
  have "- 1074 < decade x + 1" by (rule powi10_less_cancel, rule le_less_trans [OF representable_bounds(1) [OF assms] x(2)])
  moreover have "decade x < 400" by (rule powi10_less_cancel, rule le_less_trans [OF x(1) representable_bounds(2) [OF assms]])
  ultimately obtain k where k: "1 \<le> k" "k < 1 + SHORTEST_FUEL" "decade x + 1 - int k = - 1074"
    using that [of "nat (decade x + 1075)"] by (auto simp: SHORTEST_FUEL_def)
  have "\<lfloor>x / u\<rfloor> = m" using u by (simp add: m)
  then have "shortest_at k x \<noteq> None"
    using assms(1) unfolding shortest_at_def k(3) u_def [symmetric] Let_def by (simp add: m [symmetric])
  then show ?thesis by (rule shortest_from_found [OF k(1,2)])
qed

lemma strip_zeros_value:
  "strip_zeros s e = (s', e') \<Longrightarrow> of_int s * (10 :: rat) powi e = of_int s' * 10 powi e' \<and> (0 < s \<longrightarrow> 0 < s')"
proof (induction s e rule: strip_zeros.induct)
  case (1 s e)
  show ?case
  proof (cases "0 < s \<and> s mod 10 = 0")
    case True
    then have "s = s div 10 * 10" by auto
    then have "(of_int s :: rat) = of_int (s div 10) * 10" by (metis of_int_mult of_int_numeral)
    then have "of_int s * (10 :: rat) powi e = of_int (s div 10) * 10 powi (e + 1)"
      by (simp only: powi10_add power_int_1_right mult.assoc mult.commute mult.left_commute)
    moreover have "strip_zeros (s div 10) (e + 1) = (s', e')" using 1(2) True by (simp add: strip_zeros.simps [of s])
    moreover have "0 < s div 10" using True by auto
    ultimately show ?thesis using 1(1) [OF True] by simp
  next
    case False
    then show ?thesis using 1(2) by (auto simp: strip_zeros.simps [of s])
  qed
qed

lemma zdiv_mult_mod_eq_nat: "int (n div 10) * 10 + int (n mod 10) = int n"
  unfolding zdiv_int zmod_int by simp

lemma string_of_nat_digits: "list_all is_digit (string_of_nat n)" "string_of_nat n \<noteq> []" "number_of (string_of_nat n) = int n"
proof (induction n rule: string_of_nat.induct)
  case (1 n)
  { case 1 then show ?case using \<open>\<not> n < 10 \<Longrightarrow> list_all is_digit (string_of_nat (n div 10))\<close>
      by (subst string_of_nat.simps) auto }
  { case 2 then show ?case by (subst string_of_nat.simps) auto }
  { case 3 then show ?case using \<open>\<not> n < 10 \<Longrightarrow> number_of (string_of_nat (n div 10)) = int (n div 10)\<close>
        zdiv_mult_mod_eq_nat [of n]
      by (subst string_of_nat.simps) (auto simp: number_of_append) }
qed

text \<open>Reading the four layouts of a positive number.\<close>

lemma digit_not_special: "is_digit c \<Longrightarrow> c \<noteq> CHR ''.'' \<and> c \<noteq> CHR ''e'' \<and> c \<noteq> CHR ''+'' \<and> c \<noteq> CHR ''-'' \<and> c \<noteq> CHR ''x''
    \<and> c \<noteq> CHR ''X'' \<and> c \<noteq> CHR ''o'' \<and> c \<noteq> CHR ''O'' \<and> c \<noteq> CHR ''b'' \<and> c \<noteq> CHR ''B'' \<and> c \<noteq> CHR ''I''
    \<and> c \<noteq> CHR '','' \<and> c \<noteq> CHR '']'' \<and> c \<noteq> CHR ''['' \<and> c \<noteq> CHR ''n'' \<and> c \<noteq> CHR 0x22"
  by (auto simp: is_digit_def less_eq_char_def)

lemma not_digits [simp]: "\<not> is_digit CHR ''.''" "\<not> is_digit CHR ''e''" "is_digit CHR ''0''"
  by (simp_all add: is_digit_def less_eq_char_def)

lemma digits_prefix_app [simp]:
  "list_all is_digit ds \<Longrightarrow> (r = [] \<or> \<not> is_digit (hd r)) \<Longrightarrow> digits_prefix (ds @ r) = (ds, r)"
  unfolding digits_prefix_def by (induction ds) (cases r; simp)+

lemma digits_prefix_all: "list_all is_digit ds \<Longrightarrow> digits_prefix ds = (ds, [])"
  using digits_prefix_app [of ds "[]"] by simp

lemma number_of_zeros [simp]: "number_of (replicate n CHR ''0'') = 0"
  by (induction n) (simp_all add: digit_value_def)

lemma replicate_digits: "list_all is_digit (replicate n CHR ''0'')"
  by (simp add: list_all_iff)

lemma exponent_part_simps:
  "exponent_part [] = Some 0"
  "exponent_part (CHR ''e'' # CHR ''-'' # string_of_nat m) = Some (- int m)"
  "exponent_part (CHR ''e'' # CHR ''+'' # string_of_nat m) = Some (int m)"
  using string_of_nat_digits [of m] by (simp_all add: exponent_part_def)

lemma read_plain:
  assumes "list_all is_digit ds" "ds \<noteq> []" "r = [] \<or> hd r = CHR ''e''" "exponent_part r = Some e"
  shows "unsigned_decimal (ds @ r) = Some (of_int (number_of ds) * 10 powi e)"
  using assms by (cases r) (auto simp: unsigned_decimal_def Let_def digits_prefix_all)

lemma read_fraction:
  assumes "list_all is_digit ds" "list_all is_digit fs" "ds \<noteq> []" "r = [] \<or> hd r = CHR ''e''" "exponent_part r = Some e"
  shows "unsigned_decimal (ds @ CHR ''.'' # fs @ r) = Some (of_int (number_of (ds @ fs)) * 10 powi (e - int (length fs)))"
proof -
  have "digits_prefix (fs @ r) = (fs, r)" using assms(2,4) by (intro digits_prefix_app) auto
  moreover have "digits_prefix (ds @ CHR ''.'' # fs @ r) = (ds, CHR ''.'' # fs @ r)" using assms(1) by (intro digits_prefix_app) auto
  ultimately show ?thesis using assms(3,5) by (simp add: unsigned_decimal_def Let_def)
qed

lemma format_digits_reads_back:
  assumes "list_all is_digit ds" "ds \<noteq> []"
  shows "unsigned_decimal (format_digits ds n) = Some (of_int (number_of ds) * 10 powi (n - int (length ds)))"
proof -
  let ?k = "int (length ds)"
  define r where "r = CHR ''e'' # (if n - 1 < 0 then CHR ''-'' else CHR ''+'') # string_of_nat (nat \<bar>n - 1\<bar>)"
  have r: "hd r = CHR ''e''" "exponent_part r = Some (n - 1)" by (auto simp: r_def exponent_part_simps)
  consider (whole) "?k \<le> n" "n \<le> 21" | (mixed) "0 < n" "n < ?k" "n \<le> 21" | (small) "- 6 < n" "n \<le> 0"
    | (exponential) "\<not> (?k \<le> n \<and> n \<le> 21)" "\<not> (0 < n \<and> n \<le> 21)" "\<not> (- 6 < n \<and> n \<le> 0)" by linarith
  then show ?thesis
  proof cases
    case whole
    have "unsigned_decimal ((ds @ replicate (nat (n - ?k)) CHR ''0'') @ []) = Some (of_int (number_of (ds @ replicate (nat (n - ?k)) CHR ''0'')) * 10 powi 0)"
      using assms replicate_digits by (intro read_plain) (simp_all add: exponent_part_simps)
    moreover have "(10 :: rat) powi (n - ?k) = 10 ^ nat (n - ?k)" using whole by (simp add: power_int_def)
    ultimately show ?thesis using whole by (simp add: format_digits_def Let_def number_of_append)
  next
    case mixed
    have split: "take (nat n) ds @ drop (nat n) ds = ds" by simp
    have "unsigned_decimal (take (nat n) ds @ CHR ''.'' # drop (nat n) ds @ []) =
        Some (of_int (number_of (take (nat n) ds @ drop (nat n) ds)) * 10 powi (0 - int (length (drop (nat n) ds))))"
      using assms mixed by (intro read_fraction) (auto simp: exponent_part_simps list_all_iff dest: in_set_takeD in_set_dropD)
    then show ?thesis unfolding split using mixed by (simp add: format_digits_def Let_def)
  next
    case small
    have "unsigned_decimal (''0'' @ CHR ''.'' # (replicate (nat (- n)) CHR ''0'' @ ds) @ []) =
        Some (of_int (number_of (''0'' @ replicate (nat (- n)) CHR ''0'' @ ds)) * 10 powi (0 - int (length (replicate (nat (- n)) CHR ''0'' @ ds))))"
      using assms replicate_digits by (intro read_fraction) (simp_all add: exponent_part_simps)
    moreover have zero: "number_of (''0'' @ replicate (nat (- n)) CHR ''0'' @ ds) = number_of ds"
      unfolding number_of_append by (simp add: digit_value_def)
    moreover have "\<not> ?k \<le> n" using small assms(2) by (cases ds) auto
    ultimately show ?thesis using small unfolding zero by (simp add: format_digits_def Let_def add.commute)
  next
    case exponential
    then have layout: "format_digits ds n = (if ?k = 1 then ds else hd ds # CHR ''.'' # tl ds) @ r"
      by (simp only: format_digits_def Let_def if_False r_def append.simps)
    show ?thesis
    proof (cases "?k = 1")
      case True
      then show ?thesis using read_plain [OF assms disjI2 [OF r(1)] r(2)] by (simp add: layout)
    next
      case False
      have "unsigned_decimal ([hd ds] @ CHR ''.'' # tl ds @ r) = Some (of_int (number_of ([hd ds] @ tl ds)) * 10 powi (n - 1 - int (length (tl ds))))"
        using assms r by (intro read_fraction) (cases ds; simp)+
      moreover have whole: "[hd ds] @ tl ds = ds" and "int (length (tl ds)) = ?k - 1" using assms(2) by (cases ds; simp)+
      ultimately show ?thesis using False unfolding whole by (simp add: layout)
    qed
  qed
qed

definition number_char :: "char \<Rightarrow> bool" where
  "number_char c \<longleftrightarrow> is_digit c \<or> c \<in> {CHR ''.'', CHR ''e'', CHR ''+'', CHR ''-''}"

lemma format_digits_chars:
  assumes "list_all is_digit ds" "ds \<noteq> []"
  shows "list_all number_char (format_digits ds n) \<and> format_digits ds n \<noteq> [] \<and> is_digit (hd (format_digits ds n))"
proof -
  have ds: "\<forall>c \<in> set ds. number_char c" using assms(1) by (auto simp: number_char_def list_all_iff)
  have digits: "list_all number_char (string_of_nat m)" for m
    using string_of_nat_digits(1) [of m] by (auto simp: number_char_def list_all_iff)
  have first: "is_digit (hd ds)" "number_char (hd ds)" "0 < n \<Longrightarrow> hd (take (nat n) ds) = hd ds" "0 < n \<Longrightarrow> take (nat n) ds \<noteq> []"
    using assms by (cases ds; auto simp: number_char_def)+
  have parts: "list_all number_char (take m ds)" "list_all number_char (drop m ds)" "list_all number_char (tl ds)" "list_all number_char ds"
    "list_all number_char (replicate m CHR ''0'')" for m
    using ds by (auto simp: list_all_iff number_char_def dest: in_set_takeD in_set_dropD list.set_sel(2) [OF assms(2)])
  show ?thesis
    unfolding format_digits_def Let_def using parts digits first assms(2)
    by (simp add: hd_append number_char_def)
qed

lemma positive_text_reads_back:
  assumes "representable x" "0 < x"
  obtains y where "unsigned_decimal (positive_text x) = Some y" "binary64 y = Fin x"
    and "list_all number_char (positive_text x)" "positive_text x \<noteq> []" "is_digit (hd (positive_text x))"
proof -
  obtain s e where found: "shortest_from SHORTEST_FUEL 1 x = Some (s, e)" using shortest_found [OF assms] by auto
  obtain s' e' where strip: "strip_zeros s e = (s', e')" by (cases "strip_zeros s e")
  note reads = shortest_from_reads_back [OF found assms(2)]
  have "s \<noteq> 0" using reads assms(2) by (auto simp: binary64_def)
  then have positive: "0 < s'" and same: "binary64 (of_int s' * 10 powi e') = Fin x"
    using reads strip_zeros_value [OF strip] by auto
  let ?ds = "string_of_nat (nat s')"
  have printed: "positive_text x = format_digits ?ds (e' + int (length ?ds))"
    unfolding positive_text_def found by (simp add: strip Let_def)
  have "unsigned_decimal (positive_text x) = Some (of_int s' * 10 powi e')"
    using format_digits_reads_back [OF string_of_nat_digits(1,2) [of "nat s'"]] positive
    by (simp add: printed string_of_nat_digits(3))
  then show ?thesis
    using that same format_digits_chars [OF string_of_nat_digits(1,2) [of "nat s'"]] unfolding printed by metis
qed

lemma round_half_even_minus: "round_half_even (- y) = - round_half_even y"
proof (cases "y = of_int \<lfloor>y\<rfloor>")
  case True
  then have "- y = of_int (- \<lfloor>y\<rfloor>)" by simp
  then show ?thesis using True round_half_even_int by metis
next
  case False
  have "of_int \<lfloor>y\<rfloor> \<le> y" "y < of_int \<lfloor>y\<rfloor> + 1" by linarith+
  then have below: "\<lfloor>- y\<rfloor> = - \<lfloor>y\<rfloor> - 1" using False by (intro floor_unique) (simp, linarith)+
  define d where "d = y - of_int \<lfloor>y\<rfloor>"
  have "- y - of_int \<lfloor>- y\<rfloor> = 1 - d" by (simp add: below d_def)
  then show ?thesis unfolding round_half_even_def Let_def d_def [symmetric]
    by (cases "d < 1 / 2"; cases "d = 1 / 2") (auto simp: below)
qed

lemma binary64_minus: "binary64 x = Fin r \<Longrightarrow> binary64 (- x) = Fin (- r)"
proof -
  have "binade (- x) = binade x" by (simp add: binade_def)
  then have "round_at (binary64_exponent (- x)) (- x) = - round_at (binary64_exponent x) x"
    using round_half_even_minus [of "x / 2 powi binary64_exponent x"] by (simp add: binary64_exponent_def round_at_def)
  then show "binary64 x = Fin r \<Longrightarrow> binary64 (- x) = Fin (- r)"
    by (auto simp: binary64_def Let_def split: if_splits)
qed

lemma trim_id: "list_all (\<lambda>c. \<not> js_space c) s \<Longrightarrow> js_trim s = s"
proof -
  have keep: "dropWhile js_space xs = xs" if "\<forall>c \<in> set xs. \<not> js_space c" for xs using that by (cases xs) auto
  assume "list_all (\<lambda>c. \<not> js_space c) s"
  then have "\<forall>c \<in> set s. \<not> js_space c" "\<forall>c \<in> set (rev s). \<not> js_space c" by (simp_all add: list_all_iff)
  then show ?thesis by (simp add: js_trim_def keep)
qed

lemma number_char_plain: "number_char c \<Longrightarrow> \<not> js_space c"
  by (auto simp: number_char_def is_digit_def js_space_def less_eq_char_def)

lemma read_number_text:
  assumes "list_all number_char t" "t \<noteq> []" "is_digit (hd t)"
  shows "js_Number t = signed_literal False t" "js_Number (CHR ''-'' # t) = signed_literal True t"
proof -
  have plain: "list_all (\<lambda>c. \<not> js_space c) t" using assms(1) number_char_plain by (auto simp: list_all_iff)
  then have trim: "js_trim t = t" "js_trim (CHR ''-'' # t) = CHR ''-'' # t"
    by (auto intro!: trim_id simp: js_space_def)
  have head: "c \<notin> {CHR ''x'', CHR ''X''}" "c \<notin> {CHR ''o'', CHR ''O''}" "c \<notin> {CHR ''b'', CHR ''B''}" if c: "number_char c" for c
  proof -
    consider "is_digit c" | "c \<in> {CHR ''.'', CHR ''e'', CHR ''+'', CHR ''-''}" using c unfolding number_char_def by blast
    then have "c \<notin> {CHR ''x'', CHR ''X''} \<and> c \<notin> {CHR ''o'', CHR ''O''} \<and> c \<notin> {CHR ''b'', CHR ''B''}"
    proof cases
      case 1
      from digit_not_special [OF this] show ?thesis unfolding insert_iff empty_iff by (elim conjE) (intro conjI notI; (elim disjE)?; simp only:)
    qed auto
    then show "c \<notin> {CHR ''x'', CHR ''X''}" "c \<notin> {CHR ''o'', CHR ''O''}" "c \<notin> {CHR ''b'', CHR ''B''}" by blast+
  qed
  show "js_Number t = signed_literal False t"
  proof (cases t)
    case (Cons c r)
    have "c \<noteq> CHR ''-''" "c \<noteq> CHR ''+''" using digit_not_special [of c] assms(3) Cons by auto
    moreover have "r \<noteq> [] \<Longrightarrow> number_char (hd r)" using assms(1) Cons by (cases r) auto
    ultimately show ?thesis using head [of "hd r"] unfolding js_Number_def trim Let_def unfolding Cons by auto
  qed (use assms(2) in simp)
  show "js_Number (CHR ''-'' # t) = signed_literal True t"
    unfolding js_Number_def trim Let_def by simp
qed

lemma js_Number_text:
  assumes "representable x"
  shows "js_Number (js_number_text (Fin x)) = Fin x"
proof (cases "x = 0")
  case True
  show ?thesis unfolding True by code_simp
next
  case False
  have literal: "signed_literal neg t = binary64 (if neg then - y else y)"
    if "unsigned_decimal t = Some y" "is_digit (hd t)" "t \<noteq> []" for neg t y
    using that digit_not_special [of "hd t"] by (auto simp: signed_literal_def)
  show ?thesis
  proof (cases "0 < x")
    case True
    obtain y where y: "unsigned_decimal (positive_text x) = Some y" "binary64 y = Fin x" "list_all number_char (positive_text x)"
      "positive_text x \<noteq> []" "is_digit (hd (positive_text x))" by (rule positive_text_reads_back [OF assms True])
    then show ?thesis using True read_number_text(1) [OF y(3-5)] literal [OF y(1,5,4)] by simp
  next
    case negative: False
    then have "0 < - x" "representable (- x)" using False binary64_minus [OF assms] by simp_all
    then obtain y where y: "unsigned_decimal (positive_text (- x)) = Some y" "binary64 y = Fin (- x)" "list_all number_char (positive_text (- x))"
      "positive_text (- x) \<noteq> []" "is_digit (hd (positive_text (- x)))" using positive_text_reads_back by metis
    then show ?thesis using negative False read_number_text(2) [OF y(3-5)] literal [OF y(1,5,4)] binary64_minus [OF y(2)] by simp
  qed
qed

subsection \<open>A value is determined by its JSON text\<close>

text \<open>Values whose numbers are doubles; what follows a value inside an array is a comma or a bracket.\<close>

fun json_ok :: "json \<Rightarrow> bool" where
  "json_ok (JNumber n) \<longleftrightarrow> (\<exists>x. n = Fin x \<and> representable x)"
| "json_ok (JArray vs) \<longleftrightarrow> (\<forall>v \<in> set vs. json_ok v)"
| "json_ok _ \<longleftrightarrow> True"

definition stops :: "string \<Rightarrow> bool" where
  "stops r \<longleftrightarrow> r = [] \<or> hd r = CHR '','' \<or> hd r = CHR '']''"

lemma stops_simps [simp]: "stops []" "stops (CHR '','' # r)" "stops (CHR '']'' # r)"
  by (simp_all add: stops_def)

lemma number_char_stop: "number_char c \<Longrightarrow> c \<noteq> CHR '','' \<and> c \<noteq> CHR '']'' \<and> c \<noteq> CHR ''['' \<and> c \<noteq> CHR ''n'' \<and> c \<noteq> CHR 0x22"
  by (auto simp: number_char_def is_digit_def less_eq_char_def)

lemma number_text_chars:
  assumes "representable x"
  shows "list_all number_char (js_number_text (Fin x)) \<and> js_number_text (Fin x) \<noteq> []"
proof -
  have sign: "number_char CHR ''-''" "number_char CHR ''0''" by (simp_all add: number_char_def)
  consider "x = 0" | "0 < x" | "0 < - x" by linarith
  then show ?thesis
  proof cases
    case 2
    then show ?thesis using positive_text_reads_back [OF assms 2] by (metis js_number_text.simps(1) less_asym less_irrefl)
  next
    case 3
    have "representable (- x)" using binary64_minus [OF assms] .
    then have "list_all number_char (positive_text (- x))" using positive_text_reads_back [OF _ 3] by metis
    then show ?thesis using 3 sign by simp
  qed (use sign in simp)
qed

lemma number_prefix:
  assumes "list_all number_char a" "list_all number_char b" "a @ r = b @ r'" "stops r" "stops r'"
  shows "a = b \<and> r = r'"
proof -
  have "takeWhile number_char (t @ q) = t" if "list_all number_char t" "stops q" for t q
  proof -
    have "q = [] \<or> \<not> number_char (hd q)" using that(2) number_char_stop [of "hd q"] unfolding stops_def by metis
    then show ?thesis using that(1) by (induction t) (cases q; simp)+
  qed
  then have "a = b" using assms by metis
  then show ?thesis using assms(3) by simp
qed

lemma hex_char_inj: "m < 16 \<Longrightarrow> n < 16 \<Longrightarrow> hex_char m = hex_char n \<Longrightarrow> m = n"
proof -
  have "distinct ''0123456789abcdef''" by simp
  then show "m < 16 \<Longrightarrow> n < 16 \<Longrightarrow> hex_char m = hex_char n \<Longrightarrow> m = n"
    unfolding hex_char_def by (simp add: nth_eq_iff_index_eq)
qed

text \<open>The escape class of a character: what follows the backslash, or nothing.\<close>

definition short_escape :: "char \<Rightarrow> char option" where
  "short_escape c =
     (let n = of_char c :: nat in
      if n = 8 then Some CHR ''b'' else if n = 9 then Some CHR ''t'' else if n = 10 then Some CHR ''n''
      else if n = 12 then Some CHR ''f'' else if n = 13 then Some CHR ''r''
      else if c = CHR 0x22 \<or> c = BACKSLASH then Some c else None)"

lemma quote_char_eq:
  "quote_char c =
     (case short_escape c of Some d \<Rightarrow> [BACKSLASH, d]
      | None \<Rightarrow>
          if (of_char c :: nat) < 32
          then [BACKSLASH, CHR ''u'', CHR ''0'', CHR ''0'', hex_char (of_char c div 16), hex_char (of_char c mod 16)]
          else [c])"
  unfolding quote_char_def short_escape_def Let_def by simp

lemma short_escape_None: "short_escape c = None \<Longrightarrow> c \<noteq> BACKSLASH \<and> c \<noteq> CHR 0x22"
  by (auto simp: short_escape_def Let_def split: if_splits)

lemma quote_char_cases:
  obtains (short) d where "short_escape c = Some d" "quote_char c = [BACKSLASH, d]"
  | (control) "short_escape c = None" "(of_char c :: nat) < 32"
      "quote_char c = [BACKSLASH, CHR ''u'', CHR ''0'', CHR ''0'', hex_char (of_char c div 16), hex_char (of_char c mod 16)]"
  | (plain) "c \<noteq> BACKSLASH" "c \<noteq> CHR 0x22" "quote_char c = [c]"
proof (cases "short_escape c")
  case None
  then show ?thesis using control plain short_escape_None [OF None] by (cases "(of_char c :: nat) < 32") (simp_all add: quote_char_eq)
next
  case (Some d)
  then show ?thesis using short by (simp add: quote_char_eq)
qed

lemma short_escape_u: "short_escape c = Some d \<Longrightarrow> d \<noteq> CHR ''u''"
  by (auto simp: short_escape_def BACKSLASH_def Let_def split: if_splits)

lemma short_escape_inj: "short_escape c = Some e \<Longrightarrow> short_escape d = Some e \<Longrightarrow> c = d"
proof -
  have code: "c = d" if "(of_char c :: nat) = of_char d" for c d :: char using that by simp
  show "short_escape c = Some e \<Longrightarrow> short_escape d = Some e \<Longrightarrow> c = d"
    unfolding short_escape_def Let_def BACKSLASH_def by (auto split: if_splits intro: code)
qed

lemma quote_char_prefix: "quote_char c @ x = quote_char d @ y \<Longrightarrow> c = d \<and> x = y"
proof -
  assume same: "quote_char c @ x = quote_char d @ y"
  show ?thesis
  proof (cases c rule: quote_char_cases)
    case (short e)
    then show ?thesis using same short_escape_inj [of c e d]
      by (cases d rule: quote_char_cases) (auto dest: short_escape_u)
  next
    case control
    show ?thesis
    proof (cases d rule: quote_char_cases)
      case control
      note d = this
      have small: "(of_char c :: nat) < 32" "(of_char d :: nat) < 32" by fact+
      have "hex_char (of_char c div 16) = hex_char (of_char d div 16)" "hex_char (of_char c mod 16) = hex_char (of_char d mod 16)" and x: "x = y"
        using same \<open>quote_char c = _\<close> \<open>quote_char d = _\<close> by simp_all
      then have "(of_char c :: nat) div 16 = of_char d div 16" "(of_char c :: nat) mod 16 = of_char d mod 16"
        using small by (auto intro!: hex_char_inj)
      then have "(of_char c :: nat) = of_char d" by (metis div_mult_mod_eq)
      then show ?thesis using x by simp
    qed (use same control in \<open>auto dest: short_escape_u\<close>)
  next
    case plain
    then show ?thesis using same by (cases d rule: quote_char_cases) auto
  qed
qed

lemma quote_char_head: "\<exists>h t. quote_char c = h # t \<and> h \<noteq> CHR 0x22"
  by (cases c rule: quote_char_cases) (auto simp: BACKSLASH_def)

lemma quoted_prefix:
  "concat (map quote_char s) @ CHR 0x22 # x = concat (map quote_char t) @ CHR 0x22 # y \<Longrightarrow> s = t \<and> x = y"
proof (induction s arbitrary: t)
  case Nil
  then show ?case
  proof (cases t)
    case (Cons d t')
    with Nil quote_char_head [of d] show ?thesis by auto
  qed simp
next
  case (Cons c s)
  show ?case
  proof (cases t)
    case Nil
    with Cons.prems quote_char_head [of c] show ?thesis by auto
  next
    case (Cons d t')
    then have "quote_char c @ (concat (map quote_char s) @ CHR 0x22 # x) = quote_char d @ (concat (map quote_char t') @ CHR 0x22 # y)"
      using Cons.prems by simp
    from quote_char_prefix [OF this] show ?thesis using Cons Cons.IH [of t'] by simp
  qed
qed

text \<open>The first character of a value tells its kind, and is never a stop.\<close>

lemma json_head:
  "json_ok v \<Longrightarrow> \<exists>h t. JSON_stringify v = h # t \<and> \<not> stops [h] \<and>
     (case v of JNull \<Rightarrow> h = CHR ''n'' | JNumber _ \<Rightarrow> number_char h | JString _ \<Rightarrow> h = CHR 0x22 | JArray _ \<Rightarrow> h = CHR ''['')"
proof (cases v)
  case (JNumber n)
  assume "json_ok v"
  then obtain x where x: "n = Fin x" "representable x" using JNumber by auto
  from number_text_chars [OF x(2)] obtain h t where t: "js_number_text (Fin x) = h # t" "number_char h"
    by (cases "js_number_text (Fin x)") auto
  have "\<not> stops [h]" using number_char_stop [OF t(2)] by (simp add: stops_def)
  then show ?thesis using t by (simp add: JNumber x(1) del: js_number_text.simps)
qed (simp_all add: quote_text_def stops_def)

abbreviation elements :: "json list \<Rightarrow> string" where
  "elements vs \<equiv> js_join (CHR '','') (map JSON_stringify vs)"

lemma elements_Cons:
  "elements (v # vs) @ CHR '']'' # r = JSON_stringify v @ (if vs = [] then CHR '']'' # r else CHR '','' # elements vs @ CHR '']'' # r)"
  by (cases vs) simp_all

lemma elements_prefix:
  assumes "\<And>v w r r'. v \<in> set vs \<Longrightarrow> json_ok w \<Longrightarrow> JSON_stringify v @ r = JSON_stringify w @ r' \<Longrightarrow> stops r \<Longrightarrow> stops r' \<Longrightarrow> v = w \<and> r = r'"
    and "\<forall>v \<in> set vs. json_ok v" "\<forall>w \<in> set ws. json_ok w"
    and "elements vs @ CHR '']'' # r = elements ws @ CHR '']'' # r'"
  shows "vs = ws \<and> r = r'"
  using assms
proof (induction vs arbitrary: ws)
  case Nil
  then show ?case
  proof (cases ws)
    case (Cons w ws')
    with Nil.prems(3) obtain h t where "JSON_stringify w = h # t" "\<not> stops [h]" using json_head [of w] by auto
    then show ?thesis using Nil.prems(4) unfolding Cons elements_Cons by (simp add: stops_def)
  qed simp
next
  case (Cons v vs)
  show ?case
  proof (cases ws)
    case Nil
    obtain h t where "JSON_stringify v = h # t" "\<not> stops [h]" using json_head [of v] Cons.prems(2) by auto
    then show ?thesis using Cons.prems(4) unfolding Nil elements_Cons by (simp add: stops_def)
  next
    case (Cons w ws')
    let ?rest = "\<lambda>vs r. if vs = [] then CHR '']'' # r else CHR '','' # elements vs @ CHR '']'' # r"
    have same: "JSON_stringify v @ ?rest vs r = JSON_stringify w @ ?rest ws' r'"
      using Cons.prems(4) unfolding Cons elements_Cons .
    have stop: "stops (?rest vs r)" "stops (?rest ws' r')" by (simp_all add: stops_def)
    have "json_ok w" using Cons.prems(3) Cons by simp
    then have first: "v = w \<and> ?rest vs r = ?rest ws' r'"
      by (intro Cons.prems(1) [OF _ _ same stop]) simp_all
    show ?thesis
    proof (cases "vs = [] \<or> ws' = []")
      case True
      then show ?thesis using first unfolding Cons by (cases vs; cases ws'; simp)
    next
      case False
      then have tails: "elements vs @ CHR '']'' # r = elements ws' @ CHR '']'' # r'" using first by simp
      have "vs = ws' \<and> r = r'"
      proof (rule Cons.IH [OF _ _ _ tails])
        show "\<forall>v \<in> set vs. json_ok v" using Cons.prems(2) by simp
        show "\<forall>w \<in> set ws'. json_ok w" using Cons.prems(3) Cons by simp
        fix v w r r' assume v: "v \<in> set vs"
        assume rest: "json_ok w" "JSON_stringify v @ r = JSON_stringify w @ r'" "stops r" "stops r'"
        show "v = w \<and> r = r'" by (rule Cons.prems(1) [OF _ rest]) (simp add: v)
      qed
      then show ?thesis using first Cons by simp
    qed
  qed
qed

fun json_kind :: "json \<Rightarrow> nat" where
  "json_kind JNull = 0" | "json_kind (JNumber _) = 1" | "json_kind (JString _) = 2" | "json_kind (JArray _) = 3"

definition head_kind :: "char \<Rightarrow> nat" where
  "head_kind h = (if h = CHR ''n'' then 0 else if h = CHR 0x22 then 2 else if h = CHR ''['' then 3 else 1)"

lemma json_kind_head:
  assumes "json_ok v"
  shows "\<exists>h t. JSON_stringify v = h # t \<and> head_kind h = json_kind v"
proof -
  from json_head [OF assms] obtain h t where h: "JSON_stringify v = h # t"
    "case v of JNull \<Rightarrow> h = CHR ''n'' | JNumber _ \<Rightarrow> number_char h | JString _ \<Rightarrow> h = CHR 0x22 | JArray _ \<Rightarrow> h = CHR ''[''"
    by blast
  have "head_kind h = json_kind v"
  proof (cases v)
    case (JNumber n)
    then have "number_char h" using h(2) by simp
    from number_char_stop [OF this] show ?thesis by (simp add: head_kind_def JNumber)
  qed (use h(2) in \<open>simp_all add: head_kind_def\<close>)
  then show ?thesis using h(1) by blast
qed

lemma same_kind:
  assumes "json_ok v" "json_ok w" "JSON_stringify v @ r = JSON_stringify w @ r'"
  shows "json_kind v = json_kind w"
  using json_kind_head [OF assms(1)] json_kind_head [OF assms(2)] assms(3) by auto

lemma json_prefix:
  "json_ok v \<Longrightarrow> json_ok w \<Longrightarrow> JSON_stringify v @ r = JSON_stringify w @ r' \<Longrightarrow> stops r \<Longrightarrow> stops r' \<Longrightarrow> v = w \<and> r = r'"
proof (induction v arbitrary: w r r')
  case JNull
  have "w = JNull" using same_kind [OF JNull.prems(1-3)] by (cases w) simp_all
  then show ?case using JNull.prems(3) by simp
next
  case (JNumber n)
  obtain m where w: "w = JNumber m" using same_kind [OF JNumber.prems(1-3)] by (cases w) simp_all
  obtain x y where x: "n = Fin x" "representable x" and y: "m = Fin y" "representable y"
    using JNumber.prems(1,2) w by auto
  have "js_number_text (Fin x) = js_number_text (Fin y) \<and> r = r'"
    using JNumber.prems(3-5) number_text_chars [OF x(2)] number_text_chars [OF y(2)] unfolding w x(1) y(1)
    by (intro number_prefix) (simp_all del: js_number_text.simps)
  then show ?case using js_Number_text [OF x(2)] js_Number_text [OF y(2)] unfolding w x(1) y(1) by metis
next
  case (JString s)
  obtain t where w: "w = JString t" using same_kind [OF JString.prems(1-3)] by (cases w) simp_all
  then show ?case using JString.prems(3) quoted_prefix [of s r t r'] by (simp add: quote_text_def)
next
  case (JArray vs)
  obtain ws where w: "w = JArray ws" using same_kind [OF JArray.prems(1-3)] by (cases w) simp_all
  have "elements vs @ CHR '']'' # r = elements ws @ CHR '']'' # r'" using JArray.prems(3) by (simp add: w)
  then have "vs = ws \<and> r = r'" using JArray.prems JArray.IH w by (intro elements_prefix) auto
  then show ?case by (simp add: w)
qed

lemma JSON_stringify_inj: "json_ok v \<Longrightarrow> json_ok w \<Longrightarrow> JSON_stringify v = JSON_stringify w \<Longrightarrow> v = w"
  using json_prefix [of v w "[]" "[]"] by simp

end
