(* ===== verification/Fingerprints.thy ===== *)
theory Fingerprints
  imports Strategies JsText JsMath Digest
begin

section \<open>Building and fingerprinting strategy documents\<close>

text \<open>
  The part of \<open>packages/contracts/src/strategies.ts\<close> that rebuilds a document field by field (what
  normalization and re-keying share) and the fingerprints of its logic, with
  \<open>alternativeDataMetricFingerprint\<close> of \<open>alternative-data.ts\<close>. A fingerprint is the JSON text of
  an id-free value; an alternative-data metric whose scope selects nobody throws instead.
\<close>

subsection \<open>Building\<close>

fun buildMetric :: "strategy_metric \<Rightarrow> strategy_metric" where
  "buildMetric (ALTERNATIVE_DATA metric) = ALTERNATIVE_DATA (buildAlternativeDataMetric metric)"
| "buildMetric metric = metric"

definition buildValue :: "strategy_value \<Rightarrow> strategy_value" where
  "buildValue input = input"

text \<open>
  The id a row is given: a function of the id it had and of what the supplier of ids has handed out so
  far. Rows are visited in the order in which the builder evaluates them.
\<close>

type_synonym 's row_id = "string \<Rightarrow> 's \<Rightarrow> string \<times> 's"

definition keepRowId :: "'s row_id" where
  "keepRowId identifier s = (identifier, s)"

definition next_id :: "(nat \<Rightarrow> string) \<Rightarrow> nat row_id" where
  "next_id nextId identifier n = (nextId n, n + 1)"

fun map_state :: "('a \<Rightarrow> 's \<Rightarrow> 'b \<times> 's) \<Rightarrow> 'a list \<Rightarrow> 's \<Rightarrow> 'b list \<times> 's" where
  "map_state f [] s = ([], s)"
| "map_state f (x # xs) s = (let (y, s1) = f x s; (ys, s2) = map_state f xs s1 in (y # ys, s2))"

definition build_condition :: "'s row_id \<Rightarrow> strategy_condition \<Rightarrow> 's \<Rightarrow> strategy_condition \<times> 's" where
  "build_condition idOf condition s =
     (let (identifier, s1) = idOf (condition_id condition) s
      in (\<lparr>condition_id = identifier, condition_metric = buildMetric (condition_metric condition),
           condition_operator = condition_operator condition,
           condition_value = buildValue (condition_value condition)\<rparr>, s1))"

definition build_trigger :: "'s row_id \<Rightarrow> strategy_trigger \<Rightarrow> 's \<Rightarrow> strategy_trigger \<times> 's" where
  "build_trigger idOf trig s =
     (let (identifier, s1) = idOf (trigger_id trig) s
      in (\<lparr>trigger_id = identifier, trigger_metric = buildMetric (trigger_metric trig),
           trigger_operator = trigger_operator trig, trigger_value = buildValue (trigger_value trig)\<rparr>, s1))"

definition buildSignal :: "'s row_id \<Rightarrow> strategy_signal \<Rightarrow> 's \<Rightarrow> strategy_signal \<times> 's" where
  "buildSignal idOf signal s =
     (let (built, s1) = map_state (build_condition idOf) (conditions signal) s
      in case trigger signal of
           None \<Rightarrow> (\<lparr>conditions = built, trigger = None\<rparr>, s1)
         | Some trig \<Rightarrow>
             let (built_trigger, s2) = build_trigger idOf trig s1
             in (\<lparr>conditions = built, trigger = Some built_trigger\<rparr>, s2))"

definition build_level :: "'s row_id \<Rightarrow> strategy_level \<Rightarrow> 's \<Rightarrow> strategy_level \<times> 's" where
  "build_level idOf level s =
     (let (identifier, s1) = idOf (level_id level) s; (signal, s2) = buildSignal idOf (level_signal level) s1
      in (\<lparr>level_id = identifier, level_signal = signal, percentage = percentage level\<rparr>, s2))"

definition build_rule :: "'s row_id \<Rightarrow> strategy_exit_rule \<Rightarrow> 's \<Rightarrow> strategy_exit_rule \<times> 's" where
  "build_rule idOf rule s =
     (let (identifier, s1) = idOf (rule_id rule) s; (signal, s2) = buildSignal idOf (rule_signal rule) s1
      in (\<lparr>rule_id = identifier, rule_signal = signal\<rparr>, s2))"

definition STRATEGY_SCHEMA_VERSION :: nat where "STRATEGY_SCHEMA_VERSION = 2"

definition buildDefinition :: "'s row_id \<Rightarrow> strategy_definition \<Rightarrow> 's \<Rightarrow> strategy_definition \<times> 's" where
  "buildDefinition idOf definition s =
     (let (buys, s1) = map_state (build_level idOf) (buyLevels definition) s;
          (sells, s2) = map_state (build_level idOf) (sellLevels definition) s1
      in case finalExit definition of
           None \<Rightarrow>
             (\<lparr>schemaVersion = STRATEGY_SCHEMA_VERSION, buyLevels = buys, sellLevels = sells, finalExit = None\<rparr>, s2)
         | Some exit \<Rightarrow>
             let (identifier, s3) = idOf (exit_id exit) s2;
                 (rules, s4) = map_state (build_rule idOf) (exit_rules exit) s3
             in (\<lparr>schemaVersion = STRATEGY_SCHEMA_VERSION, buyLevels = buys, sellLevels = sells,
                  finalExit = Some \<lparr>exit_id = identifier, exit_rules = rules\<rparr>\<rparr>, s4))"

text \<open>The last step of \<open>normalizeStrategyDefinition\<close>, and a copy under the ids \<open>nextId 0\<close>, \<open>nextId 1\<close>, \<dots>.\<close>

definition canonical_definition :: "strategy_definition \<Rightarrow> strategy_definition" where
  "canonical_definition definition = fst (buildDefinition keepRowId definition ())"

definition rekeyStrategyDefinition :: "strategy_definition \<Rightarrow> (nat \<Rightarrow> string) \<Rightarrow> strategy_definition" where
  "rekeyStrategyDefinition definition nextId = fst (buildDefinition (next_id nextId) definition 0)"

subsection \<open>Fingerprints\<close>

definition fingerprint_scope :: "actor_scope \<Rightarrow> strategy_error + string" where
  "fingerprint_scope scope =
     (case actorScopeActorIds scope of
        None \<Rightarrow> scopeSignature scope
      | Some actorIds \<Rightarrow>
          if 1 < length actorIds
          then Inr (''actors:'' @ string_of_nat (length actorIds) @ '':'' @
            sha256Hex (map of_char (js_join (CHR ''+'') actorIds)))
          else scopeSignature scope)"

definition alternativeDataMetricFingerprint :: "alternative_metric \<Rightarrow> strategy_error + string" where
  "alternativeDataMetricFingerprint metric = metricSignature fingerprint_scope metric"

fun condition_operator_text :: "condition_operator \<Rightarrow> string" where
  "condition_operator_text IS_ABOVE = ''IS_ABOVE''"
| "condition_operator_text IS_BELOW = ''IS_BELOW''"
| "condition_operator_text IS_CLOSE_TO = ''IS_CLOSE_TO''"
| "condition_operator_text (OTHER_CONDITION t) = t"

fun trigger_operator_text :: "trigger_operator \<Rightarrow> string" where
  "trigger_operator_text CROSSES_ABOVE = ''CROSSES_ABOVE''"
| "trigger_operator_text CROSSES_BELOW = ''CROSSES_BELOW''"
| "trigger_operator_text (OTHER_TRIGGER t) = t"

fun value_json :: "strategy_value \<Rightarrow> json" where
  "value_json (SERIES seriesId) = JArray [JString ''SERIES'', JString seriesId]"
| "value_json (NUMBER n) = JArray [JString ''NUMBER'', JNumber n]"
| "value_json (PERCENT n) = JArray [JString ''PERCENT'', JNumber n]"
| "value_json (MULTIPLE n) = JArray [JString ''MULTIPLE'', JNumber n]"
| "value_json (MONEY_VALUE n) = JArray [JString ''MONEY'', JNumber n]"

definition nat_json :: "nat \<Rightarrow> json" where
  "nat_json n = JNumber (Fin (of_nat n))"

fun alternative_kind :: "alternative_metric \<Rightarrow> string" where
  "alternative_kind (INSIDER_ACTIVITY _) = ''INSIDER_ACTIVITY''"
| "alternative_kind (CONGRESS_ACTIVITY _) = ''CONGRESS_ACTIVITY''"

fun metric_base :: "strategy_metric \<Rightarrow> strategy_error + json list" where
  "metric_base (RELATIVE_VOLUME period _) = Inr [JString ''RELATIVE_VOLUME'', JNull, nat_json period]"
| "metric_base (FUNDAMENTAL metricId) = Inr [JString ''FUNDAMENTAL'', JNull, JString metricId]"
| "metric_base (VALUATION_RATIO ratioId) = Inr [JString ''VALUATION_RATIO'', JNull, JString ratioId]"
| "metric_base (ALTERNATIVE_DATA metric) =
     result_map (\<lambda>fingerprint. [JString (alternative_kind metric), JNull, JString fingerprint])
       (alternativeDataMetricFingerprint metric)"
| "metric_base (MOVING_AVERAGE seriesId _) = Inr [JString ''MOVING_AVERAGE'', JString seriesId]"
| "metric_base (OSCILLATOR seriesId _) = Inr [JString ''OSCILLATOR'', JString seriesId]"
| "metric_base (MARGIN_OF_SAFETY sourceId) = Inr [JString ''MARGIN_OF_SAFETY'', JString sourceId]"
| "metric_base (PRICE _) = Inr [JString ''PRICE'', JNull]"
| "metric_base GAIN = Inr [JString ''GAIN'', JNull]"
| "metric_base LOSS = Inr [JString ''LOSS'', JNull]"

fun source_json :: "metric_source option \<Rightarrow> json list" where
  "source_json None = []"
| "source_json (Some (ETF code)) = [JString (''etf:'' @ code)]"
| "source_json (Some STOCK_SECTOR) = [JString ''stock-sector'']"

definition metric_json :: "strategy_metric \<Rightarrow> strategy_error + json" where
  "metric_json metric = result_map (\<lambda>base. JArray (base @ source_json (strategyMetricSource metric))) (metric_base metric)"

definition predicate_json :: "strategy_metric \<Rightarrow> string \<Rightarrow> strategy_value \<Rightarrow> strategy_error + json" where
  "predicate_json metric operator input =
     result_map (\<lambda>m. JArray [m, JString operator, value_json input]) (metric_json metric)"

definition condition_json :: "strategy_condition \<Rightarrow> strategy_error + json" where
  "condition_json c = predicate_json (condition_metric c) (condition_operator_text (condition_operator c)) (condition_value c)"

definition trigger_json :: "strategy_trigger \<Rightarrow> strategy_error + json" where
  "trigger_json t = predicate_json (trigger_metric t) (trigger_operator_text (trigger_operator t)) (trigger_value t)"

definition signalFingerprintValue :: "strategy_signal \<Rightarrow> strategy_error + json" where
  "signalFingerprintValue signal =
     result_bind (result_all condition_json (conditions signal)) (\<lambda>cs.
     result_map (\<lambda>t. JArray [JArray cs, t])
       (case trigger signal of None \<Rightarrow> Inr JNull | Some t \<Rightarrow> trigger_json t))"

definition finalExitFingerprintValue :: "strategy_final_exit \<Rightarrow> strategy_error + json" where
  "finalExitFingerprintValue exit =
     result_map (\<lambda>rules. case rules of [rule] \<Rightarrow> rule | _ \<Rightarrow> JArray [JString ''OR'', JArray rules])
       (result_all (\<lambda>rule. signalFingerprintValue (rule_signal rule)) (exit_rules exit))"

definition strategySignalFingerprint :: "strategy_signal \<Rightarrow> strategy_error + string" where
  "strategySignalFingerprint signal = result_map JSON_stringify (signalFingerprintValue signal)"

definition strategyFinalExitFingerprint :: "strategy_final_exit \<Rightarrow> strategy_error + string" where
  "strategyFinalExitFingerprint exit = result_map JSON_stringify (finalExitFingerprintValue exit)"

definition STRATEGY_FINGERPRINT_VERSION :: nat where "STRATEGY_FINGERPRINT_VERSION = 1"

definition level_json :: "strategy_level \<Rightarrow> strategy_error + json" where
  "level_json level =
     result_map (\<lambda>signal. JArray [nat_json (percentage level), signal]) (signalFingerprintValue (level_signal level))"

definition definition_json :: "strategy_definition \<Rightarrow> strategy_error + json" where
  "definition_json definition =
     result_bind (result_all level_json (buyLevels definition)) (\<lambda>buys.
     result_bind (result_all level_json (sellLevels definition)) (\<lambda>sells.
     result_map (\<lambda>final. JArray [nat_json STRATEGY_FINGERPRINT_VERSION, JArray buys, JArray sells, final])
       (case finalExit definition of None \<Rightarrow> Inr JNull | Some exit \<Rightarrow> finalExitFingerprintValue exit)))"

definition strategyDefinitionFingerprint :: "strategy_definition \<Rightarrow> strategy_error + string" where
  "strategyDefinitionFingerprint definition = result_map JSON_stringify (definition_json definition)"

subsection \<open>Rows and their ids\<close>

definition signal_ids :: "strategy_signal \<Rightarrow> string list" where
  "signal_ids signal =
     map condition_id (conditions signal) @ (case trigger signal of None \<Rightarrow> [] | Some t \<Rightarrow> [trigger_id t])"

definition level_ids :: "strategy_level \<Rightarrow> string list" where
  "level_ids level = level_id level # signal_ids (level_signal level)"

definition rule_ids :: "strategy_exit_rule \<Rightarrow> string list" where
  "rule_ids rule = rule_id rule # signal_ids (rule_signal rule)"

definition row_ids :: "strategy_definition \<Rightarrow> string list" where
  "row_ids d =
     concat (map level_ids (buyLevels d)) @ concat (map level_ids (sellLevels d)) @
     (case finalExit d of None \<Rightarrow> [] | Some exit \<Rightarrow> exit_id exit # concat (map rule_ids (exit_rules exit)))"

lemma map_state_append:
  "map_state f (xs @ ys) s = (let (a, s1) = map_state f xs s; (b, s2) = map_state f ys s1 in (a @ b, s2))"
  by (induction xs arbitrary: s) (auto simp: Let_def split: prod.splits)

lemma map_state_related:
  "(\<And>x s. x \<in> set xs \<Longrightarrow> P x (fst (f x s))) \<Longrightarrow> list_all2 P xs (fst (map_state f xs s))"
  by (induction xs arbitrary: s) (simp_all add: Let_def case_prod_beta)

text \<open>The ids of what was built are what the supplier gives for the ids that were there.\<close>

lemma map_state_ids:
  assumes "\<And>x s. map_state idOf (ids x) s = (ids' (fst (f x s)), snd (f x s))"
  shows "map_state idOf (concat (map ids xs)) s = (concat (map ids' (fst (map_state f xs s))), snd (map_state f xs s))"
  using assms by (induction xs arbitrary: s) (simp_all add: map_state_append Let_def case_prod_beta)

lemma build_condition_ids:
  "map_state idOf [condition_id c] s = ([condition_id (fst (build_condition idOf c s))], snd (build_condition idOf c s))"
  by (simp add: build_condition_def Let_def case_prod_beta)

lemma build_trigger_ids:
  "map_state idOf [trigger_id t] s = ([trigger_id (fst (build_trigger idOf t s))], snd (build_trigger idOf t s))"
  by (simp add: build_trigger_def Let_def case_prod_beta)

lemma buildSignal_ids:
  "map_state idOf (signal_ids signal) s = (signal_ids (fst (buildSignal idOf signal s)), snd (buildSignal idOf signal s))"
proof -
  have cs: "map_state idOf (map condition_id cs) s = (map condition_id (fst (map_state (build_condition idOf) cs s)), snd (map_state (build_condition idOf) cs s))" for cs s
    using map_state_ids [of idOf "\<lambda>c. [condition_id c]" "\<lambda>c. [condition_id c]" "build_condition idOf" cs s, OF build_condition_ids]
    by (simp add: concat_map_singleton)
  show ?thesis
    using build_trigger_ids [of idOf]
    by (cases "trigger signal") (simp_all add: signal_ids_def buildSignal_def map_state_append cs Let_def case_prod_beta del: map_state.simps)
qed

lemma build_level_ids: "map_state idOf (level_ids level) s = (level_ids (fst (build_level idOf level s)), snd (build_level idOf level s))"
  using buildSignal_ids [of idOf "level_signal level"] by (simp add: level_ids_def build_level_def Let_def case_prod_beta)

lemma build_rule_ids: "map_state idOf (rule_ids rule) s = (rule_ids (fst (build_rule idOf rule s)), snd (build_rule idOf rule s))"
  using buildSignal_ids [of idOf "rule_signal rule"] by (simp add: rule_ids_def build_rule_def Let_def case_prod_beta)

lemma buildDefinition_ids:
  "map_state idOf (row_ids d) s = (row_ids (fst (buildDefinition idOf d s)), snd (buildDefinition idOf d s))"
proof -
  note levels = map_state_ids [of idOf level_ids level_ids "build_level idOf", OF build_level_ids]
  note rules = map_state_ids [of idOf rule_ids rule_ids "build_rule idOf", OF build_rule_ids]
  show ?thesis
    by (cases "finalExit d") (simp_all add: row_ids_def buildDefinition_def map_state_append levels rules Let_def case_prod_beta)
qed

lemma next_ids: "map_state (next_id nextId) xs n = (map nextId [n..<n + length xs], n + length xs)"
  by (induction xs arbitrary: n) (simp_all add: next_id_def upt_rec)

lemma kept_ids: "map_state keepRowId xs s = (xs, s)"
  by (induction xs arbitrary: s) (simp_all add: keepRowId_def)

subsection \<open>Building keeps the fingerprint\<close>

text \<open>Filters without repetitions, as validation demands.\<close>

fun filters_distinct :: "strategy_metric \<Rightarrow> bool" where
  "filters_distinct (ALTERNATIVE_DATA (INSIDER_ACTIVITY m)) \<longleftrightarrow> (case insider_roles m of None \<Rightarrow> True | Some roles \<Rightarrow> distinct roles)"
| "filters_distinct (ALTERNATIVE_DATA (CONGRESS_ACTIVITY m)) \<longleftrightarrow> (case congress_owners m of None \<Rightarrow> True | Some owners \<Rightarrow> distinct owners)"
| "filters_distinct _ \<longleftrightarrow> True"

lemma built_filter_signature:
  assumes "distinct order" "set order = UNIV" "case xs of None \<Rightarrow> True | Some ys \<Rightarrow> distinct ys"
  shows "filter_signature order label (map_option (\<lambda>ys. filter (\<lambda>v. v \<in> set ys) order) xs) = filter_signature order label xs"
proof (cases xs)
  case (Some ys)
  have "sort_by_index order (filter (\<lambda>v. v \<in> set ys) order) = sort_by_index order ys"
    using assms Some by (simp add: sort_by_index_filter)
  then show ?thesis by (simp add: filter_signature_def Some)
qed (simp add: filter_signature_def)

lemma built_scope: "fingerprint_scope (canonical_scope scope) = fingerprint_scope scope"
proof -
  have "canonicalActorIds [a] = [a]" for a by (simp add: canonicalActorIds_def sorted_unique_def)
  then show ?thesis
    by (cases scope) (simp_all add: fingerprint_scope_def scopeSignature_def canonicalActorIds_idem)
qed

lemma built_metric_json: "filters_distinct m \<Longrightarrow> metric_json (buildMetric m) = metric_json m"
proof (induction m rule: filters_distinct.induct)
  case (1 m)
  have "filter_signature INSIDER_ROLES role_text (map_option (\<lambda>roles. filter (\<lambda>r. r \<in> set roles) INSIDER_ROLES) (insider_roles m)) =
      filter_signature INSIDER_ROLES role_text (insider_roles m)"
    using 1 by (intro built_filter_signature enumerations_distinct enumerations_complete) simp
  then show ?case by (simp add: metric_json_def alternativeDataMetricFingerprint_def)
next
  case (2 m)
  have "filter_signature CONGRESS_OWNERS owner_text (map_option (\<lambda>owners. filter (\<lambda>r. r \<in> set owners) CONGRESS_OWNERS) (congress_owners m)) =
      filter_signature CONGRESS_OWNERS owner_text (congress_owners m)"
    using 2 by (intro built_filter_signature enumerations_distinct enumerations_complete) simp
  then show ?case
    by (cases "fingerprint_scope (congress_scope m)") (simp_all add: metric_json_def alternativeDataMetricFingerprint_def built_scope)
qed simp_all

definition signal_filters :: "strategy_signal \<Rightarrow> bool" where
  "signal_filters signal \<longleftrightarrow> (\<forall>p \<in> set (signal_predicates signal). filters_distinct (predicate_metric p))"

lemma signal_filters_conditions: "signal_filters signal \<Longrightarrow> c \<in> set (conditions signal) \<Longrightarrow> filters_distinct (condition_metric c)"
  by (force simp: signal_filters_def signal_predicates_def)

lemma result_all_related:
  "list_all2 (\<lambda>x y. f y = g x) xs ys \<Longrightarrow> result_all f ys = result_all g xs"
  by (induction rule: list_all2_induct) simp_all

lemma built_signal_json:
  assumes "signal_filters signal"
  shows "signalFingerprintValue (fst (buildSignal idOf signal s)) = signalFingerprintValue signal"
proof -
  have condition: "condition_json (fst (build_condition idOf c s)) = condition_json c" if "filters_distinct (condition_metric c)" for c s
    using built_metric_json [OF that]
    by (simp add: build_condition_def condition_json_def predicate_json_def buildValue_def Let_def case_prod_beta)
  have trig: "trigger_json (fst (build_trigger idOf t s)) = trigger_json t" if "filters_distinct (trigger_metric t)" for t s
    using built_metric_json [OF that]
    by (simp add: build_trigger_def trigger_json_def predicate_json_def buildValue_def Let_def case_prod_beta)
  have "result_all condition_json (fst (map_state (build_condition idOf) (conditions signal) s)) = result_all condition_json (conditions signal)"
    using signal_filters_conditions [OF assms] by (intro result_all_related map_state_related condition)
  then show ?thesis
    using assms trig
    by (cases "trigger signal") (simp_all add: buildSignal_def signalFingerprintValue_def signal_filters_def signal_predicates_def Let_def case_prod_beta)
qed

lemma built_definition_json:
  assumes "\<forall>signal \<in> set (definition_signals d). signal_filters signal"
  shows "definition_json (fst (buildDefinition idOf d s)) = definition_json d"
proof -
  have level: "level_json (fst (build_level idOf level s)) = level_json level" if "signal_filters (level_signal level)" for level s
    by (simp add: build_level_def level_json_def Let_def case_prod_beta built_signal_json [OF that])
  have rule: "signalFingerprintValue (rule_signal (fst (build_rule idOf rule s))) = signalFingerprintValue (rule_signal rule)"
    if "signal_filters (rule_signal rule)" for rule s
    by (simp add: build_rule_def Let_def case_prod_beta built_signal_json [OF that])
  have levels: "result_all level_json (fst (map_state (build_level idOf) levels s)) = result_all level_json levels"
    if "set levels \<subseteq> set (buyLevels d) \<union> set (sellLevels d)" for levels s
    using that assms level by (intro result_all_related map_state_related) (auto simp: definition_signals_def)
  have rules: "result_all (\<lambda>rule. signalFingerprintValue (rule_signal rule)) (fst (map_state (build_rule idOf) (exit_rules exit) s)) =
      result_all (\<lambda>rule. signalFingerprintValue (rule_signal rule)) (exit_rules exit)"
    if "finalExit d = Some exit" for exit s
    using that assms rule by (intro result_all_related map_state_related) (auto simp: definition_signals_def final_exit_rules_def)
  show ?thesis
    by (cases "finalExit d")
      (simp_all add: buildDefinition_def definition_json_def finalExitFingerprintValue_def levels rules Let_def case_prod_beta)
qed

text \<open>
  C0. A copy with new ids keeps the logic: re-keying a definition, and rebuilding it for storage, leave its
  fingerprint as it was; the copy's ids are the supplied ones, one per row in document order, and the
  rebuilt document's ids are the original's.
\<close>

theorem rekey_keeps_fingerprint:
  assumes "\<forall>signal \<in> set (definition_signals d). signal_filters signal"
  shows "strategyDefinitionFingerprint (rekeyStrategyDefinition d nextId) = strategyDefinitionFingerprint d
    \<and> row_ids (rekeyStrategyDefinition d nextId) = map nextId [0..<length (row_ids d)]
    \<and> strategyDefinitionFingerprint (canonical_definition d) = strategyDefinitionFingerprint d
    \<and> row_ids (canonical_definition d) = row_ids d"
proof -
  have "row_ids (rekeyStrategyDefinition d nextId) = map nextId [0..<length (row_ids d)]"
    using arg_cong [OF buildDefinition_ids [of "next_id nextId" d 0], of fst] by (simp add: next_ids rekeyStrategyDefinition_def)
  moreover have "row_ids (canonical_definition d) = row_ids d"
    using buildDefinition_ids [of keepRowId d "()"] by (simp add: kept_ids canonical_definition_def)
  ultimately show ?thesis
    by (simp add: strategyDefinitionFingerprint_def rekeyStrategyDefinition_def canonical_definition_def
        built_definition_json [OF assms])
qed

text \<open>A document with a row of each kind; \<open>period\<close> is the period of its relative volume.\<close>

definition sample_strategy :: "nat \<Rightarrow> strategy_definition" where
  "sample_strategy period = \<lparr>schemaVersion = 1,
     buyLevels = [\<lparr>level_id = ''a'', level_signal =
       \<lparr>conditions = [\<lparr>condition_id = ''b'', condition_metric = RELATIVE_VOLUME period (Some (ETF ''XLK'')),
          condition_operator = IS_ABOVE, condition_value = MULTIPLE (Fin 2)\<rparr>],
        trigger = Some \<lparr>trigger_id = ''c'', trigger_metric = ALTERNATIVE_DATA (INSIDER_ACTIVITY
            \<lparr>insider_measure = ''BUYERS'', insider_lookback = 20, insider_roles = Some [OFFICER, DIRECTOR]\<rparr>),
          trigger_operator = CROSSES_ABOVE, trigger_value = NUMBER (Fin 1)\<rparr>\<rparr>, percentage = 50\<rparr>],
     sellLevels = [],
     finalExit = Some \<lparr>exit_id = ''d'', exit_rules = [\<lparr>rule_id = ''e'', rule_signal =
       \<lparr>conditions = [\<lparr>condition_id = ''f'', condition_metric = LOSS, condition_operator = IS_ABOVE,
          condition_value = PERCENT (Fin 10)\<rparr>], trigger = None\<rparr>\<rparr>]\<rparr>\<rparr>"

lemma rekey_keeps_fingerprint_witness:
  "strategyDefinitionFingerprint (rekeyStrategyDefinition (sample_strategy 10) (\<lambda>n. ''r'' @ string_of_nat n)) =
     strategyDefinitionFingerprint (sample_strategy 10)
   \<and> row_ids (rekeyStrategyDefinition (sample_strategy 10) (\<lambda>n. ''r'' @ string_of_nat n)) =
     [''r0'', ''r1'', ''r2'', ''r3'', ''r4'', ''r5'']"
proof -
  have "\<forall>signal \<in> set (definition_signals (sample_strategy 10)). signal_filters signal"
    by (simp add: sample_strategy_def definition_signals_def final_exit_rules_def signal_filters_def signal_predicates_def)
  moreover have "map (\<lambda>n. ''r'' @ string_of_nat n) [0..<length (row_ids (sample_strategy 10))] =
      [''r0'', ''r1'', ''r2'', ''r3'', ''r4'', ''r5'']"
    by code_simp
  ultimately show ?thesis
    using rekey_keeps_fingerprint [of "sample_strategy 10" "\<lambda>n. ''r'' @ string_of_nat n"] by simp
qed

subsection \<open>What a fingerprint identifies\<close>

text \<open>
  The same logic: the same rows in the same order under whatever ids. Alternative-data metrics agree
  when their own fingerprints do, operators when they are written the same.
\<close>

fun same_metric :: "strategy_metric \<Rightarrow> strategy_metric \<Rightarrow> bool" where
  "same_metric (ALTERNATIVE_DATA m) (ALTERNATIVE_DATA m') \<longleftrightarrow>
     alternative_kind m = alternative_kind m' \<and> alternativeDataMetricFingerprint m = alternativeDataMetricFingerprint m'"
| "same_metric m m' \<longleftrightarrow> m = m'"

definition same_condition :: "strategy_condition \<Rightarrow> strategy_condition \<Rightarrow> bool" where
  "same_condition c c' \<longleftrightarrow> same_metric (condition_metric c) (condition_metric c')
     \<and> condition_operator_text (condition_operator c) = condition_operator_text (condition_operator c')
     \<and> condition_value c = condition_value c'"

definition same_trigger :: "strategy_trigger \<Rightarrow> strategy_trigger \<Rightarrow> bool" where
  "same_trigger t t' \<longleftrightarrow> same_metric (trigger_metric t) (trigger_metric t')
     \<and> trigger_operator_text (trigger_operator t) = trigger_operator_text (trigger_operator t')
     \<and> trigger_value t = trigger_value t'"

definition same_signal :: "strategy_signal \<Rightarrow> strategy_signal \<Rightarrow> bool" where
  "same_signal s s' \<longleftrightarrow> list_all2 same_condition (conditions s) (conditions s')
     \<and> rel_option same_trigger (trigger s) (trigger s')"

definition same_level :: "strategy_level \<Rightarrow> strategy_level \<Rightarrow> bool" where
  "same_level l l' \<longleftrightarrow> percentage l = percentage l' \<and> same_signal (level_signal l) (level_signal l')"

definition same_exit :: "strategy_final_exit \<Rightarrow> strategy_final_exit \<Rightarrow> bool" where
  "same_exit e e' \<longleftrightarrow> list_all2 (\<lambda>r r'. same_signal (rule_signal r) (rule_signal r')) (exit_rules e) (exit_rules e')"

definition same_logic :: "strategy_definition \<Rightarrow> strategy_definition \<Rightarrow> bool" where
  "same_logic d d' \<longleftrightarrow> list_all2 same_level (buyLevels d) (buyLevels d')
     \<and> list_all2 same_level (sellLevels d) (sellLevels d') \<and> rel_option same_exit (finalExit d) (finalExit d')"

text \<open>Numbers a document can hold: doubles, and whole numbers a double holds exactly.\<close>

fun value_numbers :: "strategy_value \<Rightarrow> bool" where
  "value_numbers (SERIES _) \<longleftrightarrow> True"
| "value_numbers (NUMBER n) \<longleftrightarrow> json_ok (JNumber n)"
| "value_numbers (PERCENT n) \<longleftrightarrow> json_ok (JNumber n)"
| "value_numbers (MULTIPLE n) \<longleftrightarrow> json_ok (JNumber n)"
| "value_numbers (MONEY_VALUE n) \<longleftrightarrow> json_ok (JNumber n)"

fun metric_numbers :: "strategy_metric \<Rightarrow> bool" where
  "metric_numbers (RELATIVE_VOLUME period _) \<longleftrightarrow> period \<le> 2 ^ 53"
| "metric_numbers _ \<longleftrightarrow> True"

definition signal_numbers :: "strategy_signal \<Rightarrow> bool" where
  "signal_numbers signal \<longleftrightarrow>
     (\<forall>p \<in> set (signal_predicates signal). metric_numbers (predicate_metric p) \<and> value_numbers (predicate_value p))"

definition definition_numbers :: "strategy_definition \<Rightarrow> bool" where
  "definition_numbers d \<longleftrightarrow> (\<forall>signal \<in> set (definition_signals d). signal_numbers signal)
     \<and> (\<forall>level \<in> set (buyLevels d) \<union> set (sellLevels d). percentage level \<le> 2 ^ 53)"

lemma nat_json_ok: "n \<le> 2 ^ 53 \<Longrightarrow> json_ok (nat_json n)"
  by (simp add: nat_json_def binary64_nat)

lemma nat_json_inj [simp]: "nat_json m = nat_json n \<longleftrightarrow> m = n"
  by (simp add: nat_json_def)

lemma value_json_ok: "value_numbers v \<Longrightarrow> json_ok (value_json v)"
  by (cases v) auto

lemma value_json_inj: "value_json v = value_json w \<longleftrightarrow> v = w"
  by (cases v; cases w) auto

lemma metric_base_ok: "metric_base m = Inr js \<Longrightarrow> metric_numbers m \<Longrightarrow> \<forall>j \<in> set js. json_ok j"
  by (induction m rule: metric_base.induct) (auto simp: result_map_Inr_iff nat_json_ok)

lemma metric_json_ok: "metric_json m = Inr j \<Longrightarrow> metric_numbers m \<Longrightarrow> json_ok j"
  by (cases "strategyMetricSource m" rule: source_json.cases) (auto simp: metric_json_def result_map_Inr_iff dest: metric_base_ok)

lemma source_json_inj: "source_json s = source_json t \<longleftrightarrow> s = t"
  by (cases s rule: source_json.cases; cases t rule: source_json.cases) auto

lemma alternative_kind_other:
  "alternative_kind a \<noteq> ''PRICE''" "alternative_kind a \<noteq> ''RELATIVE_VOLUME''"
  "alternative_kind a \<noteq> ''VALUATION_RATIO''" "alternative_kind a \<noteq> ''FUNDAMENTAL''"
  by (cases a; simp)+

lemma metric_json_inj:
  assumes "metric_json m = Inr j" "metric_json m' = Inr j'"
  shows "j = j' \<longleftrightarrow> same_metric m m'"
proof -
  have sources: "x # source_json s = [y] \<longleftrightarrow> x = y \<and> s = None" "[y] = x # source_json s \<longleftrightarrow> x = y \<and> s = None" for x y s
    by (cases s rule: source_json.cases; auto)+
  show ?thesis
    using assms by (cases m; cases m')
      (auto simp: metric_json_def result_map_Inr_iff source_json_inj sources alternative_kind_other alternative_kind_other [symmetric])
qed

lemma predicate_json_inj:
  assumes "predicate_json m operator v = Inr j" "predicate_json m' operator' v' = Inr j'"
  shows "j = j' \<longleftrightarrow> same_metric m m' \<and> operator = operator' \<and> v = v'"
  using assms metric_json_inj [of m _ m']
  by (auto simp: predicate_json_def result_map_Inr_iff value_json_inj)

lemma predicate_json_ok:
  "predicate_json m operator v = Inr j \<Longrightarrow> metric_numbers m \<Longrightarrow> value_numbers v \<Longrightarrow> json_ok j"
  by (auto simp: predicate_json_def result_map_Inr_iff value_json_ok metric_json_ok)

text \<open>Two lists serialize alike exactly when they are related row by row.\<close>

lemma result_all_inj:
  assumes "\<And>x y j k. x \<in> set xs \<Longrightarrow> f x = Inr j \<Longrightarrow> f y = Inr k \<Longrightarrow> j = k \<longleftrightarrow> R x y"
    and "result_all f xs = Inr js" "result_all f ys = Inr ks"
  shows "js = ks \<longleftrightarrow> list_all2 R xs ys"
  using assms
proof (induction xs arbitrary: ys js ks)
  case Nil
  then show ?case by (cases ys) (auto simp: result_bind_Inr_iff)
next
  case (Cons x xs)
  then obtain j js' where j: "f x = Inr j" "result_all f xs = Inr js'" "js = j # js'" by (auto simp: result_bind_Inr_iff)
  show ?case
  proof (cases ys)
    case Nil
    then show ?thesis using Cons.prems(3) j by simp
  next
    case (Cons y ys')
    then obtain k ks' where k: "f y = Inr k" "result_all f ys' = Inr ks'" "ks = k # ks'"
      using Cons.prems(3) by (auto simp: result_bind_Inr_iff)
    have "j = k \<longleftrightarrow> R x y" using Cons.prems(1) j(1) k(1) by simp
    moreover have "js' = ks' \<longleftrightarrow> list_all2 R xs ys'" using Cons.prems(1) j(2) k(2) by (intro Cons.IH) simp_all
    ultimately show ?thesis using Cons j(3) k(3) by simp
  qed
qed

lemma result_all_ok:
  "result_all f xs = Inr js \<Longrightarrow> (\<And>x j. x \<in> set xs \<Longrightarrow> f x = Inr j \<Longrightarrow> json_ok j) \<Longrightarrow> \<forall>j \<in> set js. json_ok j"
  by (auto simp: result_all_set)

lemma signal_json_inj:
  assumes "signalFingerprintValue s = Inr j" "signalFingerprintValue s' = Inr j'"
  shows "j = j' \<longleftrightarrow> same_signal s s'"
proof -
  obtain cs t where s: "result_all condition_json (conditions s) = Inr cs" "j = JArray [JArray cs, t]"
    "(case trigger s of None \<Rightarrow> Inr JNull | Some t \<Rightarrow> trigger_json t) = Inr t"
    using assms(1) by (auto simp: signalFingerprintValue_def result_bind_Inr_iff result_map_Inr_iff)
  obtain cs' t' where s': "result_all condition_json (conditions s') = Inr cs'" "j' = JArray [JArray cs', t']"
    "(case trigger s' of None \<Rightarrow> Inr JNull | Some t \<Rightarrow> trigger_json t) = Inr t'"
    using assms(2) by (auto simp: signalFingerprintValue_def result_bind_Inr_iff result_map_Inr_iff)
  have cs: "cs = cs' \<longleftrightarrow> list_all2 same_condition (conditions s) (conditions s')"
    using s(1) s'(1) by (rule result_all_inj [rotated]) (simp add: condition_json_def same_condition_def predicate_json_inj)
  have row: "trigger_json t \<noteq> Inr JNull" for t by (auto simp: trigger_json_def predicate_json_def result_map_Inr_iff)
  have "t = t' \<longleftrightarrow> rel_option same_trigger (trigger s) (trigger s')"
    using s(3) s'(3) row by (cases "trigger s"; cases "trigger s'")
      (auto simp: trigger_json_def same_trigger_def predicate_json_inj)
  then show ?thesis using cs s(2) s'(2) by (simp add: same_signal_def)
qed

lemma signal_json_ok:
  assumes "signalFingerprintValue s = Inr j" "signal_numbers s"
  shows "json_ok j"
proof -
  obtain cs t where s: "result_all condition_json (conditions s) = Inr cs" "j = JArray [JArray cs, t]"
    "(case trigger s of None \<Rightarrow> Inr JNull | Some t \<Rightarrow> trigger_json t) = Inr t"
    using assms(1) by (auto simp: signalFingerprintValue_def result_bind_Inr_iff result_map_Inr_iff)
  have row: "metric_numbers (condition_metric c) \<and> value_numbers (condition_value c)" if "c \<in> set (conditions s)" for c
    using assms(2) that by (force simp: signal_numbers_def signal_predicates_def)
  have "\<forall>j \<in> set cs. json_ok j" using s(1) by (rule result_all_ok) (auto simp: condition_json_def dest: row intro: predicate_json_ok)
  moreover have "json_ok t"
    using s(3) assms(2) by (cases "trigger s")
      (auto simp: signal_numbers_def signal_predicates_def trigger_json_def intro: predicate_json_ok)
  ultimately show ?thesis using s(2) by simp
qed

lemma exit_json_inj:
  assumes "finalExitFingerprintValue e = Inr j" "finalExitFingerprintValue e' = Inr j'"
  shows "j = j' \<longleftrightarrow> same_exit e e'"
proof -
  define f where "f rs = (case rs of [rule] \<Rightarrow> rule | _ \<Rightarrow> JArray [JString ''OR'', JArray rs])" for rs
  obtain rs where e: "result_all (\<lambda>rule. signalFingerprintValue (rule_signal rule)) (exit_rules e) = Inr rs" "j = f rs"
    using assms(1) by (auto simp: finalExitFingerprintValue_def result_map_Inr_iff f_def)
  obtain rs' where e': "result_all (\<lambda>rule. signalFingerprintValue (rule_signal rule)) (exit_rules e') = Inr rs'" "j' = f rs'"
    using assms(2) by (auto simp: finalExitFingerprintValue_def result_map_Inr_iff f_def)
  have rule: "\<exists>cs t. r = JArray [JArray cs, t]" if "r \<in> set rs \<union> set rs'" for r
    using that result_all_set [OF e(1)] result_all_set [OF e'(1)]
    by (auto simp: signalFingerprintValue_def result_bind_Inr_iff result_map_Inr_iff)
  have "f rs = f rs' \<longleftrightarrow> rs = rs'"
    using rule unfolding f_def by (cases rs rule: remdups_adj.cases; cases rs' rule: remdups_adj.cases) force+
  moreover have "rs = rs' \<longleftrightarrow> same_exit e e'"
    unfolding same_exit_def using e(1) e'(1) by (rule result_all_inj [rotated]) (rule signal_json_inj)
  ultimately show ?thesis using e(2) e'(2) by simp
qed

lemma exit_json_ok:
  assumes "finalExitFingerprintValue e = Inr j" "\<And>r. r \<in> set (exit_rules e) \<Longrightarrow> signal_numbers (rule_signal r)"
  shows "json_ok j"
proof -
  obtain rs where e: "result_all (\<lambda>rule. signalFingerprintValue (rule_signal rule)) (exit_rules e) = Inr rs"
    "j = (case rs of [rule] \<Rightarrow> rule | _ \<Rightarrow> JArray [JString ''OR'', JArray rs])"
    using assms(1) by (auto simp: finalExitFingerprintValue_def result_map_Inr_iff)
  have "\<forall>j \<in> set rs. json_ok j" using e(1) by (rule result_all_ok) (use assms(2) signal_json_ok in blast)
  then show ?thesis unfolding e(2) by (auto split: list.split)
qed

lemma levels_json_inj:
  assumes "result_all level_json ls = Inr js" "result_all level_json ls' = Inr ks"
  shows "js = ks \<longleftrightarrow> list_all2 same_level ls ls'"
  using assms by (rule result_all_inj [rotated]) (auto simp: level_json_def same_level_def result_map_Inr_iff signal_json_inj
      dest: signal_json_inj [THEN iffD1, OF _ _ refl])

lemma levels_json_ok:
  assumes "result_all level_json ls = Inr js" "\<And>l. l \<in> set ls \<Longrightarrow> percentage l \<le> 2 ^ 53 \<and> signal_numbers (level_signal l)"
  shows "\<forall>j \<in> set js. json_ok j"
  using assms(1) by (rule result_all_ok) (auto simp: level_json_def result_map_Inr_iff nat_json_ok dest!: assms(2) intro: signal_json_ok)

lemma definition_json_inj:
  assumes "definition_json d = Inr j" "definition_json d' = Inr j'"
  shows "j = j' \<longleftrightarrow> same_logic d d'"
proof -
  define final where "final x = (case finalExit x of None \<Rightarrow> Inr JNull | Some exit \<Rightarrow> finalExitFingerprintValue exit)" for x :: strategy_definition
  obtain bs ss f where d: "result_all level_json (buyLevels d) = Inr bs" "result_all level_json (sellLevels d) = Inr ss"
    "final d = Inr f" "j = JArray [nat_json STRATEGY_FINGERPRINT_VERSION, JArray bs, JArray ss, f]"
    using assms(1) by (auto simp: definition_json_def result_bind_Inr_iff result_map_Inr_iff final_def)
  obtain bs' ss' f' where d': "result_all level_json (buyLevels d') = Inr bs'" "result_all level_json (sellLevels d') = Inr ss'"
    "final d' = Inr f'" "j' = JArray [nat_json STRATEGY_FINGERPRINT_VERSION, JArray bs', JArray ss', f']"
    using assms(2) by (auto simp: definition_json_def result_bind_Inr_iff result_map_Inr_iff final_def)
  have exit: "finalExitFingerprintValue e \<noteq> Inr JNull" for e
    by (auto simp: finalExitFingerprintValue_def result_map_Inr_iff result_bind_Inr_iff signalFingerprintValue_def split: list.splits
        dest!: result_all_set)
  have "f = f' \<longleftrightarrow> rel_option same_exit (finalExit d) (finalExit d')"
    using d(3) d'(3) exit unfolding final_def by (cases "finalExit d"; cases "finalExit d'") (auto simp: exit_json_inj)
  then show ?thesis
    using levels_json_inj [OF d(1) d'(1)] levels_json_inj [OF d(2) d'(2)] d(4) d'(4) by (simp add: same_logic_def)
qed

lemma definition_json_ok:
  assumes "definition_json d = Inr j" "definition_numbers d"
  shows "json_ok j"
proof -
  obtain bs ss f where d: "result_all level_json (buyLevels d) = Inr bs" "result_all level_json (sellLevels d) = Inr ss"
    "(case finalExit d of None \<Rightarrow> Inr JNull | Some exit \<Rightarrow> finalExitFingerprintValue exit) = Inr f"
    "j = JArray [nat_json STRATEGY_FINGERPRINT_VERSION, JArray bs, JArray ss, f]"
    using assms(1) by (auto simp: definition_json_def result_bind_Inr_iff result_map_Inr_iff)
  have numbers: "\<And>l. l \<in> set (buyLevels d) \<union> set (sellLevels d) \<Longrightarrow> percentage l \<le> 2 ^ 53 \<and> signal_numbers (level_signal l)"
    "\<And>e r. finalExit d = Some e \<Longrightarrow> r \<in> set (exit_rules e) \<Longrightarrow> signal_numbers (rule_signal r)"
    using assms(2) by (auto simp: definition_numbers_def definition_signals_def final_exit_rules_def)
  have "json_ok f" using d(3) numbers(2) by (cases "finalExit d") (auto intro: exit_json_ok)
  moreover have "\<forall>j \<in> set bs. json_ok j" "\<forall>j \<in> set ss. json_ok j"
    using levels_json_ok [OF d(1)] levels_json_ok [OF d(2)] numbers(1) by simp_all
  ultimately show ?thesis using d(4) by (simp add: nat_json_ok STRATEGY_FINGERPRINT_VERSION_def del: json_ok.simps(1))
qed

text \<open>
  C0. The fingerprint identifies the logic: two definitions whose numbers are doubles have the same
  fingerprint text exactly when they hold the same rows in the same order, whatever their ids.
\<close>

theorem fingerprint_identifies_logic:
  assumes "definition_numbers d" "definition_numbers d'"
    and "strategyDefinitionFingerprint d = Inr text" "strategyDefinitionFingerprint d' = Inr text'"
  shows "text = text' \<longleftrightarrow> same_logic d d'"
proof -
  obtain j j' where j: "definition_json d = Inr j" "text = JSON_stringify j" "definition_json d' = Inr j'" "text' = JSON_stringify j'"
    using assms(3,4) by (auto simp: strategyDefinitionFingerprint_def result_map_Inr_iff)
  have "text = text' \<longleftrightarrow> j = j'"
    using JSON_stringify_inj definition_json_ok [OF j(1) assms(1)] definition_json_ok [OF j(3) assms(2)] j(2,4) by blast
  then show ?thesis using definition_json_inj [OF j(1,3)] by simp
qed

lemma fingerprint_identifies_logic_witness:
  "\<exists>t t'. strategyDefinitionFingerprint (sample_strategy 10) = Inr t \<and> strategyDefinitionFingerprint (sample_strategy 20) = Inr t'
    \<and> t \<noteq> t'"
proof -
  have numbers: "definition_numbers (sample_strategy n)" if "n \<le> 20" for n
  proof -
    have "binary64 2 = Fin 2" "binary64 1 = Fin 1" "binary64 10 = Fin 10"
      using binary64_nat [of 2] binary64_nat [of 1] binary64_nat [of 10] by simp_all
    then show ?thesis using that
      by (simp add: sample_strategy_def definition_numbers_def definition_signals_def final_exit_rules_def signal_numbers_def
          signal_predicates_def)
  qed
  have fingerprint: "\<exists>t. strategyDefinitionFingerprint (sample_strategy n) = Inr t" for n
    by (simp add: sample_strategy_def strategyDefinitionFingerprint_def definition_json_def level_json_def
        finalExitFingerprintValue_def signalFingerprintValue_def condition_json_def trigger_json_def predicate_json_def
        metric_json_def alternativeDataMetricFingerprint_def)
  obtain t t' where t: "strategyDefinitionFingerprint (sample_strategy 10) = Inr t"
    "strategyDefinitionFingerprint (sample_strategy 20) = Inr t'"
    using fingerprint by metis
  have "\<not> same_logic (sample_strategy 10) (sample_strategy 20)"
    by (simp add: sample_strategy_def same_logic_def same_level_def same_signal_def same_condition_def)
  then have "t \<noteq> t'"
    using fingerprint_identifies_logic [OF numbers numbers t] by simp
  then show ?thesis using t by blast
qed

end
