(* ===== verification/StrategyRules.thy ===== *)
theory StrategyRules
  imports Strategies JsMath
begin

section \<open>What a strategy row may say\<close>

text \<open>
  The registry of strategy metrics of \<open>packages/contracts/src/strategies.ts\<close>: where each kind of metric
  may appear, the operators it takes, the domain of its value, the row a new rule starts from, and the
  menus a level offers. Labels and explanations are presentation and left out.
\<close>

subsection \<open>Levels, kinds and categories\<close>

datatype level_kind = BUY_KIND | SELL_KIND | FINAL_EXIT_KIND

definition STRATEGY_LEVEL_KINDS :: "level_kind list" where
  "STRATEGY_LEVEL_KINDS = [BUY_KIND, SELL_KIND, FINAL_EXIT_KIND]"

definition POSITION_LEVEL_KINDS :: "level_kind list" where
  "POSITION_LEVEL_KINDS = [SELL_KIND, FINAL_EXIT_KIND]"

definition BUY_LEVEL_PERCENTAGES :: "nat list" where
  "BUY_LEVEL_PERCENTAGES = [25, 50, 75, 100]"

definition SELL_LEVEL_PERCENTAGES :: "nat list" where
  "SELL_LEVEL_PERCENTAGES = [25, 50, 75]"

datatype strategy_metric_kind =
  PRICE_KIND | MOVING_AVERAGE_KIND | OSCILLATOR_KIND | RELATIVE_VOLUME_KIND | MARGIN_OF_SAFETY_KIND
| VALUATION_RATIO_KIND | FUNDAMENTAL_KIND | GAIN_KIND | LOSS_KIND | ALTERNATIVE_KIND metric_kind

definition STRATEGY_METRIC_KINDS :: "strategy_metric_kind list" where
  "STRATEGY_METRIC_KINDS =
     [PRICE_KIND, MOVING_AVERAGE_KIND, OSCILLATOR_KIND, RELATIVE_VOLUME_KIND, MARGIN_OF_SAFETY_KIND,
      VALUATION_RATIO_KIND, FUNDAMENTAL_KIND, GAIN_KIND, LOSS_KIND,
      ALTERNATIVE_KIND INSIDER_ACTIVITY_KIND, ALTERNATIVE_KIND CONGRESS_ACTIVITY_KIND]"

definition ETF_COMPATIBLE_METRIC_KINDS :: "strategy_metric_kind list" where
  "ETF_COMPATIBLE_METRIC_KINDS = [PRICE_KIND, MOVING_AVERAGE_KIND, OSCILLATOR_KIND, RELATIVE_VOLUME_KIND]"

fun strategy_kind_text :: "strategy_metric_kind \<Rightarrow> string" where
  "strategy_kind_text PRICE_KIND = ''PRICE''"
| "strategy_kind_text MOVING_AVERAGE_KIND = ''MOVING_AVERAGE''"
| "strategy_kind_text OSCILLATOR_KIND = ''OSCILLATOR''"
| "strategy_kind_text RELATIVE_VOLUME_KIND = ''RELATIVE_VOLUME''"
| "strategy_kind_text MARGIN_OF_SAFETY_KIND = ''MARGIN_OF_SAFETY''"
| "strategy_kind_text VALUATION_RATIO_KIND = ''VALUATION_RATIO''"
| "strategy_kind_text FUNDAMENTAL_KIND = ''FUNDAMENTAL''"
| "strategy_kind_text GAIN_KIND = ''GAIN''"
| "strategy_kind_text LOSS_KIND = ''LOSS''"
| "strategy_kind_text (ALTERNATIVE_KIND kind) = kind_text kind"

fun alternative_metric_kind :: "alternative_metric \<Rightarrow> metric_kind" where
  "alternative_metric_kind (INSIDER_ACTIVITY _) = INSIDER_ACTIVITY_KIND"
| "alternative_metric_kind (CONGRESS_ACTIVITY _) = CONGRESS_ACTIVITY_KIND"

text \<open>\<open>metric.kind\<close>.\<close>

fun strategy_metric_kind_of :: "strategy_metric \<Rightarrow> strategy_metric_kind" where
  "strategy_metric_kind_of (PRICE _) = PRICE_KIND"
| "strategy_metric_kind_of (MOVING_AVERAGE _ _) = MOVING_AVERAGE_KIND"
| "strategy_metric_kind_of (OSCILLATOR _ _) = OSCILLATOR_KIND"
| "strategy_metric_kind_of (RELATIVE_VOLUME _ _) = RELATIVE_VOLUME_KIND"
| "strategy_metric_kind_of (MARGIN_OF_SAFETY _) = MARGIN_OF_SAFETY_KIND"
| "strategy_metric_kind_of (VALUATION_RATIO _) = VALUATION_RATIO_KIND"
| "strategy_metric_kind_of (FUNDAMENTAL _) = FUNDAMENTAL_KIND"
| "strategy_metric_kind_of GAIN = GAIN_KIND"
| "strategy_metric_kind_of LOSS = LOSS_KIND"
| "strategy_metric_kind_of (ALTERNATIVE_DATA m) = ALTERNATIVE_KIND (alternative_metric_kind m)"

datatype metric_category =
  PRICE_CATEGORY | MOVING_AVERAGES_CATEGORY | OSCILLATORS_CATEGORY | VOLUME_CATEGORY | VALUATION_CATEGORY
| FUNDAMENTALS_CATEGORY | POSITION_CATEGORY | INSIDER_ACTIVITY_CATEGORY | CONGRESSIONAL_TRADING_CATEGORY

definition STRATEGY_METRIC_CATEGORIES :: "metric_category list" where
  "STRATEGY_METRIC_CATEGORIES =
     [PRICE_CATEGORY, MOVING_AVERAGES_CATEGORY, OSCILLATORS_CATEGORY, VOLUME_CATEGORY, VALUATION_CATEGORY,
      FUNDAMENTALS_CATEGORY, POSITION_CATEGORY, INSIDER_ACTIVITY_CATEGORY, CONGRESSIONAL_TRADING_CATEGORY]"

datatype metric_family = TECHNICAL_FAMILY | FUNDAMENTALS_FAMILY | VALUATION_FAMILY | ACTIVITY_FAMILY | POSITION_FAMILY

definition STRATEGY_METRIC_FAMILIES :: "metric_family list" where
  "STRATEGY_METRIC_FAMILIES =
     [TECHNICAL_FAMILY, FUNDAMENTALS_FAMILY, VALUATION_FAMILY, ACTIVITY_FAMILY, POSITION_FAMILY]"

fun STRATEGY_METRIC_CATEGORY_FAMILIES :: "metric_category \<Rightarrow> metric_family" where
  "STRATEGY_METRIC_CATEGORY_FAMILIES VALUATION_CATEGORY = VALUATION_FAMILY"
| "STRATEGY_METRIC_CATEGORY_FAMILIES FUNDAMENTALS_CATEGORY = FUNDAMENTALS_FAMILY"
| "STRATEGY_METRIC_CATEGORY_FAMILIES POSITION_CATEGORY = POSITION_FAMILY"
| "STRATEGY_METRIC_CATEGORY_FAMILIES INSIDER_ACTIVITY_CATEGORY = ACTIVITY_FAMILY"
| "STRATEGY_METRIC_CATEGORY_FAMILIES CONGRESSIONAL_TRADING_CATEGORY = ACTIVITY_FAMILY"
| "STRATEGY_METRIC_CATEGORY_FAMILIES _ = TECHNICAL_FAMILY"

subsection \<open>The registry\<close>

datatype value_spec =
  SeriesSpec "string list"
| NumberSpec (number_min: jsnum) (number_max: jsnum) (number_step: jsnum) (number_integer: bool)
| PercentSpec "jsnum option" "jsnum option"
| MultipleSpec "jsnum option" "jsnum option" jsnum
| MoneySpec jsnum "jsnum option" jsnum

datatype value_source =
  COMPARABLE_MOVING_AVERAGES | ALTERNATIVE_DATA_MEASURE | FUNDAMENTAL_METRIC | VALUATION_RATIO_ENTRY
| FixedSpec value_spec

record metric_definition =
  def_category :: metric_category
  parameterSeriesIds :: "string list option"
  conditionOperators :: "condition_operator list"
  triggerOperators :: "trigger_operator list"
  def_value :: value_source
  allowedIn :: "level_kind list"

definition catalogIds :: "selectable_series list \<Rightarrow> string list" where
  "catalogIds entries = map series_id entries"

definition CONDITION_OPERATORS :: "condition_operator list" where
  "CONDITION_OPERATORS = [IS_ABOVE, IS_BELOW, IS_CLOSE_TO]"

definition TRIGGER_OPERATORS :: "trigger_operator list" where
  "TRIGGER_OPERATORS = [CROSSES_ABOVE, CROSSES_BELOW]"

definition COMPARISON_OPERATORS :: "condition_operator list" where
  "COMPARISON_OPERATORS = [IS_ABOVE, IS_BELOW]"

definition PRICE_SCALE_CONDITION_OPERATORS :: "condition_operator list" where
  "PRICE_SCALE_CONDITION_OPERATORS = [IS_ABOVE, IS_BELOW, IS_CLOSE_TO]"

definition TENTH :: jsnum where "TENTH = binary64 (1 / 10)"

fun STRATEGY_METRIC_DEFINITIONS :: "strategy_metric_kind \<Rightarrow> metric_definition" where
  "STRATEGY_METRIC_DEFINITIONS PRICE_KIND =
     \<lparr>def_category = PRICE_CATEGORY, parameterSeriesIds = None, conditionOperators = PRICE_SCALE_CONDITION_OPERATORS,
      triggerOperators = TRIGGER_OPERATORS, def_value = FixedSpec (SeriesSpec (catalogIds PRICE_COMPARABLE_SERIES)),
      allowedIn = STRATEGY_LEVEL_KINDS\<rparr>"
| "STRATEGY_METRIC_DEFINITIONS MOVING_AVERAGE_KIND =
     \<lparr>def_category = MOVING_AVERAGES_CATEGORY, parameterSeriesIds = Some (catalogIds MOVING_AVERAGE_SERIES),
      conditionOperators = PRICE_SCALE_CONDITION_OPERATORS, triggerOperators = TRIGGER_OPERATORS,
      def_value = COMPARABLE_MOVING_AVERAGES, allowedIn = STRATEGY_LEVEL_KINDS\<rparr>"
| "STRATEGY_METRIC_DEFINITIONS OSCILLATOR_KIND =
     \<lparr>def_category = OSCILLATORS_CATEGORY, parameterSeriesIds = Some (catalogIds OSCILLATOR_SERIES),
      conditionOperators = COMPARISON_OPERATORS, triggerOperators = TRIGGER_OPERATORS,
      def_value = FixedSpec (NumberSpec (Fin 1) (Fin 100) (Fin 1) False), allowedIn = STRATEGY_LEVEL_KINDS\<rparr>"
| "STRATEGY_METRIC_DEFINITIONS RELATIVE_VOLUME_KIND =
     \<lparr>def_category = VOLUME_CATEGORY, parameterSeriesIds = None, conditionOperators = COMPARISON_OPERATORS,
      triggerOperators = [], def_value = FixedSpec (MultipleSpec (Some (Fin 0)) None TENTH),
      allowedIn = STRATEGY_LEVEL_KINDS\<rparr>"
| "STRATEGY_METRIC_DEFINITIONS MARGIN_OF_SAFETY_KIND =
     \<lparr>def_category = VALUATION_CATEGORY, parameterSeriesIds = Some (catalogIds INTRINSIC_VALUE_SERIES),
      conditionOperators = COMPARISON_OPERATORS, triggerOperators = TRIGGER_OPERATORS,
      def_value = FixedSpec (PercentSpec None (Some (Fin 100))), allowedIn = STRATEGY_LEVEL_KINDS\<rparr>"
| "STRATEGY_METRIC_DEFINITIONS VALUATION_RATIO_KIND =
     \<lparr>def_category = VALUATION_CATEGORY, parameterSeriesIds = None, conditionOperators = COMPARISON_OPERATORS,
      triggerOperators = [], def_value = VALUATION_RATIO_ENTRY, allowedIn = STRATEGY_LEVEL_KINDS\<rparr>"
| "STRATEGY_METRIC_DEFINITIONS FUNDAMENTAL_KIND =
     \<lparr>def_category = FUNDAMENTALS_CATEGORY, parameterSeriesIds = None, conditionOperators = COMPARISON_OPERATORS,
      triggerOperators = [], def_value = FUNDAMENTAL_METRIC, allowedIn = STRATEGY_LEVEL_KINDS\<rparr>"
| "STRATEGY_METRIC_DEFINITIONS GAIN_KIND =
     \<lparr>def_category = POSITION_CATEGORY, parameterSeriesIds = None, conditionOperators = COMPARISON_OPERATORS,
      triggerOperators = TRIGGER_OPERATORS, def_value = FixedSpec (PercentSpec (Some (Fin (- 100))) None),
      allowedIn = POSITION_LEVEL_KINDS\<rparr>"
| "STRATEGY_METRIC_DEFINITIONS LOSS_KIND =
     \<lparr>def_category = POSITION_CATEGORY, parameterSeriesIds = None, conditionOperators = COMPARISON_OPERATORS,
      triggerOperators = TRIGGER_OPERATORS, def_value = FixedSpec (PercentSpec (Some (Fin 0)) (Some (Fin 100))),
      allowedIn = POSITION_LEVEL_KINDS\<rparr>"
| "STRATEGY_METRIC_DEFINITIONS (ALTERNATIVE_KIND INSIDER_ACTIVITY_KIND) =
     \<lparr>def_category = INSIDER_ACTIVITY_CATEGORY, parameterSeriesIds = None, conditionOperators = COMPARISON_OPERATORS,
      triggerOperators = [], def_value = ALTERNATIVE_DATA_MEASURE, allowedIn = STRATEGY_LEVEL_KINDS\<rparr>"
| "STRATEGY_METRIC_DEFINITIONS (ALTERNATIVE_KIND CONGRESS_ACTIVITY_KIND) =
     \<lparr>def_category = CONGRESSIONAL_TRADING_CATEGORY, parameterSeriesIds = None, conditionOperators = COMPARISON_OPERATORS,
      triggerOperators = [], def_value = ALTERNATIVE_DATA_MEASURE, allowedIn = STRATEGY_LEVEL_KINDS\<rparr>"

definition strategyMetricDefinition :: "strategy_metric \<Rightarrow> metric_definition" where
  "strategyMetricDefinition metric = STRATEGY_METRIC_DEFINITIONS (strategy_metric_kind_of metric)"

definition conditionOperatorsFor :: "strategy_metric \<Rightarrow> condition_operator list" where
  "conditionOperatorsFor metric = conditionOperators (strategyMetricDefinition metric)"

definition triggerOperatorsFor :: "strategy_metric \<Rightarrow> trigger_operator list" where
  "triggerOperatorsFor metric = triggerOperators (strategyMetricDefinition metric)"

subsection \<open>The domain of a value\<close>

text \<open>
  What the validator can throw instead of reporting: a \<open>TypeError\<close> from reading a property of
  \<open>undefined\<close>, an \<open>Error\<close> raised by \<open>instantiateMetric\<close>, or an error of the metric signature.
\<close>

datatype thrown = TypeError | NotParameterized | SignatureError strategy_error

definition ALTERNATIVE_DATA_COUNT_MAX :: nat where "ALTERNATIVE_DATA_COUNT_MAX = 1000"

text \<open>
  \<open>undefined\<close> is the missing spec: a measure read from the prototype has no \<open>unit\<close>, and the
  switch over it falls through.
\<close>

definition alternativeDataValueSpec :: "alternative_metric \<Rightarrow> thrown + value_spec option" where
  "alternativeDataValueSpec metric =
     (case alternativeDataMeasureDefinition metric of
        Own entry \<Rightarrow>
          (case measure_unit entry of
             COUNT \<Rightarrow> Inr (Some (NumberSpec (Fin 0) (Fin (of_nat ALTERNATIVE_DATA_COUNT_MAX)) (Fin 1) True))
           | MONEY \<Rightarrow> Inr (Some (MoneySpec (Fin 0) None (Fin 1000))))
      | Inherited \<Rightarrow> Inr None
      | Undefined \<Rightarrow> Inl TypeError)"

definition fundamentalMetricValueSpec :: "fundamental_metric \<Rightarrow> value_spec" where
  "fundamentalMetricValueSpec entry =
     (let floor = map_option (\<lambda>m. Fin (of_int m)) (metric_minimum entry)
      in case metric_unit entry of
           PERCENT_UNIT \<Rightarrow> PercentSpec floor None
         | MULTIPLE_UNIT \<Rightarrow> MultipleSpec floor None TENTH)"

definition valuationRatioValueSpec :: "valuation_ratio \<Rightarrow> value_spec" where
  "valuationRatioValueSpec entry = MultipleSpec (map_option (\<lambda>m. Fin (of_int m)) (ratio_minimum entry)) None TENTH"

definition valueSpecFor :: "strategy_metric \<Rightarrow> thrown + value_spec option" where
  "valueSpecFor metric =
     (if strategy_metric_kind_of metric = PRICE_KIND \<and> strategyMetricSource metric \<noteq> None
      then Inr (Some (SeriesSpec (catalogIds MOVING_AVERAGE_SERIES)))
      else case def_value (strategyMetricDefinition metric) of
          ALTERNATIVE_DATA_MEASURE \<Rightarrow>
            (case asAlternativeDataMetric metric of
               Some alternative \<Rightarrow> alternativeDataValueSpec alternative
             | None \<Rightarrow> Inr (Some (NumberSpec (Fin 0) (Fin (of_nat ALTERNATIVE_DATA_COUNT_MAX)) (Fin 1) False)))
        | COMPARABLE_MOVING_AVERAGES \<Rightarrow>
            Inr (Some (SeriesSpec (case strategyMetricSeriesId metric of
                None \<Rightarrow> []
              | Some seriesId \<Rightarrow> if seriesId = [] then [] else catalogIds (comparableMovingAverages seriesId))))
        | FUNDAMENTAL_METRIC \<Rightarrow>
            Inr (Some (case (case metric of FUNDAMENTAL metricId \<Rightarrow> findFundamentalMetric metricId | _ \<Rightarrow> None) of
                Some entry \<Rightarrow> fundamentalMetricValueSpec entry
              | None \<Rightarrow> PercentSpec None None))
        | VALUATION_RATIO_ENTRY \<Rightarrow>
            Inr (Some (case (case metric of VALUATION_RATIO ratioId \<Rightarrow> findValuationRatio ratioId | _ \<Rightarrow> None) of
                Some entry \<Rightarrow> valuationRatioValueSpec entry
              | None \<Rightarrow> MultipleSpec None None TENTH))
        | FixedSpec spec \<Rightarrow> Inr (Some spec))"

datatype compatibility = Compatible | VALUE_KIND_MISMATCHED | SERIES_NOT_COMPARED | VALUE_OUTSIDE_DOMAIN

definition in_domain :: "jsnum option \<Rightarrow> jsnum option \<Rightarrow> jsnum \<Rightarrow> bool" where
  "in_domain lower upper n \<longleftrightarrow> isFinite n \<and> (case lower of None \<Rightarrow> True | Some m \<Rightarrow> js_ge n m)
     \<and> (case upper of None \<Rightarrow> True | Some m \<Rightarrow> js_le n m)"

fun check_spec :: "value_spec \<Rightarrow> strategy_value \<Rightarrow> compatibility" where
  "check_spec (SeriesSpec seriesIds) v =
     (case v of
        SERIES seriesId \<Rightarrow> if seriesId \<in> set seriesIds then Compatible else SERIES_NOT_COMPARED
      | _ \<Rightarrow> VALUE_KIND_MISMATCHED)"
| "check_spec (NumberSpec lower upper step integer) v =
     (case v of
        NUMBER n \<Rightarrow>
          if integer \<and> \<not> js_isInteger n then VALUE_OUTSIDE_DOMAIN
          else if in_domain (Some lower) (Some upper) n then Compatible else VALUE_OUTSIDE_DOMAIN
      | _ \<Rightarrow> VALUE_KIND_MISMATCHED)"
| "check_spec (MoneySpec lower upper step) v =
     (case v of
        MONEY_VALUE n \<Rightarrow> if in_domain (Some lower) upper n then Compatible else VALUE_OUTSIDE_DOMAIN
      | _ \<Rightarrow> VALUE_KIND_MISMATCHED)"
| "check_spec (MultipleSpec lower upper step) v =
     (case v of
        MULTIPLE n \<Rightarrow> if in_domain lower upper n then Compatible else VALUE_OUTSIDE_DOMAIN
      | _ \<Rightarrow> VALUE_KIND_MISMATCHED)"
| "check_spec (PercentSpec lower upper) v =
     (case v of
        PERCENT n \<Rightarrow> if in_domain lower upper n then Compatible else VALUE_OUTSIDE_DOMAIN
      | _ \<Rightarrow> VALUE_KIND_MISMATCHED)"

definition checkStrategyValue :: "strategy_metric \<Rightarrow> strategy_value \<Rightarrow> thrown + compatibility" where
  "checkStrategyValue metric v =
     result_bind (valueSpecFor metric) (\<lambda>spec.
       case spec of None \<Rightarrow> Inl TypeError | Some spec \<Rightarrow> Inr (check_spec spec v))"

subsection \<open>The row a new rule starts from\<close>

definition defaultConditionOperatorFor :: "strategy_metric \<Rightarrow> condition_operator" where
  "defaultConditionOperatorFor metric =
     (case conditionOperatorsFor metric of first # _ \<Rightarrow> first | [] \<Rightarrow> hd CONDITION_OPERATORS)"

definition defaultTriggerOperatorFor :: "strategy_metric \<Rightarrow> trigger_operator" where
  "defaultTriggerOperatorFor metric =
     (case triggerOperatorsFor metric of first # _ \<Rightarrow> first | [] \<Rightarrow> hd TRIGGER_OPERATORS)"

definition clampToSpec :: "jsnum \<Rightarrow> jsnum option \<Rightarrow> jsnum option \<Rightarrow> jsnum" where
  "clampToSpec n lower upper =
     (case lower of
        Some m \<Rightarrow> if js_lt n m then m
          else (case upper of Some u \<Rightarrow> if js_gt n u then u else n | None \<Rightarrow> n)
      | None \<Rightarrow> (case upper of Some u \<Rightarrow> if js_gt n u then u else n | None \<Rightarrow> n))"

definition number_range :: "strategy_metric \<Rightarrow> value_spec \<Rightarrow> jsnum \<times> jsnum" where
  "number_range metric spec =
     (case findSelectableSeries (case strategyMetricSeriesId metric of Some seriesId \<Rightarrow> seriesId | None \<Rightarrow> []) of
        Some entry \<Rightarrow>
          (case series_source entry of
             OscillatorSource _ _ _ lower upper \<Rightarrow> (Fin (of_int lower), Fin (of_int upper))
           | _ \<Rightarrow> (number_min spec, number_max spec))
      | None \<Rightarrow> (number_min spec, number_max spec))"

fun default_in_spec :: "strategy_metric \<Rightarrow> value_spec \<Rightarrow> strategy_value option" where
  "default_in_spec metric (SeriesSpec seriesIds) = (case seriesIds of [] \<Rightarrow> None | first # _ \<Rightarrow> if first = [] then None else Some (SERIES first))"
| "default_in_spec metric (NumberSpec lower upper step integer) =
     (if asAlternativeDataMetric metric \<noteq> None then Some (NUMBER lower)
      else (let (low, high) = number_range metric (NumberSpec lower upper step integer)
        in Some (NUMBER (clampToSpec (js_div (js_add low high) (Fin 2)) (Some lower) (Some upper)))))"
| "default_in_spec metric (PercentSpec lower upper) = Some (PERCENT (clampToSpec (Fin 0) lower upper))"
| "default_in_spec metric (MultipleSpec lower upper step) = Some (MULTIPLE (clampToSpec (Fin 1) lower upper))"
| "default_in_spec metric (MoneySpec lower upper step) = Some (MONEY_VALUE (clampToSpec (Fin 0) (Some lower) upper))"

definition defaultValueFor :: "strategy_metric \<Rightarrow> thrown + strategy_value option" where
  "defaultValueFor metric =
     result_bind (valueSpecFor metric) (\<lambda>spec.
       case spec of None \<Rightarrow> Inl TypeError | Some spec \<Rightarrow> Inr (default_in_spec metric spec))"

subsection \<open>Menus\<close>

fun instantiateMetric :: "strategy_metric_kind \<Rightarrow> string \<Rightarrow> thrown + strategy_metric" where
  "instantiateMetric MOVING_AVERAGE_KIND seriesId = Inr (MOVING_AVERAGE seriesId None)"
| "instantiateMetric OSCILLATOR_KIND seriesId = Inr (OSCILLATOR seriesId None)"
| "instantiateMetric MARGIN_OF_SAFETY_KIND seriesId = Inr (MARGIN_OF_SAFETY seriesId)"
| "instantiateMetric PRICE_KIND seriesId = Inr (PRICE None)"
| "instantiateMetric GAIN_KIND seriesId = Inr GAIN"
| "instantiateMetric LOSS_KIND seriesId = Inr LOSS"
| "instantiateMetric _ seriesId = Inl NotParameterized"

text \<open>A metric of a kind without parameters; the measures of a table are its own keys.\<close>

fun instancesOf :: "strategy_metric_kind \<Rightarrow> thrown + strategy_metric list" where
  "instancesOf (ALTERNATIVE_KIND kind) =
     Inr (concat (map (\<lambda>name. case defaultAlternativeDataMetric kind name of
         Own metric \<Rightarrow> [ALTERNATIVE_DATA metric] | _ \<Rightarrow> []) (alternativeDataMeasures kind)))"
| "instancesOf RELATIVE_VOLUME_KIND = Inr (map (\<lambda>period. RELATIVE_VOLUME period None) RELATIVE_VOLUME_PERIODS)"
| "instancesOf FUNDAMENTAL_KIND = Inr (map (\<lambda>entry. FUNDAMENTAL (metric_id entry)) FUNDAMENTAL_METRIC_CATALOG)"
| "instancesOf VALUATION_RATIO_KIND = Inr (map (\<lambda>entry. VALUATION_RATIO (ratio_id entry)) VALUATION_RATIO_CATALOG)"
| "instancesOf kind =
     (case parameterSeriesIds (STRATEGY_METRIC_DEFINITIONS kind) of
        Some seriesIds \<Rightarrow> result_all (instantiateMetric kind) seriesIds
      | None \<Rightarrow> result_map (\<lambda>metric. [metric]) (instantiateMetric kind []))"

datatype predicate_part = CONDITION_PART | TRIGGER_PART

record metric_option =
  option_metric :: strategy_metric
  option_category :: metric_category

definition kind_offered :: "level_kind \<Rightarrow> predicate_part \<Rightarrow> metric_category \<Rightarrow> strategy_metric_kind \<Rightarrow> bool" where
  "kind_offered level part category kind \<longleftrightarrow>
     (let entry = STRATEGY_METRIC_DEFINITIONS kind
      in def_category entry = category \<and> level \<in> set (allowedIn entry)
         \<and> \<not> (part = TRIGGER_PART \<and> triggerOperators entry = []))"

definition category_options ::
  "(strategy_metric \<Rightarrow> strategy_metric) \<Rightarrow> strategy_metric_kind list \<Rightarrow> metric_category \<Rightarrow> thrown + metric_option list"
where
  "category_options sourced kinds category =
     result_map (\<lambda>metrics. map (\<lambda>metric. \<lparr>option_metric = sourced metric, option_category = category\<rparr>) (concat metrics))
       (result_all instancesOf kinds)"

definition buildMetricOptions :: "level_kind \<Rightarrow> predicate_part \<Rightarrow> thrown + metric_option list" where
  "buildMetricOptions level part =
     result_map concat (result_all (\<lambda>category.
       category_options (\<lambda>metric. metric) (filter (kind_offered level part category) STRATEGY_METRIC_KINDS) category)
       STRATEGY_METRIC_CATEGORIES)"

fun withMetricSource :: "strategy_metric \<Rightarrow> metric_source option \<Rightarrow> strategy_metric" where
  "withMetricSource metric None = metric"
| "withMetricSource (PRICE _) source = PRICE source"
| "withMetricSource (MOVING_AVERAGE seriesId _) source = MOVING_AVERAGE seriesId source"
| "withMetricSource (OSCILLATOR seriesId _) source = OSCILLATOR seriesId source"
| "withMetricSource (RELATIVE_VOLUME period _) source = RELATIVE_VOLUME period source"
| "withMetricSource metric source = metric"

definition etf_metric_options :: "level_kind \<Rightarrow> predicate_part \<Rightarrow> metric_source \<Rightarrow> thrown + metric_option list" where
  "etf_metric_options level part source =
     (if part = TRIGGER_PART then Inr []
      else result_map concat (result_all (\<lambda>category.
        category_options (\<lambda>metric. withMetricSource metric (Some source))
          (filter (kind_offered level CONDITION_PART category) ETF_COMPATIBLE_METRIC_KINDS) category)
        STRATEGY_METRIC_CATEGORIES))"

text \<open>\<open>metricMenu\<close> only remembers what it has built, so the menu is the one it would build again.\<close>

definition strategyMetricOptions ::
  "level_kind \<Rightarrow> predicate_part \<Rightarrow> metric_source option \<Rightarrow> thrown + metric_option list"
where
  "strategyMetricOptions level part source =
     (case source of None \<Rightarrow> buildMetricOptions level part | Some source \<Rightarrow> etf_metric_options level part source)"

text \<open>Consecutive options of one category.\<close>

fun add_option :: "metric_option \<Rightarrow> (metric_category \<times> metric_option list) list \<Rightarrow> (metric_category \<times> metric_option list) list" where
  "add_option option [] = [(option_category option, [option])]"
| "add_option option [(category, options)] =
     (if category = option_category option then [(category, options @ [option])]
      else [(category, options), (option_category option, [option])])"
| "add_option option (c # d # cs) = c # add_option option (d # cs)"

definition buildMetricCategories :: "metric_option list \<Rightarrow> (metric_category \<times> metric_option list) list" where
  "buildMetricCategories options = fold add_option options []"

definition strategyMetricCategories ::
  "level_kind \<Rightarrow> predicate_part \<Rightarrow> metric_source option \<Rightarrow> thrown + (metric_category \<times> metric_option list) list"
where
  "strategyMetricCategories level part source = result_map buildMetricCategories (strategyMetricOptions level part source)"

definition strategyMetricCategory :: "strategy_metric \<Rightarrow> metric_category" where
  "strategyMetricCategory metric = def_category (strategyMetricDefinition metric)"

definition strategyMetricFamily :: "strategy_metric \<Rightarrow> metric_family" where
  "strategyMetricFamily metric = STRATEGY_METRIC_CATEGORY_FAMILIES (strategyMetricCategory metric)"

definition strategyMetricFamilies ::
  "level_kind \<Rightarrow> predicate_part \<Rightarrow> metric_source option
     \<Rightarrow> thrown + (metric_family \<times> (metric_category \<times> metric_option list) list) list"
where
  "strategyMetricFamilies level part source =
     result_map (\<lambda>categories. concat (map (\<lambda>family.
         let own = filter (\<lambda>c. STRATEGY_METRIC_CATEGORY_FAMILIES (fst c) = family) categories
         in if own = [] then [] else [(family, own)]) STRATEGY_METRIC_FAMILIES))
       (strategyMetricCategories level part source)"

definition defaultStrategyMetric ::
  "level_kind \<Rightarrow> predicate_part \<Rightarrow> metric_category option \<Rightarrow> metric_source option \<Rightarrow> thrown + strategy_metric option"
where
  "defaultStrategyMetric level part category source =
     result_map (\<lambda>categories.
         let chosen = (case category of
             None \<Rightarrow> (case categories of [] \<Rightarrow> None | c # _ \<Rightarrow> Some c)
           | Some wanted \<Rightarrow> List.find (\<lambda>c. fst c = wanted) categories)
         in case chosen of Some (_, option # _) \<Rightarrow> Some (option_metric option) | _ \<Rightarrow> None)
       (strategyMetricCategories level part source)"

definition strategyEtfSourcesOffered :: "level_kind \<Rightarrow> predicate_part \<Rightarrow> thrown + bool" where
  "strategyEtfSourcesOffered level part =
     (case STRATEGY_ETF_SOURCES of
        [] \<Rightarrow> Inr False
      | first # _ \<Rightarrow> result_map (\<lambda>options. 0 < length options) (strategyMetricOptions level part (Some (ETF (etf_code first)))))"

definition strategyMetricUnderSource ::
  "level_kind \<Rightarrow> predicate_part \<Rightarrow> strategy_metric \<Rightarrow> metric_source option \<Rightarrow> thrown + strategy_metric option"
where
  "strategyMetricUnderSource level part metric source =
     (let candidate = withMetricSource (withoutMetricSource metric) source; key = strategyMetricKey candidate
      in result_map (\<lambda>options. if list_ex (\<lambda>option. strategyMetricKey (option_metric option) = key) options
             then Some candidate else None)
           (strategyMetricOptions level part source))"

end
