(* ===== verification/Spec2Isabelle.thy ===== *)
theory Spec2Isabelle
  imports
    Prelude LocalDates BuyWindows JsNumber JsStrings Catalogs AltMetrics Strategies Operands
    Evaluability Frames Predicates Money Positions Calendar
    JsMath Metrics Simulation SimulationDay SimulationRun SimulationLedger SimulationInvariants
    SimulationContract SimulationObservation WindowFrames WindowEquivalence YearBoundary
    MonitorLifecycle MonitorReplay Digest JsText Fingerprints StrategyRules
begin

text \<open>
  A model of the pure core of FactorSage (the intrinsic-value monorepo) and the theorems that
  make it correct.

  The program is a TypeScript monorepo: strategies over daily market data are backtested and
  monitored. The packages share a vocabulary of product dates (\<open>packages/contracts\<close>),
  list membership and buy windows (\<open>packages/domain\<close>), strategy evaluation and simulation
  (\<open>packages/strategy\<close>).
\<close>

end
